(* ===== verification/Weave_Prelude.thy ===== *)
theory Weave_Prelude
  imports Main "HOL-Library.Word" "HOL-Library.Sublist" "HOL-Library.Multiset"
begin

text \<open>
  Vocabulary shared by every component theory of the development.

  A Go string and a Go byte slice are both finite sequences of bytes; HOL's \<open>string\<close>
  (a list of 8-bit \<open>char\<close>) is exactly that, so \<open>length\<close> counts bytes as Go's
  \<open>len\<close> does.  A Go result pair \<open>(value, error)\<close> is a sum: \<open>Inl\<close> carries the
  error, \<open>Inr\<close> the value.  An \<open>error\<close> alone is an option: \<open>None\<close> is \<open>nil\<close>.
\<close>

named_theorems go_simps \<open>characteristic equations of the Go library routines the model uses\<close>

type_synonym bytes = string
type_synonym u32 = "32 word"
type_synonym u64 = "64 word"

section \<open>Results of fallible calls\<close>

definition bind_res :: "'e + 'a \<Rightarrow> ('a \<Rightarrow> 'e + 'b) \<Rightarrow> 'e + 'b" where
  "bind_res r f = (case r of Inl e \<Rightarrow> Inl e | Inr a \<Rightarrow> f a)"

lemma bind_res_simps [simp]:
  "bind_res (Inl e) f = Inl e"
  "bind_res (Inr a) f = f a"
  by (simp_all add: bind_res_def)

lemma bind_res_eq_Inr [go_simps]:
  "bind_res r f = Inr b \<longleftrightarrow> (\<exists>a. r = Inr a \<and> f a = Inr b)"
  by (cases r) auto

section \<open>Bounded channels\<close>

text \<open>
  A buffered Go channel of capacity \<open>cap\<close> is the list of its queued elements, oldest
  first.  \<open>select { case ch <- x: default: }\<close> is \<open>offer\<close>: the element is queued when
  there is room and dropped otherwise.
\<close>

definition offer :: "nat \<Rightarrow> 'a \<Rightarrow> 'a list \<Rightarrow> 'a list" where
  "offer cap x q = (if length q < cap then q @ [x] else q)"

lemma length_offer: "length q \<le> cap \<Longrightarrow> length (offer cap x q) \<le> cap"
  by (simp add: offer_def)

lemma offer_nonempty: "0 < cap \<Longrightarrow> offer cap x q \<noteq> []"
  by (auto simp: offer_def)

lemma prefix_offer: "prefix q (offer cap x q)"
  by (simp add: offer_def)

section \<open>Lists\<close>

lemma prefix_append_sep:
  "c \<notin> set p \<Longrightarrow> prefix p (u @ c # w) \<longleftrightarrow> prefix p u"
proof
  assume c: "c \<notin> set p" and "prefix p (u @ c # w)"
  then have "prefix p u \<or> (\<exists>vs. p = u @ vs \<and> prefix vs (c # w))"
    by (simp add: prefix_append)
  with c show "prefix p u"
    by (auto simp: prefix_Cons)
qed (simp add: prefix_prefix)

lemma map_of_filter_key: "P k \<Longrightarrow> map_of (filter (\<lambda>(a, b). P a) xs) k = map_of xs k"
  by (induction xs) auto

section \<open>The iteration order of a Go map\<close>

text \<open>
  \<open>range\<close> over a Go map visits the entries in an order the runtime picks.  The choice is
  the number \<open>seed\<close>: \<open>map_order seed xs\<close> is always a permutation of \<open>xs\<close>, and every
  permutation is picked by some seed.
\<close>

function map_order :: "nat \<Rightarrow> 'a list \<Rightarrow> 'a list" where
  "map_order seed [] = []"
| "map_order seed (x # xs) =
     (let ys = x # xs; n = length ys; i = seed mod n in
      ys ! i # map_order (seed div n) (take i ys @ drop (Suc i) ys))"
  by pat_completeness auto
termination
proof (relation "measure (\<lambda>(seed, xs). length xs)", goal_cases)
  case (2 seed x xs ys n i)
  then have "i < length ys" by simp
  with 2 show ?case by simp
qed simp

lemma mset_take_drop_nth:
  "i < length xs \<Longrightarrow> add_mset (xs ! i) (mset (take i xs @ drop (Suc i) xs)) = mset xs"
  by (metis Cons_nth_drop_Suc append_take_drop_id mset.simps(2) mset_append union_mset_add_mset_right)

lemma mset_map_order [simp]: "mset (map_order seed xs) = mset xs"
proof (induction seed xs rule: map_order.induct)
  case (2 seed x xs)
  let ?i = "seed mod length (x # xs)"
  have "?i < length (x # xs)" by simp
  from mset_take_drop_nth [OF this] 2 show ?case
    by (simp add: Let_def del: take_Suc_Cons drop_Suc_Cons nth_Cons_Suc)
qed simp

lemma set_map_order [simp]: "set (map_order seed xs) = set xs"
  by (metis mset_map_order set_mset_mset)

lemma distinct_map_order [simp]: "distinct (map_order seed xs) = distinct xs"
  by (metis mset_eq_imp_distinct_iff mset_map_order)

lemma map_order_surj: "mset ys = mset xs \<Longrightarrow> \<exists>seed. map_order seed xs = ys"
proof (induction ys arbitrary: xs)
  case (Cons y ys)
  from Cons.prems have "y \<in> set xs" by (metis list.set_intros(1) mset_eq_setD)
  then obtain i where i: "i < length xs" "xs ! i = y" by (auto simp: in_set_conv_nth)
  from mset_take_drop_nth [OF i(1)] Cons.prems i(2)
  have "mset ys = mset (take i xs @ drop (Suc i) xs)" by (metis add_mset_add_mset_same_iff mset.simps(2))
  from Cons.IH [OF this] obtain seed where
    seed: "map_order seed (take i xs @ drop (Suc i) xs) = ys" ..
  from i obtain x xs' where xs: "xs = x # xs'" by (cases xs) auto
  have "length xs \<noteq> 0" using i(1) by linarith
  then have "(i + length xs * seed) mod length xs = i" "(i + length xs * seed) div length xs = seed"
    using i(1) by (simp only: mod_mult_self2 mod_less) (use i(1) in \<open>simp only: div_mult_self2 div_less add_0_right not_False_eq_True\<close>)
  with seed i(2) have "map_order (i + length xs * seed) xs = y # ys"
    by (simp add: xs Let_def del: take_Suc_Cons drop_Suc_Cons nth_Cons_Suc mult_Suc)
  then show ?case ..
qed simp

end
