(* ===== verification/Werror.thy ===== *)
theory Werror
  imports Weave_Prelude
begin

text \<open>
  The error conventions: package \<open>werror\<close> (\<open>werror/werror.go\<close>) and the translation of
  host RPC statuses into its sentinels (\<open>modulesdk/errmap.go\<close>).

  A Go error is a value of \<open>go_error\<close>: a package-level variable made by \<open>errors.New\<close>
  (compared by identity, so one constructor per variable), a gRPC status, an opaque text
  error, or \<open>fmt.Errorf("label: %w", err)\<close>, which keeps \<open>err\<close> reachable for
  \<open>errors.Is\<close>.
\<close>

section \<open>Errors\<close>

datatype sentinel =
    ErrNotFound
  | ErrUnavailable
  | ErrProtocol
  | ErrDenied

text \<open>The canonical gRPC codes; any other code is kept by number.\<close>

datatype grpc_code =
    OK | Canceled | Unknown | InvalidArgument | DeadlineExceeded | NotFound | AlreadyExists
  | PermissionDenied | ResourceExhausted | FailedPrecondition | Aborted | OutOfRange
  | Unimplemented | Internal | Unavailable | DataLoss | Unauthenticated
  | OtherCode u32

datatype go_error =
    Sentinel sentinel
  | StatusError grpc_code string
  | TextError string
  | Wrap string go_error

fun sentinel_text :: "sentinel \<Rightarrow> string" where
  "sentinel_text ErrNotFound = ''not found''"
| "sentinel_text ErrUnavailable = ''unavailable''"
| "sentinel_text ErrProtocol = ''protocol violation''"
| "sentinel_text ErrDenied = ''denied''"

text \<open>
  \<open>errors.Is(err, sentinel)\<close>: walk the \<open>%w\<close> chain, comparing by identity.  \<open>wraps_status\<close>
  says a gRPC status is still reachable on that chain.
\<close>

fun errors_is :: "go_error \<Rightarrow> sentinel \<Rightarrow> bool" where
  "errors_is (Sentinel s) t = (s = t)"
| "errors_is (StatusError c m) t = False"
| "errors_is (TextError m) t = False"
| "errors_is (Wrap l e) t = errors_is e t"

fun wraps_status :: "go_error \<Rightarrow> bool" where
  "wraps_status (Sentinel s) = False"
| "wraps_status (StatusError c m) = True"
| "wraps_status (TextError m) = False"
| "wraps_status (Wrap l e) = wraps_status e"

text \<open>
  \<open>err.Error()\<close>; how a status renders itself is the gRPC library's affair, so that text
  is the argument \<open>show_status\<close>.
\<close>

fun error_text :: "(grpc_code \<Rightarrow> string \<Rightarrow> string) \<Rightarrow> go_error \<Rightarrow> string" where
  "error_text show_status (Sentinel s) = sentinel_text s"
| "error_text show_status (StatusError c m) = show_status c m"
| "error_text show_status (TextError m) = m"
| "error_text show_status (Wrap l e) = l @ '': '' @ error_text show_status e"

section \<open>werror.Op\<close>

definition Op :: "string \<Rightarrow> go_error option \<Rightarrow> go_error option" where
  "Op op err = (case err of None \<Rightarrow> None | Some e \<Rightarrow> Some (Wrap op e))"

definition err_is :: "go_error option \<Rightarrow> sentinel \<Rightarrow> bool" where
  "err_is err t = (case err of None \<Rightarrow> False | Some e \<Rightarrow> errors_is e t)"

lemma err_is_Op [simp]: "err_is (Op op err) t = err_is err t"
  by (simp add: err_is_def Op_def split: option.splits)

lemma errors_is_unique: "\<lbrakk>errors_is e s; errors_is e t\<rbrakk> \<Longrightarrow> s = t"
  by (induction e) auto

section \<open>sentinelErr\<close>

text \<open>
  \<open>status.FromError\<close> belongs to the gRPC library: \<open>from_error e\<close> is \<open>Some (code, message)\<close>
  when \<open>e\<close> carries a status and \<open>None\<close> when it does not.
\<close>

fun code_sentinel :: "grpc_code \<Rightarrow> sentinel option" where
  "code_sentinel NotFound = Some ErrNotFound"
| "code_sentinel Unavailable = Some ErrUnavailable"
| "code_sentinel PermissionDenied = Some ErrDenied"
| "code_sentinel FailedPrecondition = Some ErrProtocol"
| "code_sentinel _ = None"

definition sentinel_of ::
  "(go_error \<Rightarrow> (grpc_code \<times> string) option) \<Rightarrow> go_error \<Rightarrow> go_error" where
  "sentinel_of from_error e =
     (case from_error e of
        None \<Rightarrow> e
      | Some (code, msg) \<Rightarrow>
          (case code_sentinel code of
             None \<Rightarrow> e
           | Some s \<Rightarrow> Wrap msg (Sentinel s)))"

definition sentinelErr ::
  "(go_error \<Rightarrow> (grpc_code \<times> string) option) \<Rightarrow> go_error option \<Rightarrow> go_error option" where
  "sentinelErr from_error err =
     (case err of None \<Rightarrow> None | Some e \<Rightarrow> Some (sentinel_of from_error e))"

text \<open>What \<open>status.FromError\<close> documents for an error that is itself a status error.\<close>

definition reads_status :: "(go_error \<Rightarrow> (grpc_code \<times> string) option) \<Rightarrow> bool" where
  "reads_status from_error = (\<forall>c m. from_error (StatusError c m) = Some (c, m))"

text \<open>A concrete instance, for the witnesses: only an unwrapped status error is recognised.\<close>

fun plain_from_error :: "go_error \<Rightarrow> (grpc_code \<times> string) option" where
  "plain_from_error (StatusError c m) = Some (c, m)"
| "plain_from_error _ = None"

lemma plain_from_error_reads: "reads_status plain_from_error"
  by (simp add: reads_status_def)

lemma code_sentinel_eq_Some:
  "code_sentinel c = Some s \<longleftrightarrow>
     c = NotFound \<and> s = ErrNotFound \<or> c = Unavailable \<and> s = ErrUnavailable \<or>
     c = PermissionDenied \<and> s = ErrDenied \<or> c = FailedPrecondition \<and> s = ErrProtocol"
  by (cases c) auto

lemma sentinel_of_status:
  "reads_status from_error \<Longrightarrow>
   sentinel_of from_error (StatusError c m) =
     (case code_sentinel c of None \<Rightarrow> StatusError c m | Some s \<Rightarrow> Wrap m (Sentinel s))"
  by (simp add: sentinel_of_def reads_status_def split: option.splits)

lemma sentinel_of_non_status: "from_error e = None \<Longrightarrow> sentinel_of from_error e = e"
  by (simp add: sentinel_of_def)

section \<open>Properties\<close>

text \<open>
  A module branches on host RPC failures by sentinel alone: the error of a status with
  code \<open>c\<close>, however many \<open>werror.Op\<close> labels wrap it, is \<open>errors.Is\<close> the sentinel \<open>t\<close> exactly
  when \<open>c\<close> is mapped to \<open>t\<close>.
\<close>
lemma sentinelErr_branches:
  assumes "reads_status from_error"
  shows "err_is (Op op (sentinelErr from_error (Some (StatusError c m)))) t \<longleftrightarrow> code_sentinel c = Some t"
  using assms
  by (simp add: sentinelErr_def sentinel_of_status err_is_def Op_def split: option.split)

lemma sentinelErr_branches_witness:
  "err_is (Op ''store.get'' (sentinelErr plain_from_error (Some (StatusError NotFound ''no key'')))) ErrNotFound"
  by (rule iffD2 [OF sentinelErr_branches [OF plain_from_error_reads]]) simp

text \<open>
  The status itself does not survive the mapping: once a code is mapped to a sentinel, only
  the message is kept as text, and no gRPC status can be found on the error's chain.
\<close>
lemma sentinelErr_drops_status:
  assumes "reads_status from_error" and "code_sentinel c = Some s"
  shows "\<exists>e. sentinelErr from_error (Some (StatusError c m)) = Some e \<and> \<not> wraps_status e \<and>
    error_text show_status e = m @ '': '' @ sentinel_text s"
  using assms by (simp add: sentinelErr_def sentinel_of_status)

lemma sentinelErr_drops_status_witness:
  "\<exists>e. sentinelErr plain_from_error (Some (StatusError Unavailable ''peer down'')) = Some e \<and>
     \<not> wraps_status e \<and> error_text (\<lambda>c m. m) e = ''peer down'' @ '': '' @ sentinel_text ErrUnavailable"
  by (rule sentinelErr_drops_status [OF plain_from_error_reads]) simp

end
