(* ===== verification/SdkTypes.thy ===== *)
theory SdkTypes
  imports Werror "HOL-Library.Signed_Division"
begin

text \<open>
  The data a module and the runtime exchange (\<open>modulesdk/module.go\<close>).  A Go \<open>int\<close> and a
  \<open>time.Duration\<close> are 64-bit two's complement words, read with \<open>sint\<close>; an instant is the
  number of units since the epoch.
\<close>

type_synonym go_int = "64 word"
type_synonym duration = "64 word"

definition ModuleProtocol :: u32 where "ModuleProtocol = 1"

type_synonym Capability = string

section \<open>Health\<close>

type_synonym HealthStatus = go_int

definition HealthUnknown :: HealthStatus where "HealthUnknown = 0"
definition HealthHealthy :: HealthStatus where "HealthHealthy = 1"
definition HealthDegraded :: HealthStatus where "HealthDegraded = 2"
definition HealthUnhealthy :: HealthStatus where "HealthUnhealthy = 3"

record Health =
  h_Status :: HealthStatus
  h_Reason :: string
  h_Details :: "string \<rightharpoonup> string"

section \<open>What the host surfaces carry\<close>

record DeviceIdentity =
  dev_DeviceID :: string
  dev_Ephemeral :: bool
  dev_Tenant :: string

record Credential =
  cred_Token :: string
  cred_ExpiresAt :: int
  cred_Scopes :: "string list"

type_synonym Peer = go_int

definition PeerGateWeave :: Peer where "PeerGateWeave = 1"
definition PeerHypervisor :: Peer where "PeerHypervisor = 2"

record Message =
  msg_Peer :: Peer
  msg_Kind :: string
  msg_Data :: bytes

record PolicyDocument =
  pol_Revision :: u64
  pol_Data :: bytes
  pol_SchemaVersion :: u32
  pol_ContentType :: string

record Event =
  e_Topic :: string
  e_Data :: bytes
  e_PublishedAt :: int
  e_Sequence :: u64

record Surface =
  srf_ID :: string
  srf_Title :: string
  srf_Kind :: string
  srf_Data :: bytes

section \<open>Jobs\<close>

text \<open>
  \<open>EveryFunc\<close> is re-read every cycle: it is the interval of the n-th cycle.  \<open>Run\<close> is the
  module's own work and appears as an event of the job loop (theory \<open>Streams\<close>).
\<close>

record Job =
  job_Name :: string
  job_Every :: duration
  job_EveryFunc :: "(nat \<Rightarrow> duration) option"

text \<open>
  \<open>time.Duration(secs) * time.Second\<close> for a 32-bit count of seconds: the conversion widens,
  the product is a 64-bit multiplication.
\<close>

definition seconds :: "u32 \<Rightarrow> duration" where
  "seconds secs = ucast secs * 1000000000"

lemma unat_seconds: "unat (seconds secs) = unat secs * 1000000000"
proof -
  have "unat secs < 2 ^ 32" using unsigned_less [of secs] by simp
  then have "unat secs * 1000000000 < 2 ^ 64" by simp
  then show ?thesis
    by (simp add: seconds_def unat_word_ariths unsigned_ucast_eq take_bit_nat_eq_self)
qed

lemma sint_seconds: "sint (seconds secs) = int (unat secs) * 1000000000"
proof -
  have "unat secs < 2 ^ 32" using unsigned_less [of secs] by simp
  then have "unat (seconds secs) < 9223372036854775808" by (simp add: unat_seconds)
  then have "int (unat (seconds secs)) < 9223372036854775808"
    by (simp only: of_nat_less_numeral_iff)
  then have "uint (seconds secs) < 2 ^ 63" by simp
  moreover have "- (2 ^ 63) \<le> uint (seconds secs)"
    by (rule order_trans [of _ 0]) simp_all
  ultimately have "sint (seconds secs) = uint (seconds secs)"
    unfolding sint_uint by (intro signed_take_bit_int_eq_self) simp_all
  also have "\<dots> = int (unat (seconds secs))" by simp
  finally show ?thesis by (simp only: unat_seconds of_nat_mult of_nat_numeral)
qed

lemma seconds_positive: "0 < sint (seconds secs) \<longleftrightarrow> 0 < secs"
  by (simp add: sint_seconds word_less_def)

end
