(* ===== verification/Wire.thy ===== *)
theory Wire
  imports SdkTypes
begin

text \<open>
  The generated gRPC surface between a module and core, as far as the SDK's own code names
  it: for each unary host RPC, a function of the call's context, its request fields and the
  server's state, giving the error or the response fields and the new state; for each streaming
  one the same with, for a response, the life of the stream as its reader will meet it.  A
  \<open>rpc_clients\<close> record is what \<open>agentv1.New...Client(conn)\<close> returns; whatever serves the
  other end (core, or the stub of theory \<open>HostServer\<close>) provides one.
\<close>

type_synonym ('s, 'a) served = "'s \<Rightarrow> (go_error + 'a) \<times> 's"

text \<open>
  One turn of the goroutine that reads a stream: the receive fails (or the stream has ended), the
  message is taken by the consumer, or the context is done before the consumer takes it.
\<close>

datatype 'w pump_in =
    RecvFailed
  | RecvTaken 'w
  | RecvCancelled 'w

record ('c, 's) rpc_clients =
  rpc_WhoAmI :: "'c \<Rightarrow> ('s, string \<times> bool \<times> string) served"
  rpc_Credential :: "'c \<Rightarrow> string list \<Rightarrow> ('s, string \<times> int \<times> string list) served"
  rpc_Send :: "'c \<Rightarrow> 32 word \<times> string \<times> bytes \<Rightarrow> bool \<Rightarrow> ('s, bool) served"
  rpc_PolicyGet :: "'c \<Rightarrow> ('s, u64 \<times> bytes \<times> u32 \<times> string) served"
  rpc_StoreGet :: "'c \<Rightarrow> string \<Rightarrow> ('s, bytes \<times> bool) served"
  rpc_StorePut :: "'c \<Rightarrow> string \<Rightarrow> bytes \<Rightarrow> ('s, unit) served"
  rpc_StoreDelete :: "'c \<Rightarrow> string \<Rightarrow> ('s, unit) served"
  rpc_StoreList :: "'c \<Rightarrow> string \<Rightarrow> ('s, string list) served"
  rpc_Publish :: "'c \<Rightarrow> string \<Rightarrow> bytes \<Rightarrow> ('s, unit) served"
  rpc_Receive :: "'c \<Rightarrow> ('s, (32 word \<times> string \<times> bytes) pump_in list) served"
  rpc_Watch :: "'c \<Rightarrow> ('s, (u64 \<times> bytes \<times> u32 \<times> string) pump_in list) served"
  rpc_Subscribe :: "'c \<Rightarrow> string list \<Rightarrow> ('s, (string \<times> bytes \<times> int \<times> u64) pump_in list) served"

end
