(* ===== verification/GoStrings.thy ===== *)
theory GoStrings
  imports Weave_Prelude
begin

text \<open>
  The parts of Go's \<open>strings\<close>, \<open>strconv\<close> and \<open>fmt\<close> packages the SDK's own code calls,
  on byte strings: \<open>strings.Split\<close> on a one-byte separator, \<open>strings.CutPrefix\<close> and
  \<open>TrimPrefix\<close>, \<open>strings.TrimSpace\<close> (which strips every Unicode space, not only the
  ASCII ones), \<open>strconv.ParseUint(s, 10, bits)\<close> and the decimal rendering of \<open>%d\<close>.
\<close>

section \<open>Split and join\<close>

fun split_on :: "char \<Rightarrow> string \<Rightarrow> string list" where
  "split_on c [] = [[]]"
| "split_on c (x # xs) =
     (if x = c then [] # split_on c xs
      else (case split_on c xs of [] \<Rightarrow> [[x]] | p # ps \<Rightarrow> (x # p) # ps))"

fun join_on :: "char \<Rightarrow> string list \<Rightarrow> string" where
  "join_on c [] = []"
| "join_on c [p] = p"
| "join_on c (p # q # ps) = p @ c # join_on c (q # ps)"

lemma split_on_not_Nil [simp]: "split_on c s \<noteq> []"
  by (cases s) (auto split: list.splits)

lemma split_on_no_sep: "p \<in> set (split_on c s) \<Longrightarrow> c \<notin> set p"
  by (induction s arbitrary: p) (auto split: if_splits list.splits)

lemma join_on_Cons_Nil: "ps \<noteq> [] \<Longrightarrow> join_on c ([] # ps) = c # join_on c ps"
  by (cases ps) auto

lemma join_on_Cons_Cons: "join_on c ((x # p) # ps) = x # join_on c (p # ps)"
  by (cases ps) auto

lemma join_split [go_simps]: "join_on c (split_on c s) = s"
  by (induction s) (auto simp: join_on_Cons_Nil join_on_Cons_Cons split: list.splits)

lemma split_on_no_occ: "c \<notin> set p \<Longrightarrow> split_on c p = [p]"
  by (induction p) auto

lemma split_on_append_sep:
  "c \<notin> set p \<Longrightarrow> split_on c (p @ c # s) = p # split_on c s"
  by (induction p) auto

lemma split_join [go_simps]:
  "\<lbrakk>ps \<noteq> []; \<forall>p \<in> set ps. c \<notin> set p\<rbrakk> \<Longrightarrow> split_on c (join_on c ps) = ps"
  by (induction c ps rule: join_on.induct) (auto simp: split_on_no_occ split_on_append_sep)

section \<open>CutPrefix and TrimPrefix\<close>

fun cut_prefix :: "string \<Rightarrow> string \<Rightarrow> string option" where
  "cut_prefix [] s = Some s"
| "cut_prefix (p # ps) [] = None"
| "cut_prefix (p # ps) (x # xs) = (if p = x then cut_prefix ps xs else None)"

definition trim_prefix :: "string \<Rightarrow> string \<Rightarrow> string" where
  "trim_prefix p s = (case cut_prefix p s of Some r \<Rightarrow> r | None \<Rightarrow> s)"

lemma cut_prefix_Some [go_simps]: "cut_prefix p s = Some r \<longleftrightarrow> s = p @ r"
  by (induction p s rule: cut_prefix.induct) auto

lemma cut_prefix_None [go_simps]: "cut_prefix p s = None \<longleftrightarrow> \<not> prefix p s"
  by (induction p s rule: cut_prefix.induct) auto

lemma cut_prefix_append [simp]: "cut_prefix p (p @ r) = Some r"
  by (simp add: cut_prefix_Some)

lemma trim_prefix_append [simp]: "trim_prefix p (p @ r) = r"
  by (simp add: trim_prefix_def)

lemma trim_prefix_Nil [simp]: "trim_prefix [] s = s"
  by (simp add: trim_prefix_def)

lemma map_trim_prefix_Nil [simp]: "map (trim_prefix []) ks = ks"
  by (simp add: map_idI)

section \<open>TrimSpace\<close>

text \<open>
  The UTF-8 encodings of the code points \<open>unicode.IsSpace\<close> accepts.  Each is one leading
  byte followed by continuation bytes only, so a string begins (ends) with a space rune
  exactly when one of these byte sequences is a prefix (suffix) of it: this is what
  \<open>utf8.DecodeRune\<close> and \<open>utf8.DecodeLastRune\<close> decide on valid and invalid UTF-8 alike.
\<close>

definition space_runes :: "string list" where
  "space_runes =
     [[CHR 0x09], [CHR 0x0A], [CHR 0x0B], [CHR 0x0C], [CHR 0x0D], [CHR 0x20],
      [CHR 0xC2, CHR 0x85], [CHR 0xC2, CHR 0xA0],
      [CHR 0xE1, CHR 0x9A, CHR 0x80],
      [CHR 0xE2, CHR 0x80, CHR 0x80], [CHR 0xE2, CHR 0x80, CHR 0x81],
      [CHR 0xE2, CHR 0x80, CHR 0x82], [CHR 0xE2, CHR 0x80, CHR 0x83],
      [CHR 0xE2, CHR 0x80, CHR 0x84], [CHR 0xE2, CHR 0x80, CHR 0x85],
      [CHR 0xE2, CHR 0x80, CHR 0x86], [CHR 0xE2, CHR 0x80, CHR 0x87],
      [CHR 0xE2, CHR 0x80, CHR 0x88], [CHR 0xE2, CHR 0x80, CHR 0x89],
      [CHR 0xE2, CHR 0x80, CHR 0x8A], [CHR 0xE2, CHR 0x80, CHR 0xA8],
      [CHR 0xE2, CHR 0x80, CHR 0xA9], [CHR 0xE2, CHR 0x80, CHR 0xAF],
      [CHR 0xE2, CHR 0x81, CHR 0x9F], [CHR 0xE3, CHR 0x80, CHR 0x80]]"

fun cut_any :: "string list \<Rightarrow> string \<Rightarrow> string option" where
  "cut_any [] s = None"
| "cut_any (p # ps) s = (case cut_prefix p s of Some r \<Rightarrow> Some r | None \<Rightarrow> cut_any ps s)"

function trim_front :: "string list \<Rightarrow> string \<Rightarrow> string" where
  "trim_front tbl s =
     (case cut_any tbl s of
        None \<Rightarrow> s
      | Some r \<Rightarrow> if length r < length s then trim_front tbl r else s)"
  by pat_completeness auto
termination
  by (relation "measure (\<lambda>(tbl, s). length s)") auto

declare trim_front.simps [simp del]

definition trim_left_space :: "string \<Rightarrow> string" where
  "trim_left_space s = trim_front space_runes s"

definition trim_right_space :: "string \<Rightarrow> string" where
  "trim_right_space s = rev (trim_front (map rev space_runes) (rev s))"

definition trim_space :: "string \<Rightarrow> string" where
  "trim_space s = trim_right_space (trim_left_space s)"

definition ends_in_space :: "string \<Rightarrow> bool" where
  "ends_in_space s = (\<exists>p \<in> set space_runes. suffix p s)"

lemma cut_any_None: "cut_any tbl s = None \<longleftrightarrow> (\<forall>p \<in> set tbl. \<not> prefix p s)"
  by (induction tbl) (auto simp: cut_prefix_None cut_prefix_Some prefix_def split: option.splits)

lemma cut_any_Some: "cut_any tbl s = Some r \<Longrightarrow> \<exists>p \<in> set tbl. s = p @ r"
  by (induction tbl) (auto simp: cut_prefix_Some split: option.splits)

lemma trim_front_id: "cut_any tbl s = None \<Longrightarrow> trim_front tbl s = s"
  by (subst trim_front.simps) simp

lemma trim_front_suffix: "suffix (trim_front tbl s) s"
proof (induction tbl s rule: trim_front.induct)
  case (1 tbl s)
  show ?case
  proof (cases "cut_any tbl s")
    case None
    then show ?thesis by (simp add: trim_front_id)
  next
    case (Some r)
    then obtain p where s: "s = p @ r" by (auto dest: cut_any_Some)
    show ?thesis
    proof (cases "length r < length s")
      case True
      with 1 Some have "suffix (trim_front tbl r) r" by simp
      with s have "suffix (trim_front tbl r) s" by (simp add: suffix_appendI)
      with True Some show ?thesis by (subst trim_front.simps) simp
    next
      case False
      with Some show ?thesis by (subst trim_front.simps) simp
    qed
  qed
qed

lemma trim_front_done: "[] \<notin> set tbl \<Longrightarrow> cut_any tbl (trim_front tbl s) = None"
proof (induction tbl s rule: trim_front.induct)
  case (1 tbl s)
  show ?case
  proof (cases "cut_any tbl s")
    case None
    then show ?thesis by (simp add: trim_front_id)
  next
    case (Some r)
    then obtain p where "p \<in> set tbl" "s = p @ r" by (auto dest: cut_any_Some)
    with 1(2) have "length r < length s" by (cases p) auto
    with 1 Some show ?thesis by (subst trim_front.simps) simp
  qed
qed

lemma space_runes_nonempty: "[] \<notin> set space_runes"
  by (simp add: space_runes_def)

lemma ends_in_space_alt:
  "ends_in_space s \<longleftrightarrow> cut_any (map rev space_runes) (rev s) \<noteq> None"
  by (auto simp: ends_in_space_def cut_any_None suffix_to_prefix)

lemma trim_space_not_ends_in_space: "\<not> ends_in_space (trim_space s)"
proof -
  have "[] \<notin> set (map rev space_runes)"
    using space_runes_nonempty by auto
  then show ?thesis
    by (simp add: ends_in_space_alt trim_space_def trim_right_space_def trim_front_done)
qed

lemma trim_space_id:
  "\<lbrakk>cut_any space_runes s = None; \<not> ends_in_space s\<rbrakk> \<Longrightarrow> trim_space s = s"
  by (simp add: trim_space_def trim_left_space_def trim_right_space_def trim_front_id
      ends_in_space_alt)

lemma space_rune_bytes:
  "p \<in> set space_runes \<Longrightarrow> CHR ''|'' \<notin> set p \<and> CHR ''W'' \<notin> set p"
  by (auto simp: space_runes_def)

lemma ends_in_space_append_bar:
  "ends_in_space (xs @ CHR ''|'' # ys) \<longleftrightarrow> ends_in_space ys"
proof -
  have "prefix (rev p) (rev ys @ CHR ''|'' # rev xs) \<longleftrightarrow> prefix (rev p) (rev ys)"
    if "p \<in> set space_runes" for p
    using space_rune_bytes [OF that] by (intro prefix_append_sep) simp
  then show ?thesis
    by (auto simp: ends_in_space_def suffix_to_prefix)
qed

section \<open>Decimal numbers\<close>

definition digit_val :: "char \<Rightarrow> nat option" where
  "digit_val c = (let n = (of_char c :: nat) in if 48 \<le> n \<and> n \<le> 57 then Some (n - 48) else None)"

definition digit_char :: "nat \<Rightarrow> char" where
  "digit_char d = char_of (48 + d)"

fun dec_of_nat :: "nat \<Rightarrow> string" where
  "dec_of_nat n =
     (if n < 10 then [digit_char n] else dec_of_nat (n div 10) @ [digit_char (n mod 10)])"

declare dec_of_nat.simps [simp del]

datatype num_error = ErrSyntax | ErrRange

text \<open>
  \<open>strconv.ParseUint(s, 10, bits)\<close>: base 10 takes no sign, no underscore and no prefix; the
  loop stops at the first byte that is no digit or the first value past the maximum.
\<close>

fun parse_uint_loop :: "nat \<Rightarrow> nat \<Rightarrow> string \<Rightarrow> num_error + nat" where
  "parse_uint_loop mx n [] = Inr n"
| "parse_uint_loop mx n (c # cs) =
     (case digit_val c of
        None \<Rightarrow> Inl ErrSyntax
      | Some d \<Rightarrow> (let n1 = n * 10 + d in
                 if mx < n1 then Inl ErrRange else parse_uint_loop mx n1 cs))"

definition parse_uint :: "nat \<Rightarrow> string \<Rightarrow> num_error + nat" where
  "parse_uint bits s = (if s = [] then Inl ErrSyntax else parse_uint_loop (2 ^ bits - 1) 0 s)"

lemma digit_val_char [simp]: "d < 10 \<Longrightarrow> digit_val (digit_char d) = Some d"
  by (simp add: digit_val_def digit_char_def of_char_of)

lemma dec_of_nat_not_Nil [simp]: "dec_of_nat n \<noteq> []"
  by (subst dec_of_nat.simps) simp

lemma dec_of_nat_digits: "c \<in> set (dec_of_nat n) \<Longrightarrow> \<exists>d < 10. c = digit_char d"
proof (induction n rule: dec_of_nat.induct)
  case (1 n)
  then show ?case
    by (cases "n < 10") (auto simp: dec_of_nat.simps [of n] intro: exI [of _ "n mod 10"])
qed

lemma digit_char_neq_bar: "d < 10 \<Longrightarrow> digit_char d \<noteq> CHR ''|''"
proof
  assume "d < 10" "digit_char d = CHR ''|''"
  then have "digit_val (CHR ''|'') = Some d" using digit_val_char by metis
  then show False by (simp add: digit_val_def)
qed

lemma dec_of_nat_no_bar [simp]: "CHR ''|'' \<notin> set (dec_of_nat n)"
  by (metis dec_of_nat_digits digit_char_neq_bar)

lemma parse_uint_loop_append:
  "parse_uint_loop mx n (xs @ ys) =
     bind_res (parse_uint_loop mx n xs) (\<lambda>m. parse_uint_loop mx m ys)"
  by (induction xs arbitrary: n) (auto simp: Let_def split: option.splits)

lemma parse_uint_loop_dec: "n \<le> mx \<Longrightarrow> parse_uint_loop mx 0 (dec_of_nat n) = Inr n"
proof (induction n rule: dec_of_nat.induct)
  case (1 n)
  show ?case
  proof (cases "n < 10")
    case True
    with 1(2) show ?thesis by (simp add: dec_of_nat.simps [of n])
  next
    case False
    with 1 have "parse_uint_loop mx 0 (dec_of_nat (n div 10)) = Inr (n div 10)" by simp
    with False 1(2) show ?thesis
      by (simp add: dec_of_nat.simps [of n] parse_uint_loop_append)
  qed
qed

lemma parse_uint_dec [go_simps]: "n < 2 ^ bits \<Longrightarrow> parse_uint bits (dec_of_nat n) = Inr n"
  by (simp add: parse_uint_def parse_uint_loop_dec)

lemma parse_uint_loop_bound:
  "\<lbrakk>parse_uint_loop mx n s = Inr m; n \<le> mx\<rbrakk> \<Longrightarrow> m \<le> mx"
  by (induction s arbitrary: n) (auto simp: Let_def split: option.splits if_splits)

lemma parse_uint_bound: "parse_uint bits s = Inr m \<Longrightarrow> m < 2 ^ bits"
proof -
  assume "parse_uint bits s = Inr m"
  then have "m \<le> 2 ^ bits - 1"
    by (auto simp: parse_uint_def split: if_splits intro: parse_uint_loop_bound)
  moreover have "0 < (2::nat) ^ bits" by simp
  ultimately show ?thesis by linarith
qed

end
