(* ===== verification/HostData.thy ===== *)
theory HostData
  imports GoStrings "HOL-Library.AList"
begin

text \<open>
  The in-memory state behind the stub host services (\<open>modulesdk/testkit/hostdata.go\<close>): the
  key/value store, the policy document and its watchers, the event log with its subscribers,
  and the recorded transport sends.

  Every method runs its body under \<open>d.mu\<close>, so one method call is one step on the state;
  \<open>SetPolicy\<close> and \<open>Publish\<close> release the lock before they signal, which theory
  \<open>PolicyWatch\<close> takes apart for the policy.  Go ranges over a map in an order the runtime picks: \<open>StoreKeys\<close>
  takes that choice as its \<open>seed\<close> (\<open>map_order\<close>).
\<close>

section \<open>State\<close>

record PublishedEvent =
  ev_Topic :: string
  ev_Data :: bytes
  ev_At :: int

record SentMessage =
  sm_Peer :: "32 word"
  sm_Kind :: string
  sm_Data :: bytes
  sm_QueueOffline :: bool

record DeviceInfo =
  di_DeviceID :: string
  di_Ephemeral :: bool
  di_Tenant :: string

record subscriber =
  sub_topics :: "string list"
  sub_ch :: "PublishedEvent list"

record HostData =
  hd_store :: "(string \<times> bytes) list"
  hd_policyRevision :: u64
  hd_policyData :: bytes
  hd_policyWatchers :: "unit list list"
  hd_events :: "PublishedEvent list"
  hd_subscribers :: "subscriber list"
  hd_sends :: "SentMessage list"
  hd_Device :: DeviceInfo

definition NewHostData :: HostData where
  "NewHostData =
     \<lparr>hd_store = [], hd_policyRevision = 0, hd_policyData = [], hd_policyWatchers = [],
      hd_events = [], hd_subscribers = [], hd_sends = [],
      hd_Device = \<lparr>di_DeviceID = ''test-device'', di_Ephemeral = False, di_Tenant = ''test''\<rparr>\<rparr>"

section \<open>The store\<close>

definition StoreGet :: "HostData \<Rightarrow> string \<Rightarrow> bytes \<times> bool" where
  "StoreGet d key = (case map_of (hd_store d) key of None \<Rightarrow> ([], False) | Some v \<Rightarrow> (v, True))"

definition StorePut :: "string \<Rightarrow> bytes \<Rightarrow> HostData \<Rightarrow> HostData" where
  "StorePut key value d = d\<lparr>hd_store := AList.update key value (hd_store d)\<rparr>"

definition StoreDelete :: "string \<Rightarrow> HostData \<Rightarrow> HostData" where
  "StoreDelete key d = d\<lparr>hd_store := AList.delete key (hd_store d)\<rparr>"

definition StoreKeys :: "nat \<Rightarrow> HostData \<Rightarrow> string \<Rightarrow> string list" where
  "StoreKeys seed d pre =
     filter (\<lambda>k. length k \<ge> length pre \<and> take (length pre) k = pre)
       (map_order seed (map fst (hd_store d)))"

text \<open>A Go map has one entry per key.\<close>

definition store_ok :: "HostData \<Rightarrow> bool" where
  "store_ok d = distinct (map fst (hd_store d))"

lemma take_eq_prefix: "length k \<ge> length p \<and> take (length p) k = p \<longleftrightarrow> prefix p k"
  by (metis append_eq_conv_conj prefix_def prefix_length_le)

lemma store_ok_New: "store_ok NewHostData"
  by (simp add: store_ok_def NewHostData_def)

lemma store_ok_Put: "store_ok d \<Longrightarrow> store_ok (StorePut k v d)"
  by (simp add: store_ok_def StorePut_def distinct_update)

lemma store_ok_Delete: "store_ok d \<Longrightarrow> store_ok (StoreDelete k d)"
  by (simp add: store_ok_def StoreDelete_def distinct_delete)

lemma map_of_Put: "map_of (hd_store (StorePut k v d)) = (map_of (hd_store d))(k \<mapsto> v)"
  by (simp add: StorePut_def update_conv')

lemma map_of_Delete: "map_of (hd_store (StoreDelete k d)) = (map_of (hd_store d))(k := None)"
  by (simp add: StoreDelete_def delete_conv')

lemma StoreGet_found: "StoreGet d k = (v, True) \<longleftrightarrow> map_of (hd_store d) k = Some v"
  by (auto simp: StoreGet_def split: option.splits)

lemma StoreGet_missing: "StoreGet d k = (v, False) \<longleftrightarrow> map_of (hd_store d) k = None \<and> v = []"
  by (auto simp: StoreGet_def split: option.splits)

lemma set_StoreKeys: "set (StoreKeys seed d p) = {k \<in> dom (map_of (hd_store d)). prefix p k}"
  by (auto simp: StoreKeys_def take_eq_prefix dom_map_of_conv_image_fst)

lemma distinct_StoreKeys: "store_ok d \<Longrightarrow> distinct (StoreKeys seed d p)"
  by (simp add: StoreKeys_def store_ok_def)

section \<open>Policy\<close>

definition SetPolicy :: "bytes \<Rightarrow> HostData \<Rightarrow> HostData" where
  "SetPolicy data d =
     d\<lparr>hd_policyRevision := hd_policyRevision d + 1, hd_policyData := data,
       hd_policyWatchers := map (offer 1 ()) (hd_policyWatchers d)\<rparr>"

definition Policy :: "HostData \<Rightarrow> u64 \<times> bytes" where
  "Policy d = (hd_policyRevision d, hd_policyData d)"

definition addPolicyWatcher :: "HostData \<Rightarrow> HostData \<times> nat" where
  "addPolicyWatcher d =
     (d\<lparr>hd_policyWatchers := hd_policyWatchers d @ [[]]\<rparr>, length (hd_policyWatchers d))"

section \<open>Events\<close>

fun topicMatches :: "string list \<Rightarrow> string \<Rightarrow> bool" where
  "topicMatches [] topic = False"
| "topicMatches (p # ps) topic =
     (if p = topic then True
      else let n = length p in
        if n > 1 \<and> p ! (n - 1) = CHR ''*'' \<and> length topic \<ge> n - 1 \<and>
           take (n - 1) topic = take (n - 1) p
        then True
        else topicMatches ps topic)"

definition deliver :: "PublishedEvent \<Rightarrow> subscriber \<Rightarrow> subscriber" where
  "deliver ev s =
     (if topicMatches (sub_topics s) (ev_Topic ev) then s\<lparr>sub_ch := offer 64 ev (sub_ch s)\<rparr> else s)"

definition Publish :: "int \<Rightarrow> string \<Rightarrow> bytes \<Rightarrow> HostData \<Rightarrow> HostData" where
  "Publish now topic data d =
     (let ev = \<lparr>ev_Topic = topic, ev_Data = data, ev_At = now\<rparr> in
      d\<lparr>hd_events := hd_events d @ [ev], hd_subscribers := map (deliver ev) (hd_subscribers d)\<rparr>)"

definition Events :: "HostData \<Rightarrow> PublishedEvent list" where
  "Events d = hd_events d"

definition subscribe :: "string list \<Rightarrow> HostData \<Rightarrow> HostData \<times> nat" where
  "subscribe ts d =
     (d\<lparr>hd_subscribers := hd_subscribers d @ [\<lparr>sub_topics = ts, sub_ch = []\<rparr>]\<rparr>,
      length (hd_subscribers d))"

section \<open>Transport sends\<close>

definition RecordSend :: "SentMessage \<Rightarrow> HostData \<Rightarrow> HostData" where
  "RecordSend m d = d\<lparr>hd_sends := hd_sends d @ [m]\<rparr>"

definition Sends :: "HostData \<Rightarrow> SentMessage list" where
  "Sends d = hd_sends d"

section \<open>Matching and delivery\<close>

text \<open>A glob is a non-empty prefix followed by one star.\<close>

definition glob_matches :: "string \<Rightarrow> string \<Rightarrow> bool" where
  "glob_matches p topic = (p = topic \<or> (\<exists>q. q \<noteq> [] \<and> p = q @ ''*'' \<and> prefix q topic))"

lemma glob_matches_code:
  "glob_matches p topic \<longleftrightarrow>
     p = topic \<or>
     (length p > 1 \<and> p ! (length p - 1) = CHR ''*'' \<and> length topic \<ge> length p - 1 \<and>
      take (length p - 1) topic = take (length p - 1) p)"
proof (cases p rule: rev_cases)
  case Nil
  then show ?thesis by (simp add: glob_matches_def)
next
  case (snoc q c)
  then show ?thesis
    using take_eq_prefix [of q topic] by (auto simp: glob_matches_def nth_append)
qed

lemma topicMatches_glob: "topicMatches ps topic \<longleftrightarrow> (\<exists>p \<in> set ps. glob_matches p topic)"
proof (induction ps)
  case (Cons p ps)
  then show ?case
    by (simp add: Let_def glob_matches_code) blast
qed simp

fun publish_all :: "(int \<times> string \<times> bytes) list \<Rightarrow> HostData \<Rightarrow> HostData" where
  "publish_all [] d = d"
| "publish_all ((now, topic, data) # es) d = publish_all es (Publish now topic data d)"

definition event_of :: "int \<times> string \<times> bytes \<Rightarrow> PublishedEvent" where
  "event_of = (\<lambda>(now, topic, data). \<lparr>ev_Topic = topic, ev_Data = data, ev_At = now\<rparr>)"

lemma event_of_simp [simp]:
  "event_of (now, topic, data) = \<lparr>ev_Topic = topic, ev_Data = data, ev_At = now\<rparr>"
  by (simp add: event_of_def)

lemma publish_all_events: "hd_events (publish_all es d) = hd_events d @ map event_of es"
  by (induction es d rule: publish_all.induct) (auto simp: Publish_def Let_def)

lemma deliver_topics [simp]: "sub_topics (deliver ev s) = sub_topics s"
  by (simp add: deliver_def)

lemma publish_all_subscribers:
  "hd_subscribers (publish_all es d) = map (fold deliver (map event_of es)) (hd_subscribers d)"
  by (induction es d rule: publish_all.induct) (auto simp: Publish_def Let_def)

lemma fold_deliver:
  "length (sub_ch s) \<le> 64 \<Longrightarrow>
   fold deliver evs s =
     s\<lparr>sub_ch := sub_ch s @
        take (64 - length (sub_ch s)) (filter (\<lambda>e. topicMatches (sub_topics s) (ev_Topic e)) evs)\<rparr>"
proof (induction evs arbitrary: s)
  case (Cons e evs)
  have "length (sub_ch (deliver e s)) \<le> 64"
    using Cons.prems by (simp add: deliver_def length_offer)
  from Cons.IH [OF this] Cons.prems show ?case
    by (auto simp: deliver_def offer_def take_Cons' Suc_diff_le)
qed simp

section \<open>Properties\<close>

text \<open>
  \<open>topicMatches\<close> is exact equality or a glob: some pattern is the topic itself, or is a
  non-empty prefix of it followed by one star.  A lone star is no glob.
\<close>
lemma topicMatches_spec:
  "topicMatches ps topic \<longleftrightarrow>
     (\<exists>p \<in> set ps. p = topic \<or> (\<exists>q. q \<noteq> [] \<and> p = q @ ''*'' \<and> prefix q topic))"
  unfolding topicMatches_glob glob_matches_def by (rule refl)

text \<open>
  C36: a subscriber that does not drain its channel gets exactly the first 64 matching events
  after it subscribed, in the order published; later ones are dropped for it, while the
  event log keeps every publish.
\<close>
theorem subscriber_gets_first_64:
  "hd_subscribers (publish_all es (fst (subscribe ts d))) ! snd (subscribe ts d) =
     \<lparr>sub_topics = ts,
      sub_ch = take 64 (filter (\<lambda>e. topicMatches ts (ev_Topic e)) (map event_of es))\<rparr> \<and>
   Events (publish_all es (fst (subscribe ts d))) = Events d @ map event_of es"
  by (simp add: subscribe_def publish_all_subscribers publish_all_events Events_def nth_append fold_deliver)

end
