(* ===== verification/Handshake.thy ===== *)
theory Handshake
  imports GoStrings
begin

text \<open>
  Package \<open>handshake\<close> (\<open>handshake/handshake.go\<close>): the environment core sets, the one-line
  answer of the module (\<open>Format\<close>, \<open>Parse\<close>) and core's protocol window (\<open>ParseWindow\<close>,
  \<open>Contains\<close>).  The network names are those of package \<open>ipc\<close> (\<open>ipc/ipc.go\<close>).
\<close>

section \<open>Vocabulary\<close>

definition NetworkUnix :: string where "NetworkUnix = ''unix''"
definition NetworkPipe :: string where "NetworkPipe = ''npipe''"
definition legacyNetworkPipe :: string where "legacyNetworkPipe = ''winpipe''"

definition EnvProtocolMin :: string where "EnvProtocolMin = ''WEAVE_PROTOCOL_MIN''"
definition EnvProtocolMax :: string where "EnvProtocolMax = ''WEAVE_PROTOCOL_MAX''"
definition EnvToken :: string where "EnvToken = ''WEAVE_HANDSHAKE_TOKEN''"
definition EnvHostAddr :: string where "EnvHostAddr = ''WEAVE_HOST_ADDR''"
definition EnvSocketDir :: string where "EnvSocketDir = ''WEAVE_SOCKET_DIR''"

definition LineVersion :: nat where "LineVersion = 1"
definition ExitProtocolUnsupported :: nat where "ExitProtocolUnsupported = 78"
definition TokenMetadataKey :: string where "TokenMetadataKey = ''weave-handshake-token''"

lemmas network_defs = NetworkUnix_def NetworkPipe_def legacyNetworkPipe_def

lemmas env_name_defs = EnvProtocolMin_def EnvProtocolMax_def EnvToken_def EnvHostAddr_def
  EnvSocketDir_def

section \<open>The handshake line\<close>

record Line =
  Protocol :: u32
  Network :: string
  Addr :: string

text \<open>One constructor per error return of \<open>Parse\<close> and \<open>ParseWindow\<close>, with what it quotes.\<close>

datatype handshake_error =
    MalformedLine string
  | UnsupportedLineVersion string
  | BadProtocol string
  | UnknownNetwork string
  | EmptyAddress
  | BadBound string string
  | InvalidWindow nat nat

definition Format :: "Line \<Rightarrow> string" where
  "Format l =
     ''WEAVE'' @ CHR ''|'' # dec_of_nat LineVersion @ CHR ''|'' # dec_of_nat (unat (Protocol l))
       @ CHR ''|'' # Network l @ CHR ''|'' # Addr l"

definition parse_fields ::
  "string \<Rightarrow> string \<Rightarrow> string \<Rightarrow> string \<Rightarrow> handshake_error + Line" where
  "parse_fields f1 f2 f3 f4 =
     (if parse_uint 32 f1 \<noteq> Inr LineVersion then Inl (UnsupportedLineVersion f1)
      else case parse_uint 32 f2 of
             Inl _ \<Rightarrow> Inl (BadProtocol f2)
           | Inr p \<Rightarrow>
               if p = 0 then Inl (BadProtocol f2)
               else let network = (if f3 = legacyNetworkPipe then NetworkPipe else f3) in
                 if network \<noteq> NetworkUnix \<and> network \<noteq> NetworkPipe then Inl (UnknownNetwork f3)
                 else if f4 = [] then Inl EmptyAddress
                 else Inr \<lparr>Protocol = word_of_nat p, Network = network, Addr = f4\<rparr>)"

definition Parse :: "string \<Rightarrow> handshake_error + Line" where
  "Parse s =
     (let parts = split_on (CHR ''|'') (trim_space s) in
      case parts of
        [f0, f1, f2, f3, f4] \<Rightarrow>
          if f0 \<noteq> ''WEAVE'' then Inl (MalformedLine s) else parse_fields f1 f2 f3 f4
      | _ \<Rightarrow> Inl (MalformedLine s))"

text \<open>
  The lines that survive the trip: a protocol other than 0, one of the two networks, and an
  address that is not empty, has no separator and does not end in a space rune.
\<close>

definition wf_line :: "Line \<Rightarrow> bool" where
  "wf_line l \<longleftrightarrow>
     Protocol l \<noteq> 0 \<and> (Network l = NetworkUnix \<or> Network l = NetworkPipe) \<and>
     Addr l \<noteq> [] \<and> CHR ''|'' \<notin> set (Addr l) \<and> \<not> ends_in_space (Addr l)"

lemma unat_word_of_nat_u32: "n < 2 ^ 32 \<Longrightarrow> unat (word_of_nat n :: u32) = n"
  by (simp add: unat_of_nat take_bit_eq_mod)

lemma network_no_bar [simp]:
  "CHR ''|'' \<notin> set NetworkUnix" "CHR ''|'' \<notin> set NetworkPipe"
  by (simp_all add: network_defs)

lemma parse_uint_LineVersion [simp]: "parse_uint 32 (dec_of_nat LineVersion) = Inr LineVersion"
  by (simp add: parse_uint_dec LineVersion_def)

lemma parse_uint_Protocol [simp]: "parse_uint 32 (dec_of_nat (unat (p :: u32))) = Inr (unat p)"
  using unsigned_less [of p] by (intro parse_uint_dec) simp

lemma parse_fields_Format:
  "wf_line l \<Longrightarrow>
   parse_fields (dec_of_nat LineVersion) (dec_of_nat (unat (Protocol l))) (Network l) (Addr l)
     = Inr l"
  by (auto simp: parse_fields_def wf_line_def network_defs unat_eq_zero Let_def)

lemma Format_join:
  "Format l = join_on (CHR ''|'')
     [''WEAVE'', dec_of_nat LineVersion, dec_of_nat (unat (Protocol l)), Network l, Addr l]"
  by (simp add: Format_def)

lemma Format_not_space: "cut_any space_runes (Format l) = None"
  by (simp add: Format_def cut_any_None space_runes_def)

lemma Format_ends_in_space: "ends_in_space (Format l) \<longleftrightarrow> ends_in_space (Addr l)"
proof -
  let ?hd = "''WEAVE'' @ CHR ''|'' # dec_of_nat LineVersion @ CHR ''|'' #
    dec_of_nat (unat (Protocol l)) @ CHR ''|'' # Network l"
  have "Format l = ?hd @ CHR ''|'' # Addr l" by (simp add: Format_def)
  then show ?thesis by (simp only: ends_in_space_append_bar)
qed

lemma split_Format:
  assumes "CHR ''|'' \<notin> set (Network l)" and "CHR ''|'' \<notin> set (Addr l)"
  shows "split_on (CHR ''|'') (Format l) =
    [''WEAVE'', dec_of_nat LineVersion, dec_of_nat (unat (Protocol l)), Network l, Addr l]"
  unfolding Format_join by (rule split_join) (use assms in auto)

lemma Parse_Format_wf: "wf_line l \<Longrightarrow> Parse (Format l) = Inr l"
proof -
  assume l: "wf_line l"
  then have "trim_space (Format l) = Format l"
    by (intro trim_space_id Format_not_space) (simp add: Format_ends_in_space wf_line_def)
  moreover from l have "split_on (CHR ''|'') (Format l) =
      [''WEAVE'', dec_of_nat LineVersion, dec_of_nat (unat (Protocol l)), Network l, Addr l]"
    by (intro split_Format) (auto simp: wf_line_def)
  ultimately show ?thesis
    by (simp add: Parse_def parse_fields_Format [OF l])
qed

lemma parse_fields_InrD:
  assumes "parse_fields f1 f2 f3 f4 = Inr l"
  shows "parse_uint 32 f1 = Inr 1" "parse_uint 32 f2 = Inr (unat (Protocol l))" "Protocol l \<noteq> 0"
    "f3 = ''unix'' \<and> Network l = ''unix'' \<or>
     (f3 = ''npipe'' \<or> f3 = ''winpipe'') \<and> Network l = ''npipe''"
    "Addr l = f4" "f4 \<noteq> []"
proof -
  define net where "net = (if f3 = legacyNetworkPipe then NetworkPipe else f3)"
  from assms obtain p where v: "parse_uint 32 f1 = Inr LineVersion" and p: "parse_uint 32 f2 = Inr p"
    and "p \<noteq> 0" and net: "net = NetworkUnix \<or> net = NetworkPipe" and "f4 \<noteq> []"
    and l: "l = \<lparr>Protocol = word_of_nat p, Network = net, Addr = f4\<rparr>"
    unfolding parse_fields_def Let_def net_def [symmetric]
    by (cases "parse_uint 32 f2") (auto split: if_split_asm)
  from p have u: "unat (word_of_nat p :: u32) = p"
    by (intro unat_word_of_nat_u32 parse_uint_bound)
  show "parse_uint 32 f1 = Inr 1" using v by (simp add: LineVersion_def)
  show "parse_uint 32 f2 = Inr (unat (Protocol l))" using p u by (simp add: l)
  show "Protocol l \<noteq> 0" using u \<open>p \<noteq> 0\<close> by (auto simp: l simp flip: unat_eq_zero)
  show "f3 = ''unix'' \<and> Network l = ''unix'' \<or>
     (f3 = ''npipe'' \<or> f3 = ''winpipe'') \<and> Network l = ''npipe''"
    using net by (auto simp: l net_def network_defs split: if_split_asm)
  show "Addr l = f4" "f4 \<noteq> []" using \<open>f4 \<noteq> []\<close> by (simp_all add: l)
qed

lemma parse_fields_wf:
  "\<lbrakk>parse_fields f1 f2 f3 f4 = Inr l; CHR ''|'' \<notin> set f4; \<not> ends_in_space f4\<rbrakk> \<Longrightarrow> wf_line l"
  using parse_fields_InrD [of f1 f2 f3 f4 l] by (auto simp: wf_line_def network_defs)

lemma Parse_InrD:
  assumes "Parse s = Inr l"
  obtains f1 f2 f3 f4 where
    "split_on (CHR ''|'') (trim_space s) = [''WEAVE'', f1, f2, f3, f4]"
    "parse_fields f1 f2 f3 f4 = Inr l"
  using assms by (auto simp: Parse_def Let_def split: list.splits if_splits)

lemma Parse_wf: "Parse s = Inr l \<Longrightarrow> wf_line l"
proof -
  assume "Parse s = Inr l"
  then obtain f1 f2 f3 f4 where
    parts: "split_on (CHR ''|'') (trim_space s) = [''WEAVE'', f1, f2, f3, f4]" and
    ok: "parse_fields f1 f2 f3 f4 = Inr l" by (rule Parse_InrD)
  have "f4 \<in> set (split_on (CHR ''|'') (trim_space s))" using parts by simp
  then have bar: "CHR ''|'' \<notin> set f4" by (rule split_on_no_sep)
  have "trim_space s = join_on (CHR ''|'') [''WEAVE'', f1, f2, f3, f4]"
    by (metis join_split parts)
  then have "trim_space s = (''WEAVE'' @ CHR ''|'' # f1 @ CHR ''|'' # f2 @ CHR ''|'' # f3) @ CHR ''|'' # f4"
    by simp
  then have "\<not> ends_in_space f4"
    using trim_space_not_ends_in_space ends_in_space_append_bar by metis
  with ok bar show ?thesis by (rule parse_fields_wf)
qed

section \<open>The protocol window\<close>

record Window =
  Min :: u32
  Max :: u32

definition Contains :: "Window \<Rightarrow> u32 \<Rightarrow> bool" where
  "Contains w p = (p \<ge> Min w \<and> p \<le> Max w)"

definition ParseWindow :: "string \<Rightarrow> string \<Rightarrow> handshake_error + Window" where
  "ParseWindow mn mx =
     (case parse_uint 32 mn of
        Inl _ \<Rightarrow> Inl (BadBound EnvProtocolMin mn)
      | Inr lo \<Rightarrow>
          (case parse_uint 32 mx of
             Inl _ \<Rightarrow> Inl (BadBound EnvProtocolMax mx)
           | Inr hi \<Rightarrow>
               if lo = 0 \<or> hi < lo then Inl (InvalidWindow lo hi)
               else Inr \<lparr>Min = word_of_nat lo, Max = word_of_nat hi\<rparr>))"

definition wf_window :: "Window \<Rightarrow> bool" where
  "wf_window w \<longleftrightarrow> Min w \<noteq> 0 \<and> Min w \<le> Max w"

lemma ParseWindow_wf: "ParseWindow mn mx = Inr w \<Longrightarrow> wf_window w"
proof -
  assume "ParseWindow mn mx = Inr w"
  then obtain lo hi where "parse_uint 32 mn = Inr lo" "parse_uint 32 mx = Inr hi"
    and b: "lo \<noteq> 0" "lo \<le> hi" and w: "w = \<lparr>Min = word_of_nat lo, Max = word_of_nat hi\<rparr>"
    by (auto simp: ParseWindow_def split: sum.splits if_splits)
  then have "lo < 2 ^ 32" "hi < 2 ^ 32" by (auto dest: parse_uint_bound)
  with b show ?thesis
    by (auto simp: w wf_window_def word_le_nat_alt unat_word_of_nat_u32 simp flip: unat_eq_zero)
qed

lemma ParseWindow_dec:
  "ParseWindow (dec_of_nat (unat lo)) (dec_of_nat (unat hi)) =
     (if lo = 0 \<or> hi < lo then Inl (InvalidWindow (unat lo) (unat hi))
      else Inr \<lparr>Min = lo, Max = hi\<rparr>)"
  by (auto simp: ParseWindow_def unat_eq_zero word_less_nat_alt)

section \<open>Properties\<close>

text \<open>
  C25: a line survives \<open>Parse (l.Format())\<close> unchanged exactly when its protocol is not 0, its
  network is one of the two known ones, and its address is non-empty, free of the separator
  \<open>|\<close> and does not end in a space.
\<close>
theorem Parse_Format_iff: "Parse (Format l) = Inr l \<longleftrightarrow> wf_line l"
  using Parse_wf Parse_Format_wf by blast

text \<open>
  C24: exactly which strings \<open>Parse\<close> accepts and what it returns: five \<open>|\<close>-separated fields
  after trimming, the tag, line version 1 and a non-zero 32-bit protocol in decimal, a known
  network (the legacy \<open>winpipe\<close> read as \<open>npipe\<close>) and a non-empty address taken verbatim.
\<close>
theorem Parse_accepts_iff:
  "Parse s = Inr l \<longleftrightarrow>
     (\<exists>v p n. split_on (CHR ''|'') (trim_space s) = [''WEAVE'', v, p, n, Addr l] \<and>
        parse_uint 32 v = Inr 1 \<and>
        parse_uint 32 p = Inr (unat (Protocol l)) \<and> Protocol l \<noteq> 0 \<and>
        (n = ''unix'' \<and> Network l = ''unix'' \<or>
         (n = ''npipe'' \<or> n = ''winpipe'') \<and> Network l = ''npipe'') \<and>
        Addr l \<noteq> [])"
  (is "_ \<longleftrightarrow> ?R")
proof
  assume "Parse s = Inr l"
  then obtain f1 f2 f3 f4 where
    parts: "split_on (CHR ''|'') (trim_space s) = [''WEAVE'', f1, f2, f3, f4]" and
    ok: "parse_fields f1 f2 f3 f4 = Inr l" by (rule Parse_InrD)
  from ok have "Addr l = f4" "Addr l \<noteq> []" "parse_uint 32 f1 = Inr 1"
    "parse_uint 32 f2 = Inr (unat (Protocol l))" "Protocol l \<noteq> 0"
    "f3 = ''unix'' \<and> Network l = ''unix'' \<or>
     (f3 = ''npipe'' \<or> f3 = ''winpipe'') \<and> Network l = ''npipe''"
    by (simp_all add: parse_fields_InrD)
  with parts show ?R by blast
next
  assume ?R
  then obtain v p n where
    parts: "split_on (CHR ''|'') (trim_space s) = [''WEAVE'', v, p, n, Addr l]" and
    flds: "parse_uint 32 v = Inr 1" "parse_uint 32 p = Inr (unat (Protocol l))" "Protocol l \<noteq> 0"
      "n = ''unix'' \<and> Network l = ''unix'' \<or> (n = ''npipe'' \<or> n = ''winpipe'') \<and> Network l = ''npipe''"
      "Addr l \<noteq> []"
    by blast
  from flds(4) have "(if n = legacyNetworkPipe then NetworkPipe else n) = Network l"
    "Network l = NetworkUnix \<or> Network l = NetworkPipe"
    by (auto simp: network_defs)
  with flds have "parse_fields v p n (Addr l) = Inr l"
    by (simp add: parse_fields_def LineVersion_def unat_eq_zero del: if_split) auto
  with parts show "Parse s = Inr l" by (simp add: Parse_def)
qed

text \<open>
  What the fuzz test asserts: every line \<open>Parse\<close> accepts, rendered again by \<open>Format\<close>, is
  accepted again with the same fields (spaces trimmed and the legacy network name normalised
  on the first trip stay so on the second).
\<close>
lemma Parse_stable: "Parse s = Inr l \<Longrightarrow> Parse (Format l) = Inr l"
  by (intro Parse_Format_wf Parse_wf)

text \<open>
  The window core advertises is read back by the module exactly when it is sane: for any
  two 32-bit bounds rendered in decimal, \<open>ParseWindow\<close> returns that window when the lower
  bound is positive and not above the upper one, and the invalid-window error otherwise.
\<close>
lemma ParseWindow_roundtrip:
  "ParseWindow (dec_of_nat (unat lo)) (dec_of_nat (unat hi)) =
     (if wf_window \<lparr>Min = lo, Max = hi\<rparr> then Inr \<lparr>Min = lo, Max = hi\<rparr>
      else Inl (InvalidWindow (unat lo) (unat hi)))"
  by (auto simp: ParseWindow_dec wf_window_def not_le)

text \<open>
  No window \<open>ParseWindow\<close> accepts, from any two strings, is empty or contains protocol 0.
\<close>
lemma ParseWindow_sound:
  "ParseWindow mn mx = Inr w \<Longrightarrow> Contains w (Min w) \<and> Contains w (Max w) \<and> \<not> Contains w 0"
  using ParseWindow_wf [of mn mx w] by (auto simp: wf_window_def Contains_def)


lemmas parse_eval = Parse_def parse_fields_def network_defs LineVersion_def parse_uint_def
  digit_val_def trim_space_def trim_left_space_def trim_right_space_def trim_front.simps
  space_runes_def

lemma Parse_stable_witness:
  "Parse (Format \<lparr>Protocol = 3, Network = ''npipe'', Addr = ''p''\<rparr>) =
     Inr \<lparr>Protocol = 3, Network = ''npipe'', Addr = ''p''\<rparr>"
proof (rule Parse_stable)
  show "Parse ''WEAVE|1|03|winpipe|p '' = Inr \<lparr>Protocol = 3, Network = ''npipe'', Addr = ''p''\<rparr>"
    by (simp add: parse_eval)
qed

lemma ParseWindow_sound_witness:
  "Contains \<lparr>Min = 2, Max = 3\<rparr> 2 \<and> Contains \<lparr>Min = 2, Max = 3\<rparr> 3 \<and> \<not> Contains \<lparr>Min = 2, Max = 3\<rparr> 0"
proof -
  have "ParseWindow ''2'' ''03'' = Inr \<lparr>Min = 2, Max = 3\<rparr>"
    by (simp add: ParseWindow_def parse_uint_def digit_val_def)
  from ParseWindow_sound [OF this] show ?thesis by simp
qed

end
