(* ===== verification/HostServer.thy ===== *)
theory HostServer
  imports Wire HostData Handshake
begin

text \<open>
  The stub host services (\<open>modulesdk/testkit/hostserver.go\<close>): one handler per RPC over
  \<open>HostData\<close>, behind the token interceptor.  The gRPC library's metadata lookup
  \<open>md.Get(key)\<close> on the incoming context is the argument \<open>md_get\<close>; \<open>now\<close> is the clock and
  \<open>seed\<close> the order in which the runtime ranges over the store's map.
\<close>

section \<open>The token interceptors\<close>

definition check_token :: "('c \<Rightarrow> string \<Rightarrow> string list) \<Rightarrow> string \<Rightarrow> 'c \<Rightarrow> go_error option" where
  "check_token md_get token ctx =
     (let vals = md_get ctx TokenMetadataKey in
      if length vals \<noteq> 1 \<or> vals ! 0 \<noteq> token
      then Some (StatusError Unauthenticated ''missing or wrong handshake token'')
      else None)"

definition unary_guard ::
  "('c \<Rightarrow> string \<Rightarrow> string list) \<Rightarrow> string \<Rightarrow> 'c \<Rightarrow> ('s, 'a) served \<Rightarrow> ('s, 'a) served" where
  "unary_guard md_get token ctx h s =
     (case check_token md_get token ctx of Some e \<Rightarrow> (Inl e, s) | None \<Rightarrow> h s)"

text \<open>
  The stream interceptor's refusal ends the stream with the error.  The client's call that opened
  it has returned by then, as gRPC documents it for server streams; its first receive fails.
\<close>

definition stream_guard ::
  "('c \<Rightarrow> string \<Rightarrow> string list) \<Rightarrow> string \<Rightarrow> 'c \<Rightarrow> ('s, 'w pump_in list) served \<Rightarrow> ('s, 'w pump_in list) served" where
  "stream_guard md_get token ctx h s =
     (case check_token md_get token ctx of Some e \<Rightarrow> (Inr [RecvFailed], s) | None \<Rightarrow> h s)"

section \<open>Handlers\<close>

definition identity_WhoAmI :: "(HostData, string \<times> bool \<times> string) served" where
  "identity_WhoAmI d =
     (Inr (di_DeviceID (hd_Device d), di_Ephemeral (hd_Device d), di_Tenant (hd_Device d)), d)"

definition identity_Credential ::
  "string \<Rightarrow> string list \<Rightarrow> (HostData, string \<times> int \<times> string list) served" where
  "identity_Credential moduleID scopes d =
     (Inr (''test-credential-'' @ moduleID, 4102444800, scopes), d)"

definition transport_Send ::
  "32 word \<times> string \<times> bytes \<Rightarrow> bool \<Rightarrow> (HostData, bool) served" where
  "transport_Send m queueOffline d =
     (case m of (peer, kind, data) \<Rightarrow>
        (Inr True,
         RecordSend \<lparr>sm_Peer = peer, sm_Kind = kind, sm_Data = data, sm_QueueOffline = queueOffline\<rparr> d))"

text \<open>\<open>Receive\<close> sends nothing; it returns once the stream's context is done.\<close>

definition transport_Receive :: "bool \<Rightarrow> (HostData, (32 word \<times> string \<times> bytes) pump_in list) served" where
  "transport_Receive ctx_done d = (Inr (if ctx_done then [RecvFailed] else []), d)"

definition policy_Get :: "(HostData, u64 \<times> bytes \<times> u32 \<times> string) served" where
  "policy_Get d = (case Policy d of (revision, data) \<Rightarrow> (Inr (revision, data, 0, []), d))"

text \<open>
  \<open>Watch\<close> and \<open>Subscribe\<close> register a channel with the data, then loop for as long as their stream
  lives.  The loops are in theories \<open>PolicyWatch\<close> and \<open>EventWatch\<close>; here \<open>life\<close> is what comes of
  them, the documents and events sent and taken up to the stream's end.
\<close>

definition policy_msg :: "u64 \<times> bytes \<Rightarrow> u64 \<times> bytes \<times> u32 \<times> string" where
  "policy_msg = (\<lambda>(revision, data). (revision, data, 0, []))"

definition policy_Watch ::
  "(u64 \<times> bytes) pump_in list \<Rightarrow> (HostData, (u64 \<times> bytes \<times> u32 \<times> string) pump_in list) served" where
  "policy_Watch life d = (case addPolicyWatcher d of (d', notify) \<Rightarrow> (Inr (map (map_pump_in policy_msg) life), d'))"

definition store_Get :: "string \<Rightarrow> (HostData, bytes \<times> bool) served" where
  "store_Get key d = (Inr (StoreGet d key), d)"

definition store_Put :: "string \<Rightarrow> bytes \<Rightarrow> (HostData, unit) served" where
  "store_Put key v d = (Inr (), StorePut key v d)"

definition store_Delete :: "string \<Rightarrow> (HostData, unit) served" where
  "store_Delete key d = (Inr (), StoreDelete key d)"

definition store_List :: "nat \<Rightarrow> string \<Rightarrow> (HostData, string list) served" where
  "store_List seed pre d = (Inr (StoreKeys seed d pre), d)"

definition events_Publish :: "string \<Rightarrow> int \<Rightarrow> string \<Rightarrow> bytes \<Rightarrow> (HostData, unit) served" where
  "events_Publish moduleID now topic data d =
     (Inr (), Publish now (moduleID @ ''.'' @ topic) data d)"

text \<open>
  What the stub puts on an event stream: topic, data, the time in milliseconds (\<open>ev_At\<close> is in
  nanoseconds), and the \<open>Sequence\<close> it leaves unset.
\<close>

definition stub_event :: "PublishedEvent \<Rightarrow> string \<times> bytes \<times> int \<times> u64" where
  "stub_event ev = (ev_Topic ev, ev_Data ev, ev_At ev div 1000000, 0)"

definition events_Subscribe ::
  "string list \<Rightarrow> PublishedEvent pump_in list \<Rightarrow> (HostData, (string \<times> bytes \<times> int \<times> u64) pump_in list) served" where
  "events_Subscribe topics life d =
     (case subscribe topics d of (d', sub) \<Rightarrow> (Inr (map (map_pump_in stub_event) life), d'))"

text \<open>The lives of the streams that will be opened, whatever they are: when \<open>Receive\<close>'s context is
  done, and the messages of the other two.\<close>

record 'c stream_lives =
  sl_Receive :: "'c \<Rightarrow> HostData \<Rightarrow> bool"
  sl_Watch :: "'c \<Rightarrow> HostData \<Rightarrow> (u64 \<times> bytes) pump_in list"
  sl_Subscribe :: "'c \<Rightarrow> string list \<Rightarrow> HostData \<Rightarrow> PublishedEvent pump_in list"

definition registerHostServices ::
  "('c \<Rightarrow> string \<Rightarrow> string list) \<Rightarrow> string \<Rightarrow> string \<Rightarrow> nat \<Rightarrow> int \<Rightarrow> 'c stream_lives \<Rightarrow>
   ('c, HostData) rpc_clients" where
  "registerHostServices md_get token moduleID seed now lives =
     \<lparr>rpc_WhoAmI = (\<lambda>ctx. unary_guard md_get token ctx identity_WhoAmI),
      rpc_Credential = (\<lambda>ctx sc. unary_guard md_get token ctx (identity_Credential moduleID sc)),
      rpc_Send = (\<lambda>ctx m q. unary_guard md_get token ctx (transport_Send m q)),
      rpc_PolicyGet = (\<lambda>ctx. unary_guard md_get token ctx policy_Get),
      rpc_StoreGet = (\<lambda>ctx k. unary_guard md_get token ctx (store_Get k)),
      rpc_StorePut = (\<lambda>ctx k v. unary_guard md_get token ctx (store_Put k v)),
      rpc_StoreDelete = (\<lambda>ctx k. unary_guard md_get token ctx (store_Delete k)),
      rpc_StoreList = (\<lambda>ctx p. unary_guard md_get token ctx (store_List seed p)),
      rpc_Publish = (\<lambda>ctx t v. unary_guard md_get token ctx (events_Publish moduleID now t v)),
      rpc_Receive = (\<lambda>ctx d. stream_guard md_get token ctx (transport_Receive (sl_Receive lives ctx d)) d),
      rpc_Watch = (\<lambda>ctx d. stream_guard md_get token ctx (policy_Watch (sl_Watch lives ctx d)) d),
      rpc_Subscribe =
        (\<lambda>ctx ts d. stream_guard md_get token ctx (events_Subscribe ts (sl_Subscribe lives ctx ts d)) d)\<rparr>"

text \<open>Streams that stay open and carry nothing.\<close>

definition idle_lives :: "'c stream_lives" where
  "idle_lives = \<lparr>sl_Receive = (\<lambda>_ _. False), sl_Watch = (\<lambda>_ _. []), sl_Subscribe = (\<lambda>_ _ _. [])\<rparr>"

lemma check_token_None: "check_token md_get token ctx = None \<longleftrightarrow> md_get ctx TokenMetadataKey = [token]"
proof (cases "md_get ctx TokenMetadataKey")
  case (Cons v vs)
  then show ?thesis by (cases vs) (auto simp: check_token_def Let_def)
qed (simp add: check_token_def)

lemma unary_guard_pass:
  "md_get ctx TokenMetadataKey = [token] \<Longrightarrow> unary_guard md_get token ctx h s = h s"
  using check_token_None [of md_get token ctx] by (simp add: unary_guard_def)

lemma unary_guard_refuse:
  "md_get ctx TokenMetadataKey \<noteq> [token] \<Longrightarrow>
   unary_guard md_get token ctx h s =
     (Inl (StatusError Unauthenticated ''missing or wrong handshake token''), s)"
  using check_token_None [of md_get token ctx]
  by (auto simp: unary_guard_def check_token_def Let_def split: option.splits if_splits)

lemma stream_guard_pass:
  "md_get ctx TokenMetadataKey = [token] \<Longrightarrow> stream_guard md_get token ctx h s = h s"
  using check_token_None [of md_get token ctx] by (simp add: stream_guard_def)

lemma stream_guard_refuse:
  "md_get ctx TokenMetadataKey \<noteq> [token] \<Longrightarrow> stream_guard md_get token ctx h s = (Inr [RecvFailed], s)"
  using check_token_None [of md_get token ctx] by (auto simp: stream_guard_def split: option.splits)

section \<open>The store contract\<close>

text \<open>
  What a client of a key/value store relies on: a lookup after a write or a delete, and a
  listing that names exactly the present keys with the prefix, each once.
\<close>

locale kv_store =
  fixes get :: "'s \<Rightarrow> string \<Rightarrow> bytes \<times> bool"
    and put :: "string \<Rightarrow> bytes \<Rightarrow> 's \<Rightarrow> 's"
    and del :: "string \<Rightarrow> 's \<Rightarrow> 's"
    and keys :: "'s \<Rightarrow> string \<Rightarrow> string list"
    and ok :: "'s \<Rightarrow> bool"
  assumes ok_put: "ok s \<Longrightarrow> ok (put k v s)"
    and ok_del: "ok s \<Longrightarrow> ok (del k s)"
    and get_put: "get (put k v s) k' = (if k' = k then (v, True) else get s k')"
    and get_del: "get (del k s) k' = (if k' = k then ([], False) else get s k')"
    and set_keys: "set (keys s p) = {k. snd (get s k) \<and> prefix p k}"
    and distinct_keys: "ok s \<Longrightarrow> distinct (keys s p)"
begin

text \<open>A view of the store below a fixed key prefix is again such a store.\<close>

lemma view_get_put: "get (put (q @ k) v s) (q @ k') = (if k' = k then (v, True) else get s (q @ k'))"
  by (simp add: get_put)

lemma view_get_del: "get (del (q @ k) s) (q @ k') = (if k' = k then ([], False) else get s (q @ k'))"
  by (simp add: get_del)

lemma view_keys:
  "set (map (trim_prefix q) (keys s (q @ p))) = {k. snd (get s (q @ k)) \<and> prefix p k}"
proof -
  have "keys s (q @ p) = map (\<lambda>k. q @ trim_prefix q k) (keys s (q @ p))"
  proof (rule map_idI [symmetric])
    fix k assume "k \<in> set (keys s (q @ p))"
    then have "prefix (q @ p) k" by (simp add: set_keys)
    then show "q @ trim_prefix q k = k" by (auto simp: prefix_def)
  qed
  have "trim_prefix q ` {k. snd (get s k) \<and> prefix (q @ p) k} = {k. snd (get s (q @ k)) \<and> prefix p k}"
    by (force simp: prefix_def image_iff)
  then show ?thesis by (simp add: set_keys)
qed

lemma view_keys_distinct:
  assumes "ok s"
  shows "distinct (map (trim_prefix q) (keys s (q @ p)))"
proof -
  have "inj_on (trim_prefix q) (set (keys s (q @ p)))"
    by (auto simp: inj_on_def set_keys prefix_def)
  then show ?thesis using assms by (simp add: distinct_map distinct_keys)
qed

lemma disjoint_put: "q @ k \<noteq> q' @ k' \<Longrightarrow> get (put (q @ k) v s) (q' @ k') = get s (q' @ k')"
  by (simp add: get_put)

lemma disjoint_del: "q @ k \<noteq> q' @ k' \<Longrightarrow> get (del (q @ k) s) (q' @ k') = get s (q' @ k')"
  by (simp add: get_del)

end

interpretation hd: kv_store StoreGet StorePut StoreDelete "StoreKeys seed" store_ok for seed
proof unfold_locales
  fix s :: HostData and p
  show "set (StoreKeys seed s p) = {k. snd (StoreGet s k) \<and> prefix p k}"
    by (auto simp: set_StoreKeys StoreGet_def split: option.splits)
qed (auto simp: store_ok_Put store_ok_Delete distinct_StoreKeys StoreGet_def map_of_Put map_of_Delete)

end
