(* ===== verification/HostClient.thy ===== *)
theory HostClient
  imports HostServer
begin

text \<open>
  The module's side of the host services (\<open>modulesdk/hostclient.go\<close>): dialing, the token and
  error interceptors, the typed surfaces over the generated clients, and the runtime's own
  bookkeeping of declared surfaces and jobs.  The streaming calls, the job and watchdog loops
  and \<open>awaitDisconnect\<close> are in theory \<open>Streams\<close>.

  From the gRPC library come two arguments: \<open>hc_append\<close> is
  \<open>metadata.AppendToOutgoingContext\<close> and \<open>hc_from_error\<close> is \<open>status.FromError\<close>.  A
  cancellable context is a number; \<open>hc_cancelled\<close> lists those whose cancel function has run,
  and \<open>hc_jobWG\<close> the goroutines the wait group still counts, each with its context.
\<close>

section \<open>State\<close>

datatype goroutine = JobLoop Job | WatchdogLoop duration

record ('c, 's) hostClient =
  hc_token :: string
  hc_append :: "'c \<Rightarrow> string \<Rightarrow> string \<Rightarrow> 'c"
  hc_from_error :: "go_error \<Rightarrow> (grpc_code \<times> string) option"
  hc_rpc :: "('c, 's) rpc_clients"
  hc_closed :: bool
  hc_surfaces :: "Surface list"
  hc_jobs :: "Job list"
  hc_watchdogInterval :: duration
  hc_jobCancel :: "nat option"
  hc_jobCtx :: "nat option"
  hc_jobWG :: "(nat \<times> goroutine) list"
  hc_started :: bool
  hc_nextCtx :: nat
  hc_cancelled :: "nat list"

definition dialHost ::
  "go_error + ('c, 's) rpc_clients \<Rightarrow> ('c \<Rightarrow> string \<Rightarrow> string \<Rightarrow> 'c) \<Rightarrow>
   (go_error \<Rightarrow> (grpc_code \<times> string) option) \<Rightarrow> string \<Rightarrow> go_error + ('c, 's) hostClient" where
  "dialHost grpc_client md_append from_error token =
     (case grpc_client of
        Inl e \<Rightarrow> Inl (Wrap ''modulesdk: dialing host'' e)
      | Inr rpc \<Rightarrow> Inr
          \<lparr>hc_token = token, hc_append = md_append, hc_from_error = from_error, hc_rpc = rpc,
           hc_closed = False, hc_surfaces = [], hc_jobs = [], hc_watchdogInterval = 0,
           hc_jobCancel = None, hc_jobCtx = None, hc_jobWG = [], hc_started = False,
           hc_nextCtx = 0, hc_cancelled = []\<rparr>)"

definition Close :: "('c, 's) hostClient \<Rightarrow> ('c, 's) hostClient" where
  "Close h = h\<lparr>hc_closed := True\<rparr>"

section \<open>Interceptors\<close>

definition withToken :: "('c, 's) hostClient \<Rightarrow> 'c \<Rightarrow> 'c" where
  "withToken h ctx = hc_append h ctx TokenMetadataKey (hc_token h)"

definition intercept ::
  "('c, 's) hostClient \<Rightarrow> (go_error + 'a) \<times> 's \<Rightarrow> (go_error + 'a) \<times> 's" where
  "intercept h r =
     (case fst r of
        Inl e \<Rightarrow> (Inl (sentinel_of (hc_from_error h) e), snd r)
      | Inr a \<Rightarrow> (Inr a, snd r))"

definition map_reply :: "('a \<Rightarrow> 'b) \<Rightarrow> (go_error + 'a) \<times> 's \<Rightarrow> (go_error + 'b) \<times> 's" where
  "map_reply f r = (case fst r of Inl e \<Rightarrow> (Inl e, snd r) | Inr a \<Rightarrow> (Inr (f a), snd r))"

section \<open>Identity, transport and policy\<close>

definition WhoAmI :: "('c, 's) hostClient \<Rightarrow> 'c \<Rightarrow> ('s, DeviceIdentity) served" where
  "WhoAmI h ctx s =
     map_reply (\<lambda>(dev, eph, ten). \<lparr>dev_DeviceID = dev, dev_Ephemeral = eph, dev_Tenant = ten\<rparr>)
       (intercept h (rpc_WhoAmI (hc_rpc h) (withToken h ctx) s))"

definition MintCredential ::
  "('c, 's) hostClient \<Rightarrow> 'c \<Rightarrow> string list \<Rightarrow> ('s, Credential) served" where
  "MintCredential h ctx scopes s =
     map_reply (\<lambda>(tok, expires, sc). \<lparr>cred_Token = tok, cred_ExpiresAt = expires, cred_Scopes = sc\<rparr>)
       (intercept h (rpc_Credential (hc_rpc h) (withToken h ctx) scopes s))"

definition TransportSend ::
  "('c, 's) hostClient \<Rightarrow> 'c \<Rightarrow> Message \<Rightarrow> bool \<Rightarrow> ('s, bool) served" where
  "TransportSend h ctx msg queueOffline s =
     intercept h (rpc_Send (hc_rpc h) (withToken h ctx)
       (ucast (msg_Peer msg), msg_Kind msg, msg_Data msg) queueOffline s)"

definition policyDoc :: "u64 \<times> bytes \<times> u32 \<times> string \<Rightarrow> PolicyDocument" where
  "policyDoc = (\<lambda>(revision, data, schema, ctype).
     \<lparr>pol_Revision = revision, pol_Data = data, pol_SchemaVersion = schema, pol_ContentType = ctype\<rparr>)"

definition PolicyGet :: "('c, 's) hostClient \<Rightarrow> 'c \<Rightarrow> ('s, PolicyDocument) served" where
  "PolicyGet h ctx s =
     map_reply policyDoc (intercept h (rpc_PolicyGet (hc_rpc h) (withToken h ctx) s))"

section \<open>Store\<close>

text \<open>A \<open>Store\<close> handle is its key prefix.\<close>

definition StoreOf :: "string \<Rightarrow> string" where
  "StoreOf ns = (if ns \<noteq> [] then ns @ ''/'' else [])"

definition storeGet ::
  "('c, 's) hostClient \<Rightarrow> string \<Rightarrow> 'c \<Rightarrow> string \<Rightarrow> ('s, bytes \<times> bool) served" where
  "storeGet h pre ctx key s =
     intercept h (rpc_StoreGet (hc_rpc h) (withToken h ctx) (pre @ key) s)"

definition storePut ::
  "('c, 's) hostClient \<Rightarrow> string \<Rightarrow> 'c \<Rightarrow> string \<Rightarrow> bytes \<Rightarrow> ('s, unit) served" where
  "storePut h pre ctx key v s =
     intercept h (rpc_StorePut (hc_rpc h) (withToken h ctx) (pre @ key) v s)"

definition storeDelete ::
  "('c, 's) hostClient \<Rightarrow> string \<Rightarrow> 'c \<Rightarrow> string \<Rightarrow> ('s, unit) served" where
  "storeDelete h pre ctx key s =
     intercept h (rpc_StoreDelete (hc_rpc h) (withToken h ctx) (pre @ key) s)"

definition storeList ::
  "('c, 's) hostClient \<Rightarrow> string \<Rightarrow> 'c \<Rightarrow> string \<Rightarrow> ('s, string list) served" where
  "storeList h pre ctx p s =
     map_reply (\<lambda>keys. if pre \<noteq> [] then map (trim_prefix pre) keys else keys)
       (intercept h (rpc_StoreList (hc_rpc h) (withToken h ctx) (pre @ p) s))"

section \<open>Events\<close>

definition EventsPublish ::
  "('c, 's) hostClient \<Rightarrow> 'c \<Rightarrow> string \<Rightarrow> bytes \<Rightarrow> ('s, unit) served" where
  "EventsPublish h ctx topic data s =
     intercept h (rpc_Publish (hc_rpc h) (withToken h ctx) topic data s)"

section \<open>Surfaces\<close>

definition DeclareLate :: go_error where
  "DeclareLate =
     TextError ''modulesdk: declaring surfaces after Init is not supported at protocol 1''"

definition Declare ::
  "Surface list \<Rightarrow> ('c, 's) hostClient \<Rightarrow> go_error option \<times> ('c, 's) hostClient" where
  "Declare surfaces h =
     (if hc_started h then (Some DeclareLate, h)
      else (None, h\<lparr>hc_surfaces := hc_surfaces h @ surfaces\<rparr>))"

definition declaredSurfaces :: "('c, 's) hostClient \<Rightarrow> Surface list" where
  "declaredSurfaces h =
     map (\<lambda>s. \<lparr>srf_ID = srf_ID s, srf_Title = srf_Title s, srf_Kind = srf_Kind s, srf_Data = srf_Data s\<rparr>)
       (hc_surfaces h)"

lemma declaredSurfaces_eq [simp]: "declaredSurfaces h = hc_surfaces h"
  by (simp add: declaredSurfaces_def map_idI)

section \<open>Jobs\<close>

definition addJobs :: "Job list \<Rightarrow> ('c, 's) hostClient \<Rightarrow> ('c, 's) hostClient" where
  "addJobs js h = h\<lparr>hc_jobs := hc_jobs h @ js\<rparr>"

definition setWatchdogInterval :: "duration \<Rightarrow> ('c, 's) hostClient \<Rightarrow> ('c, 's) hostClient" where
  "setWatchdogInterval d h = h\<lparr>hc_watchdogInterval := d\<rparr>"

text \<open>\<open>h.jobCtx\<close> is set before any launch, so the context a job captures is that field's.\<close>

definition launchJobLocked :: "Job \<Rightarrow> ('c, 's) hostClient \<Rightarrow> ('c, 's) hostClient" where
  "launchJobLocked j h =
     (case hc_jobCtx h of
        None \<Rightarrow> h
      | Some ctx \<Rightarrow> h\<lparr>hc_jobWG := hc_jobWG h @ [(ctx, JobLoop j)]\<rparr>)"

definition launchWatchdogLocked ::
  "nat \<Rightarrow> duration \<Rightarrow> ('c, 's) hostClient \<Rightarrow> ('c, 's) hostClient" where
  "launchWatchdogLocked ctx interval h =
     h\<lparr>hc_jobWG := hc_jobWG h @ [(ctx, WatchdogLoop interval)]\<rparr>"

definition startJobs :: "('c, 's) hostClient \<Rightarrow> ('c, 's) hostClient" where
  "startJobs h =
     (if hc_jobCancel h \<noteq> None then h
      else
        let ctx = hc_nextCtx h;
            h1 = h\<lparr>hc_nextCtx := Suc ctx, hc_jobCancel := Some ctx, hc_started := True,
                   hc_jobCtx := Some ctx\<rparr>;
            h2 = fold launchJobLocked (hc_jobs h1) h1
        in if sint (hc_watchdogInterval h2) > 0
           then launchWatchdogLocked ctx (hc_watchdogInterval h2) h2
           else h2)"

text \<open>
  \<open>cancel()\<close> then \<open>jobWG.Wait()\<close>: the call returns once every counted goroutine has
  returned, so the wait group is empty in the state it returns to.
\<close>

definition stopJobs :: "('c, 's) hostClient \<Rightarrow> ('c, 's) hostClient" where
  "stopJobs h =
     (let h1 = h\<lparr>hc_jobCancel := None\<rparr> in
      case hc_jobCancel h of
        None \<Rightarrow> h1
      | Some ctx \<Rightarrow> h1\<lparr>hc_cancelled := ctx # hc_cancelled h, hc_jobWG := []\<rparr>)"

section \<open>Bookkeeping lemmas\<close>

lemma fold_launchJob:
  "hc_jobCtx h = Some ctx \<Longrightarrow>
   fold launchJobLocked js h = h\<lparr>hc_jobWG := hc_jobWG h @ map (\<lambda>j. (ctx, JobLoop j)) js\<rparr>"
  by (induction js arbitrary: h) (auto simp: launchJobLocked_def)

lemma startJobs_fresh:
  "hc_jobCancel h = None \<Longrightarrow>
   startJobs h = h\<lparr>hc_nextCtx := Suc (hc_nextCtx h), hc_jobCancel := Some (hc_nextCtx h),
      hc_started := True, hc_jobCtx := Some (hc_nextCtx h),
      hc_jobWG := hc_jobWG h @ map (\<lambda>j. (hc_nextCtx h, JobLoop j)) (hc_jobs h) @
        (if sint (hc_watchdogInterval h) > 0
         then [(hc_nextCtx h, WatchdogLoop (hc_watchdogInterval h))] else [])\<rparr>"
  by (simp add: startJobs_def Let_def fold_launchJob launchWatchdogLocked_def)

text \<open>
  The invariant of the job state: goroutines run only under the context that \<open>jobCancel\<close>
  will cancel, that context is not cancelled yet, and contexts are numbered afresh.
\<close>

definition jobs_ok :: "('c, 's) hostClient \<Rightarrow> bool" where
  "jobs_ok h \<longleftrightarrow>
     (\<forall>(ctx, g) \<in> set (hc_jobWG h). hc_jobCancel h = Some ctx) \<and>
     (\<forall>ctx. hc_jobCancel h = Some ctx \<longrightarrow> ctx \<notin> set (hc_cancelled h) \<and> ctx < hc_nextCtx h) \<and>
     (\<forall>ctx \<in> set (hc_cancelled h). ctx < hc_nextCtx h) \<and>
     (hc_jobCancel h \<noteq> None \<longrightarrow> hc_started h)"

lemma jobs_ok_None: "\<lbrakk>jobs_ok h; hc_jobCancel h = None\<rbrakk> \<Longrightarrow> hc_jobWG h = []"
  by (cases "hc_jobWG h") (auto simp: jobs_ok_def)

lemma jobs_ok_dial:
  "dialHost grpc_client md_append from_error token = Inr h \<Longrightarrow> jobs_ok h"
  by (auto simp: dialHost_def jobs_ok_def split: sum.splits)

lemma jobs_ok_startJobs: "jobs_ok h \<Longrightarrow> jobs_ok (startJobs h)"
proof (cases "hc_jobCancel h")
  case None
  assume ok: "jobs_ok h"
  then have wg: "hc_jobWG h = []" using None by (rule jobs_ok_None)
  have old: "\<forall>ctx \<in> set (hc_cancelled h). ctx < hc_nextCtx h"
    using ok by (simp add: jobs_ok_def)
  then have fresh: "hc_nextCtx h \<notin> set (hc_cancelled h)" by blast
  have old': "\<forall>ctx \<in> set (hc_cancelled h). ctx < Suc (hc_nextCtx h)"
    using old by auto
  show ?thesis
    unfolding startJobs_fresh [OF None]
    apply (simp only: jobs_ok_def wg hostClient.simps)
    apply (intro conjI)
    subgoal by (auto split: if_splits)
    subgoal using fresh by simp
    subgoal using old' by simp
    subgoal by simp
    done
qed (simp add: startJobs_def)

lemma stopJobs_None: "hc_jobCancel h = None \<Longrightarrow> stopJobs h = h\<lparr>hc_jobCancel := None\<rparr>"
  by (simp add: stopJobs_def)

lemma stopJobs_Some:
  "hc_jobCancel h = Some ctx \<Longrightarrow>
   stopJobs h = h\<lparr>hc_jobCancel := None, hc_cancelled := ctx # hc_cancelled h, hc_jobWG := []\<rparr>"
  by (simp add: stopJobs_def)

lemma jobs_ok_stopJobs: "jobs_ok h \<Longrightarrow> jobs_ok (stopJobs h)"
proof (cases "hc_jobCancel h")
  case None
  assume "jobs_ok h"
  then show ?thesis
    unfolding stopJobs_None [OF None] using None by (simp add: jobs_ok_def)
next
  case (Some ctx)
  assume "jobs_ok h"
  then have "ctx < hc_nextCtx h" "\<forall>ctx \<in> set (hc_cancelled h). ctx < hc_nextCtx h"
    using Some by (simp_all add: jobs_ok_def)
  then show ?thesis
    unfolding stopJobs_Some [OF Some] by (simp add: jobs_ok_def)
qed

lemma jobs_ok_frame:
  "\<lbrakk>jobs_ok h; hc_jobWG h' = hc_jobWG h; hc_jobCancel h' = hc_jobCancel h;
    hc_cancelled h' = hc_cancelled h; hc_nextCtx h' = hc_nextCtx h; hc_started h' = hc_started h\<rbrakk>
   \<Longrightarrow> jobs_ok h'"
  by (simp add: jobs_ok_def)

lemma stopJobs_empty: "jobs_ok h \<Longrightarrow> hc_jobWG (stopJobs h) = [] \<and> hc_jobCancel (stopJobs h) = None"
  by (cases "hc_jobCancel h") (auto simp: stopJobs_None stopJobs_Some dest: jobs_ok_None)

section \<open>The store through the stub\<close>

text \<open>
  A client whose RPCs the stub serves with this client's token, whatever its streams will carry,
  called with a context on which the token is the only value the server then reads.
\<close>

definition stub_served ::
  "('c \<Rightarrow> string \<Rightarrow> string list) \<Rightarrow> string \<Rightarrow> nat \<Rightarrow> int \<Rightarrow> ('c, HostData) hostClient \<Rightarrow> 'c \<Rightarrow> bool" where
  "stub_served md_get moduleID seed now h ctx \<longleftrightarrow>
     (\<exists>lives. hc_rpc h = registerHostServices md_get (hc_token h) moduleID seed now lives) \<and>
     md_get (withToken h ctx) TokenMetadataKey = [hc_token h]"

lemma intercept_Inr [simp]: "intercept h (Inr a, s) = (Inr a, s)"
  by (simp add: intercept_def)

lemma map_reply_Inr [simp]: "map_reply f (Inr a, s) = (Inr (f a), s)"
  by (simp add: map_reply_def)

lemma stub_store_ops:
  assumes "stub_served md_get moduleID seed now h ctx"
  shows "storeGet h pre ctx key d = (Inr (StoreGet d (pre @ key)), d)"
    and "storePut h pre ctx key v d = (Inr (), StorePut (pre @ key) v d)"
    and "storeDelete h pre ctx key d = (Inr (), StoreDelete (pre @ key) d)"
    and "storeList h pre ctx p d = (Inr (map (trim_prefix pre) (StoreKeys seed d (pre @ p))), d)"
  using assms
  by (auto simp: stub_served_def storeGet_def storePut_def storeDelete_def storeList_def
      registerHostServices_def unary_guard_pass store_Get_def store_Put_def store_Delete_def
      store_List_def)

lemma stub_publish:
  assumes "stub_served md_get moduleID seed now h ctx"
  shows "EventsPublish h ctx topic data d = (Inr (), Publish now (moduleID @ ''.'' @ topic) data d)"
  using assms
  by (auto simp: stub_served_def EventsPublish_def registerHostServices_def unary_guard_pass
      events_Publish_def)

lemma stub_send:
  assumes "stub_served md_get moduleID seed now h ctx"
  shows "TransportSend h ctx msg q d =
    (Inr True, RecordSend \<lparr>sm_Peer = ucast (msg_Peer msg), sm_Kind = msg_Kind msg,
       sm_Data = msg_Data msg, sm_QueueOffline = q\<rparr> d)"
  using assms
  by (auto simp: stub_served_def TransportSend_def registerHostServices_def unary_guard_pass
      transport_Send_def)

lemma ns_prefix_disjoint:
  assumes "CHR ''/'' \<notin> set ns1" "CHR ''/'' \<notin> set ns2" "ns1 \<noteq> []" "ns2 \<noteq> []"
    and "StoreOf ns1 @ k1 = StoreOf ns2 @ k2"
  shows "ns1 = ns2 \<and> k1 = k2"
proof -
  have eq: "ns1 @ CHR ''/'' # k1 = ns2 @ CHR ''/'' # k2"
    using assms by (simp add: StoreOf_def)
  then have "split_on (CHR ''/'') (ns1 @ CHR ''/'' # k1) = split_on (CHR ''/'') (ns2 @ CHR ''/'' # k2)"
    by simp
  then have "ns1 = ns2" using assms(1,2) by (simp add: split_on_append_sep)
  with eq show ?thesis by simp
qed

end
