(* ===== verification/Streams.thy ===== *)
theory Streams
  imports HostClient
begin

text \<open>
  The goroutines of the module runtime (\<open>modulesdk/hostclient.go\<close>): the pumps behind
  \<open>Receive\<close>, \<open>Watch\<close> and \<open>Subscribe\<close>, the job loop, the watchdog loop and
  \<open>awaitDisconnect\<close>.  Each loop consumes what its environment hands it, one element per
  iteration: the outcome of a blocking call and, where a \<open>select\<close> has several ready cases, the
  one the runtime took.  A list that ends before the loop does leaves it blocked there.
\<close>

section \<open>Pumps\<close>

text \<open>
  \<open>pump f ins\<close>: what the consumer has received, and whether the channel is closed.  A message
  whose hand-over loses against \<open>ctx.Done()\<close> is dropped.
\<close>

fun pump :: "('w \<Rightarrow> 'a) \<Rightarrow> 'w pump_in list \<Rightarrow> 'a list \<times> bool" where
  "pump f [] = ([], False)"
| "pump f (RecvFailed # ins) = ([], True)"
| "pump f (RecvCancelled m # ins) = ([], True)"
| "pump f (RecvTaken m # ins) = (case pump f ins of (out, closed) \<Rightarrow> (f m # out, closed))"

definition recvMessage :: "32 word \<times> string \<times> bytes \<Rightarrow> Message" where
  "recvMessage = (\<lambda>(peer, kind, data).
     \<lparr>msg_Peer = scast peer, msg_Kind = kind, msg_Data = data\<rparr>)"

text \<open>
  Opening a stream goes through the stream interceptor, which adds the token and nothing else:
  \<open>streamer\<close> is gRPC's own, giving the error or the life of the stream.  The error is not passed
  through \<open>sentinelErr\<close>, as the unary interceptor's is.  A channel returned is what it delivers in
  its life and whether it was closed.
\<close>

definition open_stream ::
  "('c, 's) hostClient \<Rightarrow> 'c \<Rightarrow> ('c \<Rightarrow> ('s, 'w pump_in list) served) \<Rightarrow> ('s, 'w pump_in list) served" where
  "open_stream h ctx streamer = streamer (withToken h ctx)"

definition Receive :: "('c, 's) hostClient \<Rightarrow> 'c \<Rightarrow> ('s, Message list \<times> bool) served" where
  "Receive h ctx s = map_reply (pump recvMessage) (open_stream h ctx (rpc_Receive (hc_rpc h)) s)"

definition Watch :: "('c, 's) hostClient \<Rightarrow> 'c \<Rightarrow> ('s, PolicyDocument list \<times> bool) served" where
  "Watch h ctx s = map_reply (pump policyDoc) (open_stream h ctx (rpc_Watch (hc_rpc h)) s)"

definition recvEvent :: "string \<times> bytes \<times> int \<times> u64 \<Rightarrow> Event" where
  "recvEvent = (\<lambda>(topic, data, at, sequence).
     \<lparr>e_Topic = topic, e_Data = data, e_PublishedAt = at, e_Sequence = sequence\<rparr>)"

definition Subscribe ::
  "('c, 's) hostClient \<Rightarrow> 'c \<Rightarrow> string list \<Rightarrow> ('s, Event list \<times> bool) served" where
  "Subscribe h ctx topics s =
     map_reply (pump recvEvent) (open_stream h ctx (\<lambda>c. rpc_Subscribe (hc_rpc h) c topics) s)"

fun is_taken :: "'w pump_in \<Rightarrow> bool" where
  "is_taken (RecvTaken m) = True"
| "is_taken _ = False"

fun pump_msg :: "'w pump_in \<Rightarrow> 'w option" where
  "pump_msg RecvFailed = None"
| "pump_msg (RecvTaken m) = Some m"
| "pump_msg (RecvCancelled m) = Some m"

lemma pump_spec:
  "pump f ins =
     (map (\<lambda>i. f (the (pump_msg i))) (takeWhile is_taken ins), \<exists>i \<in> set ins. \<not> is_taken i)"
  by (induction f ins rule: pump.induct) auto

section \<open>The job loop\<close>

definition next_interval :: "Job \<Rightarrow> nat \<Rightarrow> duration" where
  "next_interval j n = (case job_EveryFunc j of Some f \<Rightarrow> f n | None \<Rightarrow> job_Every j)"

datatype job_sel = TimerFired | JobCtxDone

datatype job_end = JobWaiting | JobReturned

text \<open>The \<open>for\<close> loop from its n-th iteration on: how often it runs the job, and how it ends.\<close>

fun job_cycles :: "Job \<Rightarrow> nat \<Rightarrow> job_sel list \<Rightarrow> nat \<times> job_end" where
  "job_cycles j n sels =
     (if sint (next_interval j n) \<le> 0 then (0, JobReturned)
      else case sels of
        [] \<Rightarrow> (0, JobWaiting)
      | JobCtxDone # _ \<Rightarrow> (0, JobReturned)
      | TimerFired # sels' \<Rightarrow> (case job_cycles j (Suc n) sels' of (runs, e) \<Rightarrow> (Suc runs, e)))"

declare job_cycles.simps [simp del]

definition launchJob :: "Job \<Rightarrow> job_sel list \<Rightarrow> nat \<times> job_end" where
  "launchJob j sels = (case job_cycles j 0 sels of (runs, e) \<Rightarrow> (Suc runs, e))"

lemma job_cycles_eqs:
  "sint (next_interval j n) \<le> 0 \<Longrightarrow> job_cycles j n sels = (0, JobReturned)"
  "0 < sint (next_interval j n) \<Longrightarrow> job_cycles j n [] = (0, JobWaiting)"
  "0 < sint (next_interval j n) \<Longrightarrow> job_cycles j n (JobCtxDone # sels) = (0, JobReturned)"
  "0 < sint (next_interval j n) \<Longrightarrow> job_cycles j n (TimerFired # sels) =
     (Suc (fst (job_cycles j (Suc n) sels)), snd (job_cycles j (Suc n) sels))"
  by (subst job_cycles.simps, simp add: case_prod_beta)+

lemma job_cycles_runs:
  "fst (job_cycles j n sels) =
     length (takeWhile (\<lambda>(i, c). 0 < sint (next_interval j i) \<and> c = TimerFired) (enumerate n sels))"
proof (induction sels arbitrary: n)
  case Nil
  show ?case by (cases "0 < sint (next_interval j n)") (simp_all add: job_cycles_eqs)
next
  case (Cons c sels)
  show ?case
  proof (cases "0 < sint (next_interval j n)")
    case True
    with Cons.IH [of "Suc n"] show ?thesis by (cases c) (simp_all add: job_cycles_eqs)
  next
    case False
    then show ?thesis by (simp add: job_cycles_eqs not_less)
  qed
qed

lemma job_cycles_end:
  "snd (job_cycles j n sels) = JobWaiting \<longleftrightarrow>
     (\<forall>i \<le> length sels. 0 < sint (next_interval j (n + i))) \<and> JobCtxDone \<notin> set sels"
proof (induction sels arbitrary: n)
  case Nil
  show ?case by (cases "0 < sint (next_interval j n)") (simp_all add: job_cycles_eqs)
next
  case (Cons c sels)
  have shift: "(\<forall>i \<le> length (c # sels). 0 < sint (next_interval j (n + i))) \<longleftrightarrow>
      0 < sint (next_interval j n) \<and> (\<forall>i \<le> length sels. 0 < sint (next_interval j (Suc n + i)))"
    by (simp only: list.size add_0_right add_Suc_right add_Suc All_less_Suc2 flip: less_Suc_eq_le)
  show ?case
  proof (cases "0 < sint (next_interval j n)")
    case True
    with Cons.IH [of "Suc n"] show ?thesis
      unfolding shift by (cases c) (simp_all add: job_cycles_eqs)
  next
    case False
    then show ?thesis unfolding shift by (simp add: job_cycles_eqs not_less)
  qed
qed

section \<open>The watchdog loop\<close>

text \<open>
  A tick carries how \<open>Notify\<close> would answer if the stream has to be opened, and how the send
  goes.
\<close>

datatype watchdog_in = Tick bool bool | WatchdogCtxDone

datatype watchdog_out = NotifyFailed | NotifyOpened | Ping u64 bool | CloseAndRecv

fun watchdog_loop :: "bool \<Rightarrow> u64 \<Rightarrow> watchdog_in list \<Rightarrow> watchdog_out list" where
  "watchdog_loop opened sq [] = []"
| "watchdog_loop opened sq (WatchdogCtxDone # ins) = (if opened then [CloseAndRecv] else [])"
| "watchdog_loop opened sq (Tick notify_ok send_ok # ins) =
     (if \<not> opened \<and> \<not> notify_ok then NotifyFailed # watchdog_loop False sq ins
      else (if opened then [] else [NotifyOpened]) @
           Ping (sq + 1) send_ok # watchdog_loop send_ok (sq + 1) ins)"

definition launchWatchdog :: "watchdog_in list \<Rightarrow> watchdog_out list" where
  "launchWatchdog ins = watchdog_loop False 0 ins"

fun ping_seqs :: "watchdog_out list \<Rightarrow> u64 list" where
  "ping_seqs [] = []"
| "ping_seqs (Ping sq ok # outs) = sq # ping_seqs outs"
| "ping_seqs (_ # outs) = ping_seqs outs"

text \<open>
  The stream discipline: a stream is opened only when there is none, pings go out on an open
  stream only, a failed ping loses the stream, and only an open stream is closed, at the end.
\<close>

fun stream_ok :: "bool \<Rightarrow> watchdog_out list \<Rightarrow> bool" where
  "stream_ok opened [] = True"
| "stream_ok opened (NotifyFailed # outs) = (\<not> opened \<and> stream_ok False outs)"
| "stream_ok opened (NotifyOpened # outs) = (\<not> opened \<and> stream_ok True outs)"
| "stream_ok opened (Ping sq ok # outs) = (opened \<and> stream_ok ok outs)"
| "stream_ok opened (CloseAndRecv # outs) = (opened \<and> outs = [])"

lemma ping_seqs_append: "ping_seqs (xs @ ys) = ping_seqs xs @ ping_seqs ys"
  by (induction xs rule: ping_seqs.induct) auto

lemma watchdog_loop_seqs:
  "ping_seqs (watchdog_loop opened (word_of_nat n) ins) =
     map word_of_nat [Suc n ..< Suc n + length (ping_seqs (watchdog_loop opened (word_of_nat n) ins))]"
proof (induction ins arbitrary: opened n)
  case (Cons i ins)
  have "word_of_nat n + 1 = (word_of_nat (Suc n) :: u64)" by (simp add: add.commute)
  with Cons.IH [of _ "Suc n"] Cons.IH [of False n] show ?case
    by (cases i) (auto simp: ping_seqs_append upt_conv_Cons simp del: upt_Suc of_nat_Suc)
qed simp

lemma watchdog_loop_stream_ok: "stream_ok opened (watchdog_loop opened sq ins)"
proof (induction ins arbitrary: opened sq)
  case (Cons i ins)
  then show ?case by (cases i) auto
qed simp

section \<open>awaitDisconnect\<close>

datatype conn_state = ConnIdle | Connecting | Ready | TransientFailure | ConnShutdown

datatype await_result = OnLost | GaveUp | StillWatching

text \<open>
  Each iteration sees the connection's state and, when it goes on to wait, what
  \<open>WaitForStateChange\<close> returned; the first component counts the calls of \<open>Connect\<close>.
\<close>

fun awaitDisconnect :: "(conn_state \<times> bool) list \<Rightarrow> nat \<times> await_result" where
  "awaitDisconnect [] = (0, StillWatching)"
| "awaitDisconnect ((state, changed) # obs) =
     (if state = ConnShutdown then (0, OnLost)
      else if state = TransientFailure then (0, OnLost)
      else if \<not> changed then (1, GaveUp)
      else case awaitDisconnect obs of (n, r) \<Rightarrow> (Suc n, r))"

definition lost_state :: "conn_state \<Rightarrow> bool" where
  "lost_state st = (st = ConnShutdown \<or> st = TransientFailure)"

lemma awaitDisconnect_OnLost:
  "\<forall>obs_i \<in> set obs. snd obs_i \<Longrightarrow>
   snd (awaitDisconnect obs) = OnLost \<longleftrightarrow> (\<exists>obs_i \<in> set obs. lost_state (fst obs_i))"
  by (induction obs rule: awaitDisconnect.induct) (simp_all add: lost_state_def case_prod_beta)

section \<open>A concrete client\<close>

definition no_rpc :: "(unit, 's) rpc_clients" where
  "no_rpc =
     \<lparr>rpc_WhoAmI = (\<lambda>_ s. (Inl (StatusError Unavailable []), s)),
      rpc_Credential = (\<lambda>_ _ s. (Inl (StatusError Unavailable []), s)),
      rpc_Send = (\<lambda>_ _ _ s. (Inl (StatusError Unavailable []), s)),
      rpc_PolicyGet = (\<lambda>_ s. (Inl (StatusError Unavailable []), s)),
      rpc_StoreGet = (\<lambda>_ _ s. (Inl (StatusError Unavailable []), s)),
      rpc_StorePut = (\<lambda>_ _ _ s. (Inl (StatusError Unavailable []), s)),
      rpc_StoreDelete = (\<lambda>_ _ s. (Inl (StatusError Unavailable []), s)),
      rpc_StoreList = (\<lambda>_ _ s. (Inl (StatusError Unavailable []), s)),
      rpc_Publish = (\<lambda>_ _ _ s. (Inl (StatusError Unavailable []), s)),
      rpc_Receive = (\<lambda>_ s. (Inl (StatusError Unavailable []), s)),
      rpc_Watch = (\<lambda>_ s. (Inl (StatusError Unavailable []), s)),
      rpc_Subscribe = (\<lambda>_ _ s. (Inl (StatusError Unavailable []), s))\<rparr>"

definition stream_host :: "(unit, 's) hostClient" where
  "stream_host =
     \<lparr>hc_token = ''tok'', hc_append = (\<lambda>ctx _ _. ctx), hc_from_error = plain_from_error, hc_rpc = no_rpc,
      hc_closed = False, hc_surfaces = [], hc_jobs = [], hc_watchdogInterval = 0,
      hc_jobCancel = None, hc_jobCtx = None, hc_jobWG = [], hc_started = False,
      hc_nextCtx = 0, hc_cancelled = []\<rparr>"

text \<open>A client all of whose \<open>Watch\<close> streams have this life.\<close>

definition with_watch :: "('c \<Rightarrow> ('s, (u64 \<times> bytes \<times> u32 \<times> string) pump_in list) served) \<Rightarrow>
    ('c, 's) hostClient \<Rightarrow> ('c, 's) hostClient" where
  "with_watch streamer h = h\<lparr>hc_rpc := (hc_rpc h)\<lparr>rpc_Watch := streamer\<rparr>\<rparr>"

definition with_subscribe :: "('c \<Rightarrow> string list \<Rightarrow> ('s, (string \<times> bytes \<times> int \<times> u64) pump_in list) served) \<Rightarrow>
    ('c, 's) hostClient \<Rightarrow> ('c, 's) hostClient" where
  "with_subscribe streamer h = h\<lparr>hc_rpc := (hc_rpc h)\<lparr>rpc_Subscribe := streamer\<rparr>\<rparr>"

lemma Watch_with: "Watch (with_watch streamer h) ctx s = map_reply (pump policyDoc) (streamer (withToken h ctx) s)"
  by (simp add: Watch_def open_stream_def with_watch_def withToken_def)

lemma Subscribe_with:
  "Subscribe (with_subscribe streamer h) ctx ts s = map_reply (pump recvEvent) (streamer (withToken h ctx) ts s)"
  by (simp add: Subscribe_def open_stream_def with_subscribe_def withToken_def)

section \<open>Properties\<close>

text \<open>
  What a \<open>Watch\<close> channel delivers is exactly the policy documents of the stream up to the
  first receive error or cancellation, in order and each once, and the channel is closed
  exactly when one of the two has happened.
\<close>
lemma watch_delivers_prefix:
  assumes "rpc_Watch (hc_rpc h) (withToken h ctx) s = (Inr ins, s')"
  shows "Watch h ctx s =
     (Inr (map (\<lambda>i. policyDoc (the (pump_msg i))) (takeWhile is_taken ins), \<exists>i \<in> set ins. \<not> is_taken i), s')"
  using assms by (simp add: Watch_def open_stream_def pump_spec)

lemma watch_delivers_prefix_witness:
  "Watch (with_watch (\<lambda>_ s. (Inr [RecvTaken (1, ''a'', 0, []), RecvTaken (2, ''b'', 0, []), RecvFailed], s)) stream_host) () () =
     (Inr ([\<lparr>pol_Revision = 1, pol_Data = ''a'', pol_SchemaVersion = 0, pol_ContentType = []\<rparr>,
           \<lparr>pol_Revision = 2, pol_Data = ''b'', pol_SchemaVersion = 0, pol_ContentType = []\<rparr>], True), ())"
  by (subst watch_delivers_prefix [where ins = "[RecvTaken (1, ''a'', 0, []), RecvTaken (2, ''b'', 0, []), RecvFailed]"])
    (simp_all add: with_watch_def policyDoc_def)

text \<open>
  The errors of the streaming calls are not mapped to sentinels: a call that cannot open its
  stream returns gRPC's status as it is, on which no sentinel can be found, while a unary call
  with the same status is branched on by sentinel.
\<close>
lemma stream_errors_not_mapped:
  assumes "rpc_Watch (hc_rpc h) (withToken h ctx) s = (Inl (StatusError c m), s1)" and "reads_status (hc_from_error h)"
    and "code_sentinel c = Some t"
  shows "\<exists>e. Watch h ctx s = (Inl e, s1) \<and> \<not> err_is (Some e) t \<and>
    (\<exists>e'. fst (intercept h (Inl (StatusError c m), s)) = (Inl e' :: go_error + 'a) \<and> err_is (Some e') t)"
  using assms
  by (simp add: Watch_def open_stream_def map_reply_def intercept_def err_is_def sentinel_of_status)

lemma stream_errors_not_mapped_witness:
  "\<exists>e. Watch stream_host () () = (Inl e, ()) \<and> \<not> err_is (Some e) ErrUnavailable"
  using stream_errors_not_mapped [of stream_host "()" "()" Unavailable "[]" "()" ErrUnavailable]
    plain_from_error_reads
  by (auto simp: stream_host_def no_rpc_def)

text \<open>
  A job runs once at the start and then once per timer that fires before its context is
  cancelled or an interval, re-read each cycle with \<open>EveryFunc\<close> before \<open>Every\<close>, is not
  positive; it goes on waiting exactly while neither has happened.
\<close>
lemma job_run_count:
  "fst (launchJob j sels) =
     Suc (length (takeWhile (\<lambda>(i, c). 0 < sint (next_interval j i) \<and> c = TimerFired) (enumerate 0 sels))) \<and>
   (snd (launchJob j sels) = JobWaiting \<longleftrightarrow>
     (\<forall>i. i \<le> length sels \<longrightarrow> 0 < sint (next_interval j i)) \<and> JobCtxDone \<notin> set sels)"
  using job_cycles_runs [of j 0 sels] job_cycles_end [of j 0 sels]
  by (auto simp: launchJob_def split: prod.splits)

lemma job_run_count_witness:
  "fst (launchJob \<lparr>job_Name = ''j'', job_Every = 0, job_EveryFunc = Some (\<lambda>n. if n < 2 then 5 else 0)\<rparr>
      [TimerFired, TimerFired, TimerFired]) = 3"
  by (simp add: job_run_count next_interval_def)

text \<open>
  The watchdog numbers its pings 1, 2, 3 and so on without a gap or a repeat, across failed
  opens and broken streams alike.
\<close>
lemma watchdog_pings_consecutive:
  "ping_seqs (launchWatchdog ins) =
     map word_of_nat [1 ..< Suc (length (ping_seqs (launchWatchdog ins)))]"
  using watchdog_loop_seqs [of False 0 ins] by (simp add: launchWatchdog_def)

text \<open>
  The watchdog never pings without an open stream, reopens a broken one before the next
  ping, never opens a second one, and closes the stream on cancellation if it is open.
\<close>
lemma watchdog_stream_discipline: "stream_ok False (launchWatchdog ins)"
  unfolding launchWatchdog_def by (rule watchdog_loop_stream_ok)

text \<open>
  \<open>awaitDisconnect\<close> reports core lost at the first transient failure it sees: a
  connection that comes back to Ready right after is reported all the same.
\<close>
lemma transient_failure_is_fatal:
  "snd (awaitDisconnect ((Ready, True) # (TransientFailure, changed) # (Ready, True) # obs)) = OnLost"
  by simp

end
