(* ===== verification/HostApi.thy ===== *)
theory HostApi
  imports Streams
begin

text \<open>
  What a module can do through the \<open>Host\<close> handed to its \<open>Init\<close> (the \<open>Host\<close>, \<open>Identity\<close>,
  \<open>Transport\<close>, \<open>PolicyReader\<close>, \<open>Store\<close>, \<open>Events\<close> and \<open>UIBroker\<close> interfaces of
  \<open>modulesdk/module.go\<close>).  A module's code is not under the repository, so one of its methods
  is any \<open>prog\<close>: a tree of host calls, each continuing on the reply, ending in a result.
  \<open>host_do\<close> is the runtime's side of one call, on the host client and the server's state.
  A channel is replied as all it carries and whether it closes, so a method that takes it message
  by message is one that looks at the list as far as it has got.  \<open>Log\<close> is in theory \<open>ModuleLog\<close>:
  it reaches none of these services.
\<close>

datatype host_call =
    CallWhoAmI
  | CallCredential "string list"
  | CallSend Message bool
  | CallPolicyGet
  | CallStoreGet string string
  | CallStorePut string string bytes
  | CallStoreDelete string string
  | CallStoreList string string
  | CallPublish string bytes
  | CallDeclare "Surface list"
  | CallReceive
  | CallWatch
  | CallSubscribe "string list"

datatype host_reply =
    RepErr go_error
  | RepDevice DeviceIdentity
  | RepCredential Credential
  | RepDelivered bool
  | RepPolicy PolicyDocument
  | RepValue bytes bool
  | RepDone
  | RepKeys "string list"
  | RepMessages "Message list" bool
  | RepDocuments "PolicyDocument list" bool
  | RepEvents "Event list" bool

datatype 'a prog = Return 'a | Call host_call "host_reply \<Rightarrow> 'a prog"

definition as_reply ::
  "('a \<Rightarrow> host_reply) \<Rightarrow> ('c, 's) hostClient \<Rightarrow> (go_error + 'a) \<times> 's \<Rightarrow>
   host_reply \<times> ('c, 's) hostClient \<times> 's" where
  "as_reply f h r = (case fst r of Inl e \<Rightarrow> (RepErr e, h, snd r) | Inr a \<Rightarrow> (f a, h, snd r))"

fun host_do ::
  "'c \<Rightarrow> host_call \<Rightarrow> ('c, 's) hostClient \<Rightarrow> 's \<Rightarrow> host_reply \<times> ('c, 's) hostClient \<times> 's" where
  "host_do ctx CallWhoAmI h s = as_reply RepDevice h (WhoAmI h ctx s)"
| "host_do ctx (CallCredential sc) h s = as_reply RepCredential h (MintCredential h ctx sc s)"
| "host_do ctx (CallSend m q) h s = as_reply RepDelivered h (TransportSend h ctx m q s)"
| "host_do ctx CallPolicyGet h s = as_reply RepPolicy h (PolicyGet h ctx s)"
| "host_do ctx (CallStoreGet ns k) h s =
     as_reply (\<lambda>(v, found). RepValue v found) h (storeGet h (StoreOf ns) ctx k s)"
| "host_do ctx (CallStorePut ns k v) h s =
     as_reply (\<lambda>_. RepDone) h (storePut h (StoreOf ns) ctx k v s)"
| "host_do ctx (CallStoreDelete ns k) h s =
     as_reply (\<lambda>_. RepDone) h (storeDelete h (StoreOf ns) ctx k s)"
| "host_do ctx (CallStoreList ns p) h s = as_reply RepKeys h (storeList h (StoreOf ns) ctx p s)"
| "host_do ctx (CallPublish t v) h s = as_reply (\<lambda>_. RepDone) h (EventsPublish h ctx t v s)"
| "host_do ctx (CallDeclare ss) h s =
     (case Declare ss h of (Some e, h') \<Rightarrow> (RepErr e, h', s) | (None, h') \<Rightarrow> (RepDone, h', s))"
| "host_do ctx CallReceive h s = as_reply (\<lambda>(ms, closed). RepMessages ms closed) h (Receive h ctx s)"
| "host_do ctx CallWatch h s = as_reply (\<lambda>(ds, closed). RepDocuments ds closed) h (Watch h ctx s)"
| "host_do ctx (CallSubscribe ts) h s = as_reply (\<lambda>(es, closed). RepEvents es closed) h (Subscribe h ctx ts s)"

primrec run_prog ::
  "'a prog \<Rightarrow> 'c \<Rightarrow> ('c, 's) hostClient \<Rightarrow> 's \<Rightarrow> 'a \<times> ('c, 's) hostClient \<times> 's" where
  "run_prog (Return a) ctx h s = (a, h, s)"
| "run_prog (Call c k) ctx h s =
     (case host_do ctx c h s of (r, h', s') \<Rightarrow> run_prog (k r) ctx h' s')"

text \<open>
  Whatever a module does, the host client changes by surfaces appended at most, and once the
  jobs have started not even by those.
\<close>

definition surfaces_extend :: "('c, 's) hostClient \<Rightarrow> ('c, 's) hostClient \<Rightarrow> bool" where
  "surfaces_extend h h' \<longleftrightarrow>
     (\<exists>ss. h' = h\<lparr>hc_surfaces := hc_surfaces h @ ss\<rparr> \<and> (hc_started h \<longrightarrow> ss = []))"

lemma surfaces_extend_refl [simp]: "surfaces_extend h h"
  by (auto simp: surfaces_extend_def intro: exI [of _ "[]"])

lemma surfaces_extend_trans:
  assumes "surfaces_extend h h'" "surfaces_extend h' h''"
  shows "surfaces_extend h h''"
proof -
  from assms(1) obtain ss where "h' = h\<lparr>hc_surfaces := hc_surfaces h @ ss\<rparr>" "hc_started h \<longrightarrow> ss = []"
    unfolding surfaces_extend_def by blast
  moreover from assms(2) obtain ts where
    "h'' = h'\<lparr>hc_surfaces := hc_surfaces h' @ ts\<rparr>" "hc_started h' \<longrightarrow> ts = []"
    unfolding surfaces_extend_def by blast
  ultimately have "h'' = h\<lparr>hc_surfaces := hc_surfaces h @ (ss @ ts)\<rparr> \<and> (hc_started h \<longrightarrow> ss @ ts = [])"
    by simp
  then show ?thesis unfolding surfaces_extend_def by blast
qed

lemma as_reply_host: "as_reply f h r = (rep, h', s') \<Longrightarrow> h' = h"
  by (auto simp: as_reply_def split: sum.splits)

lemma Declare_extend: "Declare ss h = (e, h') \<Longrightarrow> surfaces_extend h h'"
  by (auto simp: Declare_def surfaces_extend_def split: if_splits intro: exI [of _ "[]"])

lemma host_do_extend: "host_do ctx c h s = (r, h', s') \<Longrightarrow> surfaces_extend h h'"
  by (cases c)
    (auto dest!: as_reply_host dest: Declare_extend split: prod.splits option.splits)

lemma run_prog_extend: "run_prog p ctx h s = (a, h', s') \<Longrightarrow> surfaces_extend h h'"
proof (induction p arbitrary: h s)
  case (Call c k)
  obtain r h1 s1 where do1: "host_do ctx c h s = (r, h1, s1)" by (cases "host_do ctx c h s") auto
  with Call.prems have "run_prog (k r) ctx h1 s1 = (a, h', s')" by simp
  then have "surfaces_extend h1 h'" by (intro Call.IH) auto
  with host_do_extend [OF do1] show ?case by (rule surfaces_extend_trans)
qed simp

lemma surfaces_extend_frame:
  assumes "surfaces_extend h h'"
  shows "hc_jobWG h' = hc_jobWG h" "hc_jobCancel h' = hc_jobCancel h" "hc_jobs h' = hc_jobs h"
    "hc_cancelled h' = hc_cancelled h" "hc_nextCtx h' = hc_nextCtx h" "hc_started h' = hc_started h"
    "hc_closed h' = hc_closed h" "hc_watchdogInterval h' = hc_watchdogInterval h"
    "prefix (hc_surfaces h) (hc_surfaces h')"
  using assms by (auto simp: surfaces_extend_def)

lemma surfaces_extend_jobs_ok: "\<lbrakk>surfaces_extend h h'; jobs_ok h\<rbrakk> \<Longrightarrow> jobs_ok h'"
  by (erule jobs_ok_frame) (simp_all add: surfaces_extend_frame)

end
