(* ===== verification/Lifecycle.thy ===== *)
theory Lifecycle
  imports HostApi
begin

text \<open>
  The lifecycle server of the module runtime (\<open>modulesdk/lifecycle.go\<close>) over the \<open>Module\<close>,
  \<open>ConfigReceiver\<close> and \<open>Scheduled\<close> interfaces of \<open>modulesdk/module.go\<close>.

  Every handler that touches the state holds \<open>s.mu\<close> for its whole body, so any interleaving
  of RPCs is a sequence of handler executions: the theory runs lists of \<open>event\<close>s.  The
  module is an argument (its own state \<open>'m\<close>, its methods as \<open>prog\<close>s); \<open>ms_calls\<close> records
  which of its methods the runtime called and whether they succeeded, oldest first.  An
  error return is a value of \<open>rpc_error\<close>, one constructor per return statement, and
  \<open>rpc_code\<close> gives its gRPC code.
\<close>

section \<open>The module's interface\<close>

type_synonym 'm Scheduled = "'m \<Rightarrow> Job list \<times> 'm"

record 'm Module =
  m_ID :: string
  m_Requires :: "'m \<Rightarrow> Capability list \<times> 'm"
  m_Init :: "'m \<Rightarrow> (go_error option \<times> 'm) prog"
  m_Start :: "'m \<Rightarrow> (go_error option \<times> 'm) prog"
  m_Stop :: "duration option \<Rightarrow> 'm \<Rightarrow> (go_error option \<times> 'm) prog"
  m_Health :: "'m \<Rightarrow> Health \<times> 'm"
  m_SetConfig :: "(bytes \<Rightarrow> 'm \<Rightarrow> go_error option \<times> 'm) option"
  m_Jobs :: "'m Scheduled option"

datatype module_call =
    DidSetConfig bool
  | DidInit bool
  | DidJobs
  | DidRequires
  | DidStart bool
  | DidStop bool
  | DidHealth

section \<open>The server's state\<close>

datatype moduleState = stateCreated | stateInited | stateStarted | stateStopped

fun state_num :: "moduleState \<Rightarrow> nat" where
  "state_num stateCreated = 0"
| "state_num stateInited = 1"
| "state_num stateStarted = 2"
| "state_num stateStopped = 3"

instantiation moduleState :: linorder
begin

definition less_eq_moduleState :: "moduleState \<Rightarrow> moduleState \<Rightarrow> bool" where
  "less_eq_moduleState a b = (state_num a \<le> state_num b)"

definition less_moduleState :: "moduleState \<Rightarrow> moduleState \<Rightarrow> bool" where
  "less_moduleState a b = (state_num a < state_num b)"

instance
proof
  fix a b :: moduleState
  show "a \<le> b \<Longrightarrow> b \<le> a \<Longrightarrow> a = b"
    by (cases a; cases b) (simp_all add: less_eq_moduleState_def)
qed (auto simp: less_eq_moduleState_def less_moduleState_def)

end

lemmas state_order = less_eq_moduleState_def less_moduleState_def

record InitRequest =
  req_ModuleId :: string
  req_Protocol :: u32
  req_Config :: bytes
  req_WatchdogIntervalSeconds :: u32

record InitResponse =
  resp_Requires :: "Capability list"
  resp_Surfaces :: "Surface list"
  resp_HealthIntervalSeconds :: u32

record HealthResponse =
  hr_Status :: "32 word"
  hr_Reason :: string
  hr_Details :: "string \<rightharpoonup> string"

record ('m, 'c, 's) moduleServer =
  ms_module :: 'm
  ms_services :: 's
  ms_host :: "('c, 's) hostClient option"
  ms_token :: string
  ms_append :: "'c \<Rightarrow> string \<Rightarrow> string \<Rightarrow> 'c"
  ms_from_error :: "go_error \<Rightarrow> (grpc_code \<times> string) option"
  ms_shutdown :: "unit list"
  ms_hostLost :: "unit list option"
  ms_watching :: nat
  ms_healthInterval :: u32
  ms_state :: moduleState
  ms_calls :: "module_call list"
  ms_closed :: "('c, 's) hostClient list"

text \<open>\<open>getHost\<close> reads the client under the lock.\<close>

definition getHost :: "('m, 'c, 's) moduleServer \<Rightarrow> ('c, 's) hostClient option" where
  [simp]: "getHost s = ms_host s"

datatype rpc_error =
    InitTwice
  | IdentityMismatch string string
  | ProtocolMismatch u32 u32
  | ModuleConfig go_error
  | ConnectingHost go_error
  | ModuleInit go_error
  | StartInState moduleState
  | ModuleStart go_error
  | ModuleStop go_error
  | NilHost

fun rpc_code :: "rpc_error \<Rightarrow> grpc_code" where
  "rpc_code InitTwice = FailedPrecondition"
| "rpc_code (IdentityMismatch got want) = FailedPrecondition"
| "rpc_code (ProtocolMismatch got want) = FailedPrecondition"
| "rpc_code (ModuleConfig e) = InvalidArgument"
| "rpc_code (ConnectingHost e) = Unavailable"
| "rpc_code (ModuleInit e) = Internal"
| "rpc_code (StartInState st) = FailedPrecondition"
| "rpc_code (ModuleStart e) = Internal"
| "rpc_code (ModuleStop e) = Internal"
| "rpc_code NilHost = Internal"

section \<open>Init\<close>

text \<open>
  The outcome of \<open>grpc.NewClient\<close> for the host address is the argument \<open>grpc\<close>; \<open>connectHost\<close>
  is the closure of \<open>serve\<close>, which dials with the token of the handshake environment.
\<close>

definition connectHost ::
  "('m, 'c, 's) moduleServer \<Rightarrow> go_error + ('c, 's) rpc_clients \<Rightarrow> go_error + ('c, 's) hostClient" where
  "connectHost s grpc = dialHost grpc (ms_append s) (ms_from_error s) (ms_token s)"

definition receive_config ::
  "'m Module \<Rightarrow> bytes \<Rightarrow> ('m, 'c, 's) moduleServer \<Rightarrow> go_error option \<times> ('m, 'c, 's) moduleServer" where
  "receive_config M doc s =
     (case m_SetConfig M of
        None \<Rightarrow> (None, s)
      | Some cr \<Rightarrow>
          (case cr doc (ms_module s) of
             (err, m') \<Rightarrow>
               (err, s\<lparr>ms_module := m', ms_calls := ms_calls s @ [DidSetConfig (err = None)]\<rparr>)))"

definition collect_jobs ::
  "'m Module \<Rightarrow> ('c, 's) hostClient \<Rightarrow> ('m, 'c, 's) moduleServer \<Rightarrow>
   ('c, 's) hostClient \<times> ('m, 'c, 's) moduleServer" where
  "collect_jobs M h s =
     (case m_Jobs M of
        None \<Rightarrow> (h, s)
      | Some sched \<Rightarrow>
          (case sched (ms_module s) of
             (js, m') \<Rightarrow> (addJobs js h, s\<lparr>ms_module := m', ms_calls := ms_calls s @ [DidJobs]\<rparr>)))"

definition finish_init ::
  "'m Module \<Rightarrow> InitRequest \<Rightarrow> ('c, 's) hostClient \<Rightarrow> ('m, 'c, 's) moduleServer \<Rightarrow>
   (rpc_error + InitResponse) \<times> ('m, 'c, 's) moduleServer" where
  "finish_init M req h s =
     (let secs = req_WatchdogIntervalSeconds req;
          h1 = (if secs > 0 then setWatchdogInterval (seconds secs) h else h);
          (h2, s2) = collect_jobs M h1 (s\<lparr>ms_state := stateInited\<rparr>);
          watching = (case ms_hostLost s2 of None \<Rightarrow> ms_watching s2 | Some _ \<Rightarrow> Suc (ms_watching s2));
          (reqs, m') = m_Requires M (ms_module s2)
      in (Inr \<lparr>resp_Requires = reqs, resp_Surfaces = declaredSurfaces h2,
               resp_HealthIntervalSeconds = ms_healthInterval s2\<rparr>,
          s2\<lparr>ms_host := Some h2, ms_watching := watching, ms_module := m',
             ms_calls := ms_calls s2 @ [DidRequires]\<rparr>))"

definition Init ::
  "'m Module \<Rightarrow> 'c \<Rightarrow> InitRequest \<Rightarrow> go_error + ('c, 's) rpc_clients \<Rightarrow> ('m, 'c, 's) moduleServer \<Rightarrow>
   (rpc_error + InitResponse) \<times> ('m, 'c, 's) moduleServer" where
  "Init M ctx req grpc s =
     (if ms_state s \<noteq> stateCreated then (Inl InitTwice, s)
      else if req_ModuleId req \<noteq> m_ID M then (Inl (IdentityMismatch (req_ModuleId req) (m_ID M)), s)
      else if req_Protocol req \<noteq> ModuleProtocol
        then (Inl (ProtocolMismatch (req_Protocol req) ModuleProtocol), s)
      else case receive_config M (req_Config req) s of
        (Some e, s1) \<Rightarrow> (Inl (ModuleConfig e), s1)
      | (None, s1) \<Rightarrow>
          (case connectHost s1 grpc of
             Inl e \<Rightarrow> (Inl (ConnectingHost e), s1)
           | Inr host \<Rightarrow>
               (case run_prog (m_Init M (ms_module s1)) ctx host (ms_services s1) of
                  ((err, m'), host', sv') \<Rightarrow>
                    (let s2 = s1\<lparr>ms_module := m', ms_services := sv',
                                 ms_calls := ms_calls s1 @ [DidInit (err = None)]\<rparr> in
                     case err of
                       Some e \<Rightarrow> (Inl (ModuleInit e),
                                  s2\<lparr>ms_host := None, ms_closed := Close host' # ms_closed s2\<rparr>)
                     | None \<Rightarrow> finish_init M req host' s2))))"

section \<open>Start, Stop, Health, Shutdown\<close>

definition Start ::
  "'m Module \<Rightarrow> 'c \<Rightarrow> ('m, 'c, 's) moduleServer \<Rightarrow> (rpc_error + unit) \<times> ('m, 'c, 's) moduleServer" where
  "Start M ctx s =
     (if ms_state s \<noteq> stateInited then (Inl (StartInState (ms_state s)), s)
      else case ms_host s of
        None \<Rightarrow> (Inl NilHost, s)
      | Some host \<Rightarrow>
          (case run_prog (m_Start M (ms_module s)) ctx host (ms_services s) of
             ((err, m'), host', sv') \<Rightarrow>
               (let s1 = s\<lparr>ms_module := m', ms_services := sv', ms_host := Some host',
                           ms_calls := ms_calls s @ [DidStart (err = None)]\<rparr> in
                case err of
                  Some e \<Rightarrow> (Inl (ModuleStart e), s1)
                | None \<Rightarrow> (Inr (), s1\<lparr>ms_host := Some (startJobs host'), ms_state := stateStarted\<rparr>))))"

definition stopLocked ::
  "'m Module \<Rightarrow> 'c \<Rightarrow> u32 \<Rightarrow> ('m, 'c, 's) moduleServer \<Rightarrow>
   (rpc_error + unit) \<times> ('m, 'c, 's) moduleServer" where
  "stopLocked M ctx deadlineSeconds s =
     (if ms_state s \<noteq> stateStarted then (Inr (), s\<lparr>ms_state := stateStopped\<rparr>)
      else
        let deadline = (if deadlineSeconds > 0 then Some (seconds deadlineSeconds) else None) in
        case ms_host s of
          None \<Rightarrow> (Inl NilHost, s)
        | Some host \<Rightarrow>
            (case run_prog (m_Stop M deadline (ms_module s)) ctx (stopJobs host) (ms_services s) of
               ((err, m'), host', sv') \<Rightarrow>
                 (let s1 = s\<lparr>ms_module := m', ms_services := sv', ms_host := Some host',
                             ms_calls := ms_calls s @ [DidStop (err = None)]\<rparr> in
                  case err of
                    Some e \<Rightarrow> (Inl (ModuleStop e), s1)
                  | None \<Rightarrow> (Inr (), s1\<lparr>ms_state := stateStopped\<rparr>))))"

definition Stop ::
  "'m Module \<Rightarrow> 'c \<Rightarrow> u32 \<Rightarrow> ('m, 'c, 's) moduleServer \<Rightarrow>
   (rpc_error + unit) \<times> ('m, 'c, 's) moduleServer" where
  "Stop M ctx deadlineSeconds s = stopLocked M ctx deadlineSeconds s"

definition HealthRpc ::
  "'m Module \<Rightarrow> ('m, 'c, 's) moduleServer \<Rightarrow> HealthResponse \<times> ('m, 'c, 's) moduleServer" where
  "HealthRpc M s =
     (case m_Health M (ms_module s) of
        (h, m') \<Rightarrow>
          (\<lparr>hr_Status = ucast (h_Status h), hr_Reason = h_Reason h, hr_Details = h_Details h\<rparr>,
           s\<lparr>ms_module := m', ms_calls := ms_calls s @ [DidHealth]\<rparr>))"

definition Shutdown ::
  "'m Module \<Rightarrow> 'c \<Rightarrow> ('m, 'c, 's) moduleServer \<Rightarrow> (rpc_error + unit) \<times> ('m, 'c, 's) moduleServer" where
  "Shutdown M ctx s =
     (case stopLocked M ctx 0 s of
        (Inl e, s1) \<Rightarrow> (Inl e, s1)
      | (Inr _, s1) \<Rightarrow> (Inr (), s1\<lparr>ms_shutdown := offer 1 () (ms_shutdown s1)\<rparr>))"

text \<open>The callback handed to \<open>awaitDisconnect\<close>, run by one of the goroutines \<open>Init\<close> started.\<close>

definition hostLostSignal :: "('m, 'c, 's) moduleServer \<Rightarrow> ('m, 'c, 's) moduleServer" where
  "hostLostSignal s =
     (if ms_watching s = 0 then s
      else s\<lparr>ms_hostLost := map_option (offer 1 ()) (ms_hostLost s), ms_watching := ms_watching s - 1\<rparr>)"

section \<open>Runs\<close>

datatype ('c, 's) event =
    EInit 'c InitRequest "go_error + ('c, 's) rpc_clients"
  | EStart 'c
  | EStop 'c u32
  | EShutdown 'c
  | EHealth
  | EHostLost

fun handle ::
  "'m Module \<Rightarrow> ('c, 's) event \<Rightarrow> ('m, 'c, 's) moduleServer \<Rightarrow> bool \<times> ('m, 'c, 's) moduleServer" where
  "handle M (EInit ctx req grpc) s = (case Init M ctx req grpc s of (r, s') \<Rightarrow> (\<not> isl r, s'))"
| "handle M (EStart ctx) s = (case Start M ctx s of (r, s') \<Rightarrow> (\<not> isl r, s'))"
| "handle M (EStop ctx secs) s = (case Stop M ctx secs s of (r, s') \<Rightarrow> (\<not> isl r, s'))"
| "handle M (EShutdown ctx) s = (case Shutdown M ctx s of (r, s') \<Rightarrow> (\<not> isl r, s'))"
| "handle M EHealth s = (True, snd (HealthRpc M s))"
| "handle M EHostLost s = (True, hostLostSignal s)"

fun run_events ::
  "'m Module \<Rightarrow> ('c, 's) event list \<Rightarrow> ('m, 'c, 's) moduleServer \<Rightarrow> ('m, 'c, 's) moduleServer" where
  "run_events M [] s = s"
| "run_events M (e # es) s = run_events M es (snd (handle M e s))"

definition newServer ::
  "'m \<Rightarrow> 's \<Rightarrow> string \<Rightarrow> ('c \<Rightarrow> string \<Rightarrow> string \<Rightarrow> 'c) \<Rightarrow>
   (go_error \<Rightarrow> (grpc_code \<times> string) option) \<Rightarrow> ('m, 'c, 's) moduleServer" where
  "newServer m sv token md_append from_error =
     \<lparr>ms_module = m, ms_services = sv, ms_host = None, ms_token = token, ms_append = md_append,
      ms_from_error = from_error, ms_shutdown = [], ms_hostLost = Some [], ms_watching = 0,
      ms_healthInterval = 0, ms_state = stateCreated, ms_calls = [], ms_closed = []\<rparr>"

end
