(* ===== verification/LifecycleOrder.thy ===== *)
theory LifecycleOrder
  imports Lifecycle
begin

text \<open>
  Case rules of the lifecycle handlers, the server invariant, the order of the calls the
  runtime makes on the module, and the abstract lifecycle the handlers refine.
\<close>

section \<open>Case rules\<close>

lemma receive_config_elim:
  assumes "receive_config M doc s = (err, s1)"
  obtains (NoReceiver) "m_SetConfig M = None" "err = None" "s1 = s"
  | (Received) cr m' where "m_SetConfig M = Some cr" "cr doc (ms_module s) = (err, m')"
      "s1 = s\<lparr>ms_module := m', ms_calls := ms_calls s @ [DidSetConfig (err = None)]\<rparr>"
  using assms by (auto simp: receive_config_def split: option.splits prod.splits)

lemma collect_jobs_elim:
  assumes "collect_jobs M h s = (h2, s2)"
  obtains (NoJobs) "m_Jobs M = None" "h2 = h" "s2 = s"
  | (Collected) sched js m' where "m_Jobs M = Some sched" "sched (ms_module s) = (js, m')"
      "h2 = addJobs js h" "s2 = s\<lparr>ms_module := m', ms_calls := ms_calls s @ [DidJobs]\<rparr>"
  using assms by (auto simp: collect_jobs_def split: option.splits prod.splits)

lemma Init_elim:
  assumes "Init M ctx req grpc s = (r, s')"
  obtains (Refused) e where "r = Inl e" "s' = s" "rpc_code e = FailedPrecondition"
      "ms_state s \<noteq> stateCreated \<or> req_ModuleId req \<noteq> m_ID M \<or> req_Protocol req \<noteq> ModuleProtocol"
  | (ConfigError) e where "ms_state s = stateCreated"
      "receive_config M (req_Config req) s = (Some e, s')" "r = Inl (ModuleConfig e)"
  | (NoConnection) e where "ms_state s = stateCreated"
      "receive_config M (req_Config req) s = (None, s')" "connectHost s' grpc = Inl e"
      "r = Inl (ConnectingHost e)"
  | (InitError) e s1 host m' host' sv' where "ms_state s = stateCreated"
      "receive_config M (req_Config req) s = (None, s1)" "connectHost s1 grpc = Inr host"
      "run_prog (m_Init M (ms_module s1)) ctx host (ms_services s1) = ((Some e, m'), host', sv')"
      "r = Inl (ModuleInit e)"
      "s' = s1\<lparr>ms_module := m', ms_services := sv', ms_calls := ms_calls s1 @ [DidInit False],
               ms_host := None, ms_closed := Close host' # ms_closed s1\<rparr>"
  | (Inited) s1 host m' host' sv' where "ms_state s = stateCreated"
      "req_ModuleId req = m_ID M" "req_Protocol req = ModuleProtocol"
      "receive_config M (req_Config req) s = (None, s1)" "connectHost s1 grpc = Inr host"
      "run_prog (m_Init M (ms_module s1)) ctx host (ms_services s1) = ((None, m'), host', sv')"
      "finish_init M req host' (s1\<lparr>ms_module := m', ms_services := sv',
          ms_calls := ms_calls s1 @ [DidInit True]\<rparr>) = (r, s')"
proof (cases "ms_state s \<noteq> stateCreated \<or> req_ModuleId req \<noteq> m_ID M \<or> req_Protocol req \<noteq> ModuleProtocol")
  case True
  with assms have "s' = s \<and> (\<exists>e. r = Inl e \<and> rpc_code e = FailedPrecondition)"
    by (auto simp: Init_def split: if_splits)
  with True show ?thesis using Refused by blast
next
  case False
  obtain err s1 where rc: "receive_config M (req_Config req) s = (err, s1)" by fastforce
  show ?thesis
  proof (cases err)
    case (Some e)
    with False rc assms show ?thesis by (intro ConfigError) (auto simp: Init_def)
  next
    case None
    show ?thesis
    proof (cases "connectHost s1 grpc")
      case (Inl e)
      with False rc None assms show ?thesis by (intro NoConnection) (auto simp: Init_def)
    next
      case (Inr host)
      obtain ierr m' host' sv' where
        run: "run_prog (m_Init M (ms_module s1)) ctx host (ms_services s1) = ((ierr, m'), host', sv')"
        by (metis prod_cases4 surj_pair)
      show ?thesis
      proof (cases ierr)
        case (Some e)
        with False rc None Inr run assms show ?thesis
          by (intro InitError [of s1 host e m' host' sv']) (auto simp: Init_def Let_def)
      next
        case None': None
        with False rc None Inr run assms show ?thesis
          by (intro Inited [of s1 host m' host' sv']) (auto simp: Init_def Let_def)
      qed
    qed
  qed
qed

lemma finish_init_elim:
  assumes "finish_init M req h s = (r, s')"
  obtains h2 cs reqs where
    "r = Inr \<lparr>resp_Requires = reqs, resp_Surfaces = hc_surfaces h,
              resp_HealthIntervalSeconds = ms_healthInterval s\<rparr>"
    "ms_state s' = stateInited" "ms_host s' = Some h2" "ms_shutdown s' = ms_shutdown s"
    "ms_hostLost s' = ms_hostLost s" "ms_closed s' = ms_closed s"
    "ms_calls s' = ms_calls s @ cs" "cs = [DidRequires] \<or> cs = [DidJobs, DidRequires]"
    "hc_jobWG h2 = hc_jobWG h" "hc_jobCancel h2 = hc_jobCancel h" "hc_surfaces h2 = hc_surfaces h"
    "hc_cancelled h2 = hc_cancelled h" "hc_nextCtx h2 = hc_nextCtx h" "hc_started h2 = hc_started h"
    "hc_closed h2 = hc_closed h"
    "hc_watchdogInterval h2 =
       (if req_WatchdogIntervalSeconds req > 0 then seconds (req_WatchdogIntervalSeconds req)
        else hc_watchdogInterval h)"
proof -
  let ?h1 = "if req_WatchdogIntervalSeconds req > 0
    then setWatchdogInterval (seconds (req_WatchdogIntervalSeconds req)) h else h"
  obtain h2 s2 where cj: "collect_jobs M ?h1 (s\<lparr>ms_state := stateInited\<rparr>) = (h2, s2)" by fastforce
  obtain reqs m' where rq: "m_Requires M (ms_module s2) = (reqs, m')" by fastforce
  from cj show ?thesis
  proof (cases rule: collect_jobs_elim)
    case NoJobs
    with assms cj rq show ?thesis
      by (intro that [of reqs h2 "[DidRequires]"])
        (auto simp: finish_init_def Let_def setWatchdogInterval_def split: if_splits)
  next
    case (Collected sched js m2)
    with assms cj rq show ?thesis
      by (intro that [of reqs h2 "[DidJobs, DidRequires]"])
        (auto simp: finish_init_def Let_def setWatchdogInterval_def addJobs_def split: if_splits)
  qed
qed

lemma Start_elim:
  assumes "Start M ctx s = (r, s')"
  obtains (Refused) "ms_state s \<noteq> stateInited" "r = Inl (StartInState (ms_state s))" "s' = s"
  | (NoHost) "ms_state s = stateInited" "ms_host s = None" "r = Inl NilHost" "s' = s"
  | (Failed) e host m' host' sv' where "ms_state s = stateInited" "ms_host s = Some host"
      "run_prog (m_Start M (ms_module s)) ctx host (ms_services s) = ((Some e, m'), host', sv')"
      "r = Inl (ModuleStart e)"
      "s' = s\<lparr>ms_module := m', ms_services := sv', ms_host := Some host',
              ms_calls := ms_calls s @ [DidStart False]\<rparr>"
  | (Started) host m' host' sv' where "ms_state s = stateInited" "ms_host s = Some host"
      "run_prog (m_Start M (ms_module s)) ctx host (ms_services s) = ((None, m'), host', sv')"
      "r = Inr ()"
      "s' = s\<lparr>ms_module := m', ms_services := sv', ms_host := Some (startJobs host'),
              ms_calls := ms_calls s @ [DidStart True], ms_state := stateStarted\<rparr>"
proof (cases "ms_state s = stateInited")
  case False
  with assms show ?thesis by (intro Refused) (auto simp: Start_def)
next
  case True
  show ?thesis
  proof (cases "ms_host s")
    case None
    with True assms show ?thesis by (intro NoHost) (auto simp: Start_def)
  next
    case (Some host)
    obtain err m' host' sv' where
      run: "run_prog (m_Start M (ms_module s)) ctx host (ms_services s) = ((err, m'), host', sv')"
      by (metis prod_cases4 surj_pair)
    show ?thesis
    proof (cases err)
      case None
      with True Some run assms show ?thesis
        by (intro Started [of host m' host' sv']) (auto simp: Start_def Let_def)
    next
      case (Some e)
      with True \<open>ms_host s = Some host\<close> run assms show ?thesis
        by (intro Failed [of host e m' host' sv']) (auto simp: Start_def Let_def)
    qed
  qed
qed

lemma stopLocked_elim:
  assumes "stopLocked M ctx secs s = (r, s')"
  obtains (Idle) "ms_state s \<noteq> stateStarted" "r = Inr ()" "s' = s\<lparr>ms_state := stateStopped\<rparr>"
  | (NoHost) "ms_state s = stateStarted" "ms_host s = None" "r = Inl NilHost" "s' = s"
  | (Failed) e host m' host' sv' where "ms_state s = stateStarted" "ms_host s = Some host"
      "run_prog (m_Stop M (if secs > 0 then Some (seconds secs) else None) (ms_module s)) ctx
         (stopJobs host) (ms_services s) = ((Some e, m'), host', sv')"
      "r = Inl (ModuleStop e)"
      "s' = s\<lparr>ms_module := m', ms_services := sv', ms_host := Some host',
              ms_calls := ms_calls s @ [DidStop False]\<rparr>"
  | (Stopped) host m' host' sv' where "ms_state s = stateStarted" "ms_host s = Some host"
      "run_prog (m_Stop M (if secs > 0 then Some (seconds secs) else None) (ms_module s)) ctx
         (stopJobs host) (ms_services s) = ((None, m'), host', sv')"
      "r = Inr ()"
      "s' = s\<lparr>ms_module := m', ms_services := sv', ms_host := Some host',
              ms_calls := ms_calls s @ [DidStop True], ms_state := stateStopped\<rparr>"
proof (cases "ms_state s = stateStarted")
  case False
  with assms show ?thesis by (intro Idle) (auto simp: stopLocked_def)
next
  case True
  show ?thesis
  proof (cases "ms_host s")
    case None
    with True assms show ?thesis by (intro NoHost) (auto simp: stopLocked_def Let_def)
  next
    case (Some host)
    let ?d = "if secs > 0 then Some (seconds secs) else None"
    obtain err m' host' sv' where
      run: "run_prog (m_Stop M ?d (ms_module s)) ctx (stopJobs host) (ms_services s) =
        ((err, m'), host', sv')"
      by (metis prod_cases4 surj_pair)
    show ?thesis
    proof (cases err)
      case None
      with True Some run assms show ?thesis
        by (intro Stopped [of host m' host' sv']) (auto simp: stopLocked_def Let_def split del: if_split)
    next
      case (Some e)
      with True \<open>ms_host s = Some host\<close> run assms show ?thesis
        by (intro Failed [of host e m' host' sv']) (auto simp: stopLocked_def Let_def split del: if_split)
    qed
  qed
qed

section \<open>The server invariant\<close>

text \<open>
  What holds between handlers: a host client exists exactly while the module is initialised
  or started (and may linger once stopped), is open, and runs jobs only while started; the
  signal channels never exceed their capacity; every abandoned client is closed and idle.
\<close>

definition host_ok :: "moduleState \<Rightarrow> ('c, 's) hostClient option \<Rightarrow> bool" where
  "host_ok st host =
     (case host of
        None \<Rightarrow> st = stateCreated \<or> st = stateStopped
      | Some h \<Rightarrow> jobs_ok h \<and> \<not> hc_closed h \<and> st \<noteq> stateCreated \<and>
          (st = stateInited \<longrightarrow> \<not> hc_started h) \<and> (st = stateStarted \<longrightarrow> hc_started h) \<and>
          (st \<noteq> stateStarted \<longrightarrow> hc_jobCancel h = None))"

definition srv_ok :: "('m, 'c, 's) moduleServer \<Rightarrow> bool" where
  "srv_ok s \<longleftrightarrow>
     host_ok (ms_state s) (ms_host s) \<and> length (ms_shutdown s) \<le> 1 \<and>
     (\<forall>q. ms_hostLost s = Some q \<longrightarrow> length q \<le> 1) \<and>
     (\<forall>h \<in> set (ms_closed s). hc_closed h \<and> hc_jobWG h = [])"

lemma host_ok_None [simp]: "host_ok st None \<longleftrightarrow> st = stateCreated \<or> st = stateStopped"
  by (simp add: host_ok_def)

lemma srv_ok_newServer: "srv_ok (newServer m sv token md_append from_error)"
  by (simp add: srv_ok_def newServer_def)

definition fresh_host :: "('c, 's) hostClient \<Rightarrow> bool" where
  "fresh_host h \<longleftrightarrow> hc_jobs h = [] \<and> hc_surfaces h = [] \<and> hc_jobWG h = [] \<and> hc_jobCancel h = None \<and>
     \<not> hc_started h \<and> hc_cancelled h = [] \<and> \<not> hc_closed h \<and> hc_watchdogInterval h = 0"

lemma connectHost_fresh: "connectHost s grpc = Inr h \<Longrightarrow> fresh_host h \<and> jobs_ok h"
  by (auto simp: connectHost_def fresh_host_def dialHost_def jobs_ok_def split: sum.splits)

lemma receive_config_frame:
  assumes "receive_config M doc s = (err, s1)"
  shows "ms_state s1 = ms_state s" "ms_host s1 = ms_host s" "ms_shutdown s1 = ms_shutdown s"
    "ms_hostLost s1 = ms_hostLost s" "ms_closed s1 = ms_closed s"
    "ms_healthInterval s1 = ms_healthInterval s"
  using assms by (auto elim!: receive_config_elim)

lemma srv_ok_receive_config: "\<lbrakk>receive_config M doc s = (err, s1); srv_ok s\<rbrakk> \<Longrightarrow> srv_ok s1"
  by (simp add: srv_ok_def receive_config_frame)

lemma srv_ok_Init:
  assumes "Init M ctx req grpc s = (r, s')" "srv_ok s"
  shows "srv_ok s'"
  using assms(1)
proof (cases rule: Init_elim)
  case (InitError e s1 host m' host' sv')
  from InitError(2) assms(2) have ok: "srv_ok s1" by (rule srv_ok_receive_config)
  have st: "ms_state s1 = stateCreated" using InitError(1,2) by (simp add: receive_config_frame)
  have "hc_jobWG host' = []"
    using connectHost_fresh [OF InitError(3)] surfaces_extend_frame [OF run_prog_extend [OF InitError(4)]]
    by (simp add: fresh_host_def)
  with ok st show ?thesis unfolding InitError(6) by (simp add: srv_ok_def Close_def)
next
  case (Inited s1 host m' host' sv')
  from Inited(4) assms(2) have ok: "srv_ok s1" by (rule srv_ok_receive_config)
  note ext = run_prog_extend [OF Inited(6)]
  have "jobs_ok host'"
    using connectHost_fresh [OF Inited(5)] surfaces_extend_jobs_ok [OF ext] by blast
  moreover have "\<not> hc_started host'" "\<not> hc_closed host'" "hc_jobCancel host' = None"
    using connectHost_fresh [OF Inited(5)] surfaces_extend_frame [OF ext]
    by (simp_all add: fresh_host_def)
  ultimately show ?thesis
    using ok Inited(7)
    by (elim finish_init_elim) (simp add: srv_ok_def host_ok_def jobs_ok_def)
qed (use assms(2) in \<open>auto dest: srv_ok_receive_config\<close>)

lemma srv_ok_Start:
  assumes "Start M ctx s = (r, s')" "srv_ok s"
  shows "srv_ok s'"
  using assms(1)
proof (cases rule: Start_elim)
  case (Failed e host m' host' sv')
  note ext = run_prog_extend [OF Failed(3)]
  have "host_ok stateInited (Some host)" using assms(2) Failed(1,2) by (simp add: srv_ok_def)
  then have "host_ok stateInited (Some host')"
    using surfaces_extend_frame [OF ext] surfaces_extend_jobs_ok [OF ext] by (simp add: host_ok_def)
  with assms(2) Failed show ?thesis by (simp add: srv_ok_def)
next
  case (Started host m' host' sv')
  note ext = run_prog_extend [OF Started(3)]
  have "host_ok stateInited (Some host)" using assms(2) Started(1,2) by (simp add: srv_ok_def)
  then have "jobs_ok host'" "\<not> hc_closed host'" "hc_jobCancel host' = None"
    using surfaces_extend_frame [OF ext] surfaces_extend_jobs_ok [OF ext] by (simp_all add: host_ok_def)
  then have "host_ok stateStarted (Some (startJobs host'))"
    using jobs_ok_startJobs [of host'] by (simp add: host_ok_def startJobs_fresh)
  with assms(2) Started show ?thesis by (simp add: srv_ok_def)
qed (use assms(2) in simp_all)

lemma stopJobs_frame [simp]:
  "hc_started (stopJobs h) = hc_started h" "hc_closed (stopJobs h) = hc_closed h"
  "hc_surfaces (stopJobs h) = hc_surfaces h"
  by (cases "hc_jobCancel h"; simp add: stopJobs_None stopJobs_Some)+

lemma host_ok_stopped:
  "\<lbrakk>host_ok stateStarted (Some h); surfaces_extend (stopJobs h) h'\<rbrakk> \<Longrightarrow>
   host_ok stateStarted (Some h') \<and> host_ok stateStopped (Some h') \<and> hc_jobWG h' = []"
  using surfaces_extend_frame [of "stopJobs h" h'] surfaces_extend_jobs_ok [of "stopJobs h" h']
    jobs_ok_stopJobs [of h] stopJobs_empty [of h]
  by (simp add: host_ok_def)

lemma host_ok_stop_any: "host_ok st host \<Longrightarrow> st \<noteq> stateStarted \<Longrightarrow> host_ok stateStopped host"
  by (cases host) (auto simp: host_ok_def)

lemma srv_ok_stopLocked:
  assumes "stopLocked M ctx secs s = (r, s')" "srv_ok s"
  shows "srv_ok s'"
  using assms(1)
proof (cases rule: stopLocked_elim)
  case Idle
  with assms(2) show ?thesis by (auto simp: srv_ok_def dest: host_ok_stop_any)
next
  case (Failed e host m' host' sv')
  have "host_ok stateStarted (Some host)" using assms(2) Failed(1,2) by (simp add: srv_ok_def)
  with assms(2) Failed show ?thesis
    using host_ok_stopped [OF _ run_prog_extend [OF Failed(3)]] by (simp add: srv_ok_def)
next
  case (Stopped host m' host' sv')
  have "host_ok stateStarted (Some host)" using assms(2) Stopped(1,2) by (simp add: srv_ok_def)
  with assms(2) Stopped show ?thesis
    using host_ok_stopped [OF _ run_prog_extend [OF Stopped(3)]] by (simp add: srv_ok_def)
qed (use assms(2) in simp_all)

lemma Shutdown_elim:
  assumes "Shutdown M ctx s = (r, s')"
  obtains (Err) e where "stopLocked M ctx 0 s = (Inl e, s')" "r = Inl e"
  | (Ok) s1 where "stopLocked M ctx 0 s = (Inr (), s1)" "r = Inr ()"
      "s' = s1\<lparr>ms_shutdown := offer 1 () (ms_shutdown s1)\<rparr>"
  using assms by (auto simp: Shutdown_def split: prod.splits sum.splits)

lemma length_offer_one [simp]: "length (offer (Suc 0) x q) \<le> Suc 0 \<longleftrightarrow> length q \<le> Suc 0"
  by (auto simp: offer_def)

lemma srv_ok_hostLostSignal: "srv_ok s \<Longrightarrow> srv_ok (hostLostSignal s)"
  by (cases "ms_watching s = 0") (auto simp: hostLostSignal_def srv_ok_def)

lemma srv_ok_Shutdown: "\<lbrakk>Shutdown M ctx s = (r, s'); srv_ok s\<rbrakk> \<Longrightarrow> srv_ok s'"
  by (erule Shutdown_elim) (auto dest!: srv_ok_stopLocked simp: srv_ok_def)

lemma srv_ok_HealthRpc: "srv_ok s \<Longrightarrow> srv_ok (snd (HealthRpc M s))"
  by (simp add: HealthRpc_def srv_ok_def split: prod.splits)

lemma srv_ok_handle: "srv_ok s \<Longrightarrow> srv_ok (snd (handle M e s))"
proof (cases e)
  case (EInit ctx req grpc)
  assume "srv_ok s"
  then have "srv_ok (snd (Init M ctx req grpc s))" by (rule srv_ok_Init [OF surjective_pairing])
  with EInit show ?thesis by (simp add: case_prod_beta)
next
  case (EStart ctx)
  assume "srv_ok s"
  then have "srv_ok (snd (Start M ctx s))" by (rule srv_ok_Start [OF surjective_pairing])
  with EStart show ?thesis by (simp add: case_prod_beta)
next
  case (EStop ctx secs)
  assume "srv_ok s"
  then have "srv_ok (snd (stopLocked M ctx secs s))" by (rule srv_ok_stopLocked [OF surjective_pairing])
  with EStop show ?thesis by (simp add: case_prod_beta Stop_def)
next
  case (EShutdown ctx)
  assume "srv_ok s"
  then have "srv_ok (snd (Shutdown M ctx s))" by (rule srv_ok_Shutdown [OF surjective_pairing])
  with EShutdown show ?thesis by (simp add: case_prod_beta)
qed (simp_all add: srv_ok_HealthRpc srv_ok_hostLostSignal)

lemma srv_ok_run: "srv_ok s \<Longrightarrow> srv_ok (run_events M es s)"
  by (induction es arbitrary: s) (simp_all add: srv_ok_handle)

section \<open>The order of the calls on the module\<close>

datatype phase = PhNew | PhConfigured | PhInited | PhStarted | PhStopped

text \<open>
  \<open>cfg\<close> says whether the module implements \<open>ConfigReceiver\<close>.  A failed \<open>Init\<close> leads back to
  the start; \<open>Health\<close> may be called at any time.
\<close>

fun order_step :: "bool \<Rightarrow> phase \<Rightarrow> module_call \<Rightarrow> phase option" where
  "order_step cfg p DidHealth = Some p"
| "order_step cfg PhNew (DidSetConfig ok) = (if cfg then Some (if ok then PhConfigured else PhNew) else None)"
| "order_step cfg PhConfigured (DidSetConfig ok) = Some (if ok then PhConfigured else PhNew)"
| "order_step cfg PhNew (DidInit ok) = (if cfg then None else Some (if ok then PhInited else PhNew))"
| "order_step cfg PhConfigured (DidInit ok) = Some (if ok then PhInited else PhNew)"
| "order_step cfg PhInited DidJobs = Some PhInited"
| "order_step cfg PhInited DidRequires = Some PhInited"
| "order_step cfg PhInited (DidStart ok) = Some (if ok then PhStarted else PhInited)"
| "order_step cfg PhStarted (DidStop ok) = Some (if ok then PhStopped else PhStarted)"
| "order_step cfg p c = None"

fun order_run :: "bool \<Rightarrow> phase \<Rightarrow> module_call list \<Rightarrow> phase option" where
  "order_run cfg p [] = Some p"
| "order_run cfg p (c # cs) =
     (case order_step cfg p c of None \<Rightarrow> None | Some q \<Rightarrow> order_run cfg q cs)"

lemma order_run_append:
  "order_run cfg p (xs @ ys) =
     (case order_run cfg p xs of None \<Rightarrow> None | Some q \<Rightarrow> order_run cfg q ys)"
  by (induction xs arbitrary: p) (auto split: option.splits)

fun phase_ok :: "moduleState \<Rightarrow> phase \<Rightarrow> bool" where
  "phase_ok stateCreated p = (p = PhNew \<or> p = PhConfigured)"
| "phase_ok stateInited p = (p = PhInited)"
| "phase_ok stateStarted p = (p = PhStarted)"
| "phase_ok stateStopped p = True"

definition has_config :: "'m Module \<Rightarrow> bool" where
  "has_config M = (m_SetConfig M \<noteq> None)"

definition ordered :: "'m Module \<Rightarrow> ('m, 'c, 's) moduleServer \<Rightarrow> bool" where
  "ordered M s =
     (case order_run (has_config M) PhNew (ms_calls s) of
        None \<Rightarrow> False
      | Some p \<Rightarrow> phase_ok (ms_state s) p)"

lemma orderedI:
  "\<lbrakk>order_run (has_config M) PhNew (ms_calls s) = Some p; phase_ok (ms_state s) p\<rbrakk> \<Longrightarrow> ordered M s"
  by (simp add: ordered_def)

lemma orderedE:
  assumes "ordered M s"
  obtains p where "order_run (has_config M) PhNew (ms_calls s) = Some p" "phase_ok (ms_state s) p"
  using assms by (auto simp: ordered_def split: option.splits)

lemma ordered_cong:
  "\<lbrakk>ms_calls s' = ms_calls s; ms_state s' = ms_state s\<rbrakk> \<Longrightarrow> ordered M s' = ordered M s"
  by (simp add: ordered_def split: option.split)

lemma ordered_newServer: "ordered M (newServer m sv token md_append from_error)"
  by (simp add: ordered_def newServer_def)

lemma receive_config_phase:
  assumes "receive_config M doc s = (err, s1)" "ms_state s = stateCreated" "ordered M s"
  obtains p where "order_run (has_config M) PhNew (ms_calls s1) = Some p"
    "p = PhNew \<or> p = PhConfigured" "err = None \<Longrightarrow> has_config M \<Longrightarrow> p = PhConfigured"
  using assms(1)
proof (cases rule: receive_config_elim)
  case NoReceiver
  with assms that show ?thesis by (auto elim!: orderedE simp: has_config_def)
next
  case (Received cr m')
  from assms(2,3) obtain p where
    "order_run (has_config M) PhNew (ms_calls s) = Some p" "p = PhNew \<or> p = PhConfigured"
    by (auto elim!: orderedE)
  with Received that [of "if err = None then PhConfigured else PhNew"] show ?thesis
    by (auto simp: order_run_append has_config_def)
qed

lemma ordered_Init:
  assumes "Init M ctx req grpc s = (r, s')" "ordered M s"
  shows "ordered M s'"
  using assms(1)
proof (cases rule: Init_elim)
  case (ConfigError e)
  from ConfigError(2,1) assms(2) obtain p where
    "order_run (has_config M) PhNew (ms_calls s') = Some p" "p = PhNew \<or> p = PhConfigured"
    by (rule receive_config_phase) auto
  moreover have "ms_state s' = stateCreated"
    using ConfigError(1,2) by (simp add: receive_config_frame)
  ultimately show ?thesis by (intro orderedI) auto
next
  case (NoConnection e)
  from NoConnection(2,1) assms(2) obtain p where
    "order_run (has_config M) PhNew (ms_calls s') = Some p" "p = PhNew \<or> p = PhConfigured"
    by (rule receive_config_phase) auto
  moreover have "ms_state s' = stateCreated"
    using NoConnection(1,2) by (simp add: receive_config_frame)
  ultimately show ?thesis by (intro orderedI) auto
next
  case (InitError e s1 host m' host' sv')
  from InitError(2,1) assms(2) obtain p where
    "order_run (has_config M) PhNew (ms_calls s1) = Some p" "p = PhNew \<or> p = PhConfigured"
    "has_config M \<Longrightarrow> p = PhConfigured" by (rule receive_config_phase) auto
  with InitError show ?thesis
    by (intro orderedI [of _ _ PhNew]) (auto simp: order_run_append receive_config_frame)
next
  case (Inited s1 host m' host' sv')
  from Inited(4,1) assms(2) obtain p where
    p: "order_run (has_config M) PhNew (ms_calls s1) = Some p" "p = PhNew \<or> p = PhConfigured"
    "has_config M \<Longrightarrow> p = PhConfigured" by (rule receive_config_phase) auto
  from Inited(7) show ?thesis
    by (rule finish_init_elim) (use p in \<open>auto simp: order_run_append intro!: orderedI [of _ _ PhInited]\<close>)
qed (use assms(2) in simp)

lemma ordered_Start:
  assumes "Start M ctx s = (r, s')" "ordered M s"
  shows "ordered M s'"
  using assms(1)
proof (cases rule: Start_elim)
  case (Failed e host m' host' sv')
  with assms(2) show ?thesis
    by (auto elim!: orderedE simp: order_run_append intro!: orderedI [of _ _ PhInited])
next
  case (Started host m' host' sv')
  with assms(2) show ?thesis
    by (auto elim!: orderedE simp: order_run_append intro!: orderedI [of _ _ PhStarted])
qed (use assms(2) in simp_all)

lemma ordered_stopLocked:
  assumes "stopLocked M ctx secs s = (r, s')" "ordered M s"
  shows "ordered M s'"
  using assms(1)
proof (cases rule: stopLocked_elim)
  case Idle
  with assms(2) show ?thesis by (auto elim!: orderedE intro: orderedI)
next
  case (Failed e host m' host' sv')
  with assms(2) show ?thesis
    by (auto elim!: orderedE simp: order_run_append intro!: orderedI [of _ _ PhStarted])
next
  case (Stopped host m' host' sv')
  with assms(2) show ?thesis
    by (auto elim!: orderedE simp: order_run_append intro!: orderedI [of _ _ PhStopped])
qed (use assms(2) in simp_all)

lemma ordered_Shutdown: "\<lbrakk>Shutdown M ctx s = (r, s'); ordered M s\<rbrakk> \<Longrightarrow> ordered M s'"
  by (erule Shutdown_elim)
    (auto dest!: ordered_stopLocked simp: ordered_cong [of "_\<lparr>ms_shutdown := _\<rparr>"])

lemma ordered_HealthRpc: "ordered M s \<Longrightarrow> ordered M (snd (HealthRpc M s))"
  by (auto elim!: orderedE simp: HealthRpc_def order_run_append intro!: orderedI split: prod.splits)

lemma ordered_hostLostSignal: "ordered M s \<Longrightarrow> ordered M (hostLostSignal s)"
  by (simp add: hostLostSignal_def ordered_cong [of "_\<lparr>ms_hostLost := _, ms_watching := _\<rparr>" s])

lemma ordered_handle: "ordered M s \<Longrightarrow> ordered M (snd (handle M e s))"
  by (cases e)
    (simp_all add: case_prod_beta Stop_def ordered_HealthRpc ordered_hostLostSignal
      ordered_Init [OF surjective_pairing] ordered_Start [OF surjective_pairing]
      ordered_stopLocked [OF surjective_pairing] ordered_Shutdown [OF surjective_pairing])

lemma ordered_run: "ordered M s \<Longrightarrow> ordered M (run_events M es s)"
  by (induction es arbitrary: s) (simp_all add: ordered_handle)

text \<open>What the automaton says of any split of an accepted call sequence.\<close>

definition phase_facts :: "phase \<Rightarrow> module_call list \<Rightarrow> bool" where
  "phase_facts p xs \<longleftrightarrow>
     (DidInit True \<in> set xs \<longleftrightarrow> p \<in> {PhInited, PhStarted, PhStopped}) \<and>
     (DidStart True \<in> set xs \<longleftrightarrow> p \<in> {PhStarted, PhStopped}) \<and>
     (DidStop True \<in> set xs \<longleftrightarrow> p = PhStopped)"

lemma phase_facts_step:
  "\<lbrakk>phase_facts p xs; order_step cfg p c = Some q\<rbrakk> \<Longrightarrow> phase_facts q (xs @ [c])"
  by (cases "(cfg, p, c)" rule: order_step.cases) (auto simp: phase_facts_def split: if_splits)

lemma order_run_facts: "order_run cfg PhNew xs = Some p \<Longrightarrow> phase_facts p xs"
proof (induction xs arbitrary: p rule: rev_induct)
  case (snoc c xs)
  then obtain q where "order_run cfg PhNew xs = Some q" "order_step cfg q c = Some p"
    by (auto simp: order_run_append split: option.splits)
  with snoc.IH show ?case by (blast intro: phase_facts_step)
qed (simp add: phase_facts_def)

lemma order_run_split:
  assumes "order_run cfg PhNew (xs @ c # ys) = Some r"
  obtains p q where "phase_facts p xs" "order_step cfg p c = Some q"
  using assms order_run_facts [of cfg xs] by (auto simp: order_run_append split: option.splits)

lemma ordered_split:
  assumes "ordered M s" "ms_calls s = xs @ c # ys"
  obtains p q where "phase_facts p xs" "order_step (has_config M) p c = Some q"
proof -
  from assms obtain r where "order_run (has_config M) PhNew (xs @ c # ys) = Some r"
    by (auto elim: orderedE)
  then show ?thesis by (rule order_run_split) (rule that)
qed

section \<open>The abstract lifecycle\<close>

datatype lc_op = OpInit | OpStart | OpStop | OpOther

fun op_of :: "('c, 's) event \<Rightarrow> lc_op" where
  "op_of (EInit ctx req grpc) = OpInit"
| "op_of (EStart ctx) = OpStart"
| "op_of (EStop ctx secs) = OpStop"
| "op_of (EShutdown ctx) = OpStop"
| "op_of EHealth = OpOther"
| "op_of EHostLost = OpOther"

text \<open>\<open>lc_step a op ok b\<close>: an operation in state \<open>a\<close> may answer \<open>ok\<close> and leave state \<open>b\<close>.\<close>

inductive lc_step :: "moduleState \<Rightarrow> lc_op \<Rightarrow> bool \<Rightarrow> moduleState \<Rightarrow> bool" where
  init_ok: "lc_step stateCreated OpInit True stateInited"
| init_refused: "lc_step st OpInit False st"
| start_ok: "lc_step stateInited OpStart True stateStarted"
| start_refused: "lc_step st OpStart False st"
| stop_idle: "st \<noteq> stateStarted \<Longrightarrow> lc_step st OpStop True stateStopped"
| stop_ok: "lc_step stateStarted OpStop True stateStopped"
| stop_failed: "lc_step stateStarted OpStop False stateStarted"
| other: "lc_step st OpOther True st"

code_pred lc_step .

inductive_cases lc_stepE: "lc_step a op ok b"
inductive_simps lc_step_Stopped: "lc_step stateStopped op ok b"

lemma lc_step_mono: "lc_step a op ok b \<Longrightarrow> a \<le> b"
  by (elim lc_stepE; cases a) (simp_all add: state_order)

lemma lc_step_Init: "Init M ctx req grpc s = (r, s') \<Longrightarrow> lc_step (ms_state s) OpInit (\<not> isl r) (ms_state s')"
proof (erule Init_elim, goal_cases)
  case (5 s1 host m' host' sv')
  from 5(7) show ?case by (rule finish_init_elim) (use 5(1) in \<open>simp add: lc_step.intros\<close>)
qed (auto simp: receive_config_frame intro: lc_step.intros)

lemma lc_step_Start: "Start M ctx s = (r, s') \<Longrightarrow> lc_step (ms_state s) OpStart (\<not> isl r) (ms_state s')"
  by (erule Start_elim) (auto intro: lc_step.intros)

lemma lc_step_stopLocked:
  "stopLocked M ctx secs s = (r, s') \<Longrightarrow> lc_step (ms_state s) OpStop (\<not> isl r) (ms_state s')"
  by (erule stopLocked_elim) (auto intro: lc_step.intros)

lemma lc_step_Shutdown:
  "Shutdown M ctx s = (r, s') \<Longrightarrow> lc_step (ms_state s) OpStop (\<not> isl r) (ms_state s')"
  by (erule Shutdown_elim) (auto dest!: lc_step_stopLocked)

lemma handle_refines: "lc_step (ms_state s) (op_of e) (fst (handle M e s)) (ms_state (snd (handle M e s)))"
  by (cases e)
    (auto simp: case_prod_beta Stop_def HealthRpc_def hostLostSignal_def
      intro: lc_step.intros lc_step_Init [OF surjective_pairing] lc_step_Start [OF surjective_pairing]
        lc_step_stopLocked [OF surjective_pairing] lc_step_Shutdown [OF surjective_pairing])

lemma run_events_mono: "ms_state s \<le> ms_state (run_events M es s)"
proof (induction es arbitrary: s)
  case (Cons e es)
  have "ms_state s \<le> ms_state (snd (handle M e s))" by (rule lc_step_mono) (rule handle_refines)
  also have "\<dots> \<le> ms_state (run_events M es (snd (handle M e s)))" by (rule Cons.IH)
  finally show ?case by simp
qed simp

end
