(* ===== verification/ToyModule.thy ===== *)
theory ToyModule
  imports Lifecycle
begin

text \<open>
  The SDK's integration-test module (\<open>modulesdk/testkit/testdata/toymodule/main.go\<close>) as a
  \<open>Module\<close> of the model, and a server that runs it against the stub host services.  Its only
  field is the host handle, which the model threads itself, so its state is \<open>unit\<close>.

  \<open>plain_append\<close> and \<open>plain_get\<close> are the concrete metadata used wherever a closed instance is
  needed: a context is the list of its key/value pairs.
\<close>

section \<open>Concrete metadata\<close>

type_synonym plain_ctx = "(string \<times> string) list"

definition plain_append :: "plain_ctx \<Rightarrow> string \<Rightarrow> string \<Rightarrow> plain_ctx" where
  "plain_append ctx k v = ctx @ [(k, v)]"

definition plain_get :: "plain_ctx \<Rightarrow> string \<Rightarrow> string list" where
  "plain_get ctx k = map snd (filter (\<lambda>p. fst p = k) ctx)"

section \<open>The toy module\<close>

definition toy_card :: Surface where
  "toy_card = \<lparr>srf_ID = ''toy-card'', srf_Title = ''Toy'', srf_Kind = ''card'', srf_Data = []\<rparr>"

definition toy_heartbeat :: Message where
  "toy_heartbeat = \<lparr>msg_Peer = PeerGateWeave, msg_Kind = ''heartbeat'', msg_Data = ''beat''\<rparr>"

definition return_err :: "host_reply \<Rightarrow> (go_error option \<times> unit) prog" where
  "return_err r = (case r of RepErr e \<Rightarrow> Return (Some e, ()) | _ \<Rightarrow> Return (None, ()))"

definition toy_Init :: "unit \<Rightarrow> (go_error option \<times> unit) prog" where
  "toy_Init _ =
     Call (CallStorePut [] ''init-key'' ''init-value'')
       (\<lambda>r. case r of
          RepErr e \<Rightarrow> Return (Some e, ())
        | _ \<Rightarrow> Call (CallDeclare [toy_card]) return_err)"

definition toy_Start :: "unit \<Rightarrow> (go_error option \<times> unit) prog" where
  "toy_Start _ =
     Call (CallPublish ''started'' ''hello'')
       (\<lambda>r. case r of
          RepErr e \<Rightarrow> Return (Some e, ())
        | _ \<Rightarrow> Call (CallSend toy_heartbeat False) return_err)"

definition toy :: "unit Module" where
  "toy =
     \<lparr>m_ID = ''toy'', m_Requires = (\<lambda>m. ([''test.cap''], m)), m_Init = toy_Init,
      m_Start = toy_Start, m_Stop = (\<lambda>_ _. Return (None, ())),
      m_Health = (\<lambda>m. (\<lparr>h_Status = HealthHealthy, h_Reason = [], h_Details = Map.empty\<rparr>, m)),
      m_SetConfig = None, m_Jobs = None\<rparr>"

lemma toy_sel [simp]:
  "m_ID toy = ''toy''" "m_Requires toy = (\<lambda>m. ([''test.cap''], m))" "m_Init toy = toy_Init"
  "m_Start toy = toy_Start" "m_Stop toy = (\<lambda>_ _. Return (None, ()))"
  "m_SetConfig toy = None" "m_Jobs toy = None"
  by (simp_all add: toy_def)

lemma m_Health_toy:
  "m_Health toy = (\<lambda>m. (\<lparr>h_Status = HealthHealthy, h_Reason = [], h_Details = Map.empty\<rparr>, m))"
  by (simp add: toy_def)

lemma toy_Init_run:
  assumes "stub_served md_get moduleID seed now h ctx" "\<not> hc_started h"
  shows "run_prog (toy_Init u) ctx h d =
    ((None, ()), h\<lparr>hc_surfaces := hc_surfaces h @ [toy_card]\<rparr>, StorePut ''init-key'' ''init-value'' d)"
  using assms
  by (simp add: toy_Init_def stub_store_ops StoreOf_def as_reply_def Declare_def return_err_def)

lemma toy_Start_run:
  assumes "stub_served md_get moduleID seed now h ctx"
  shows "run_prog (toy_Start u) ctx h d =
    ((None, ()), h,
     RecordSend \<lparr>sm_Peer = 1, sm_Kind = ''heartbeat'', sm_Data = ''beat'', sm_QueueOffline = False\<rparr>
       (Publish now (moduleID @ ''.started'') ''hello'' d))"
  using assms
  by (simp add: toy_Start_def stub_publish stub_send as_reply_def return_err_def toy_heartbeat_def
      PeerGateWeave_def)

section \<open>A server running it\<close>

definition toy_server :: "(unit, plain_ctx, HostData) moduleServer" where
  "toy_server = newServer () NewHostData ''tok'' plain_append plain_from_error"

definition toy_rpc :: "(plain_ctx, HostData) rpc_clients" where
  "toy_rpc = registerHostServices plain_get ''tok'' ''toy'' 0 0 idle_lives"

definition toy_request :: InitRequest where
  "toy_request = \<lparr>req_ModuleId = ''toy'', req_Protocol = 1, req_Config = [], req_WatchdogIntervalSeconds = 5\<rparr>"

definition toy_host :: "(plain_ctx, HostData) hostClient" where
  "toy_host =
     \<lparr>hc_token = ''tok'', hc_append = plain_append, hc_from_error = plain_from_error, hc_rpc = toy_rpc,
      hc_closed = False, hc_surfaces = [], hc_jobs = [], hc_watchdogInterval = 0,
      hc_jobCancel = None, hc_jobCtx = None, hc_jobWG = [], hc_started = False,
      hc_nextCtx = 0, hc_cancelled = []\<rparr>"

lemma toy_host_served: "stub_served plain_get ''toy'' 0 0 toy_host []"
  by (auto simp: stub_served_def toy_host_def toy_rpc_def withToken_def plain_get_def plain_append_def
      TokenMetadataKey_def)

definition toy_data :: HostData where
  "toy_data = StorePut ''init-key'' ''init-value'' NewHostData"

text \<open>The server once \<open>Init\<close> has answered.\<close>

definition toy_inited :: "(unit, plain_ctx, HostData) moduleServer" where
  "toy_inited = toy_server\<lparr>ms_services := toy_data,
     ms_host := Some (toy_host\<lparr>hc_surfaces := [toy_card], hc_watchdogInterval := seconds 5\<rparr>),
     ms_watching := 1, ms_state := stateInited, ms_calls := [DidInit True, DidRequires]\<rparr>"

lemma toy_Init_ok:
  "Init toy [] toy_request (Inr toy_rpc) toy_server =
     (Inr \<lparr>resp_Requires = [''test.cap''], resp_Surfaces = [toy_card], resp_HealthIntervalSeconds = 0\<rparr>,
      toy_inited)"
proof -
  have host: "connectHost toy_server (Inr toy_rpc) = Inr toy_host"
    by (simp add: connectHost_def dialHost_def toy_server_def newServer_def toy_host_def)
  have run: "run_prog (toy_Init u) [] toy_host NewHostData =
      ((None, ()), toy_host\<lparr>hc_surfaces := [toy_card]\<rparr>, toy_data)" for u
    using toy_Init_run [OF toy_host_served] by (simp add: toy_host_def toy_data_def)
  show ?thesis
    unfolding Init_def receive_config_def toy_sel option.case prod.case host sum.case
    by (simp add: run toy_request_def ModuleProtocol_def finish_init_def collect_jobs_def
        setWatchdogInterval_def toy_inited_def toy_server_def newServer_def)
qed

end
