(* ===== verification/LifecycleProps.thy ===== *)
theory LifecycleProps
  imports LifecycleOrder ToyModule
begin

text \<open>
  The properties of the lifecycle server.  \<open>reached M s\<close> says \<open>s\<close> is the state of a server
  after some sequence of handler executions from a new one.
\<close>

definition reached :: "'m Module \<Rightarrow> ('m, 'c, 's) moduleServer \<Rightarrow> bool" where
  "reached M s \<longleftrightarrow>
     (\<exists>m sv token md_append from_error es.
        s = run_events M es (newServer m sv token md_append from_error))"

lemma reached_new [intro]: "reached M (newServer m sv token md_append from_error)"
  unfolding reached_def by (metis run_events.simps(1))

lemma run_events_append: "run_events M (es @ fs) s = run_events M fs (run_events M es s)"
  by (induction es arbitrary: s) auto

lemma reached_handle: "reached M s \<Longrightarrow> reached M (snd (handle M e s))"
proof -
  assume "reached M s"
  then obtain m sv token ap fe es where "s = run_events M es (newServer m sv token ap fe)"
    unfolding reached_def by blast
  then have "snd (handle M e s) = run_events M (es @ [e]) (newServer m sv token ap fe)"
    by (simp add: run_events_append)
  then show ?thesis unfolding reached_def by blast
qed

lemma reached_srv_ok: "reached M s \<Longrightarrow> srv_ok s"
  by (auto simp: reached_def intro: srv_ok_run srv_ok_newServer)

lemma reached_ordered: "reached M s \<Longrightarrow> ordered M s"
  by (auto simp: reached_def intro: ordered_run ordered_newServer)

lemma stopLocked_idle_jobs:
  assumes "stopLocked M ctx secs s = (r, s')" "srv_ok s" "ms_host s' = Some h"
  shows "hc_jobWG h = [] \<and> hc_jobCancel h = None"
  using assms(1)
proof (cases rule: stopLocked_elim)
  case Idle
  with assms(2,3) have "jobs_ok h" "hc_jobCancel h = None" by (auto simp: srv_ok_def host_ok_def)
  then show ?thesis by (simp add: jobs_ok_None)
next
  case (Failed e host m' host' sv')
  have "host_ok stateStarted (Some host)" using assms(2) Failed(1,2) by (simp add: srv_ok_def)
  with Failed(5) assms(3) stopJobs_empty [of host] surfaces_extend_frame [OF run_prog_extend [OF Failed(3)]]
  show ?thesis by (simp add: host_ok_def)
next
  case (Stopped host m' host' sv')
  have "host_ok stateStarted (Some host)" using assms(2) Stopped(1,2) by (simp add: srv_ok_def)
  with Stopped(5) assms(3) stopJobs_empty [of host] surfaces_extend_frame [OF run_prog_extend [OF Stopped(3)]]
  show ?thesis by (simp add: host_ok_def)
qed (use assms(3) in simp)

section \<open>The toy module's run, for the witnesses\<close>

definition toy_started :: "(unit, plain_ctx, HostData) moduleServer" where
  "toy_started = snd (Start toy [] toy_inited)"

lemma toy_host_served': "stub_served plain_get ''toy'' 0 0 (toy_host\<lparr>hc_surfaces := ss, hc_watchdogInterval := d\<rparr>) []"
  using toy_host_served by (simp add: stub_served_def withToken_def)

definition toy_running_host :: "(plain_ctx, HostData) hostClient" where
  "toy_running_host = startJobs (toy_host\<lparr>hc_surfaces := [toy_card], hc_watchdogInterval := seconds 5\<rparr>)"

lemma toy_Start_ok:
  "Start toy [] toy_inited = (Inr (), toy_started)"
  "ms_host toy_started = Some toy_running_host"
  "ms_calls toy_started = [DidInit True, DidRequires, DidStart True]"
  "ms_state toy_started = stateStarted"
  using toy_Start_run [OF toy_host_served' [of "seconds 5" "[toy_card]"], of "()" toy_data]
  by (simp_all add: toy_started_def Start_def toy_inited_def toy_running_host_def)

lemma reached_toy:
  "reached toy toy_server" "reached toy toy_inited" "reached toy toy_started"
proof -
  show s: "reached toy toy_server" unfolding toy_server_def by blast
  show i: "reached toy toy_inited"
    using reached_handle [OF s, of "EInit [] toy_request (Inr toy_rpc)"] by (simp add: toy_Init_ok)
  show "reached toy toy_started"
    using reached_handle [OF i, of "EStart []"] by (simp add: toy_Start_ok(1))
qed

lemma toy_running_host_jobs:
  "hc_jobWG toy_running_host = [(0, WatchdogLoop (seconds 5))]" "hc_jobCancel toy_running_host = Some 0"
  using seconds_positive [of 5]
  by (simp_all add: toy_running_host_def startJobs_fresh toy_host_def)

section \<open>Properties\<close>

text \<open>
  C1: whatever RPCs core sends, in whatever order and however often, the calls the runtime
  makes on the module follow the lifecycle: \<open>SetConfig\<close> (when implemented) before each
  \<open>Init\<close> attempt, nothing but \<open>Init\<close> attempts until one succeeds, then \<open>Start\<close> attempts
  until one succeeds, then \<open>Stop\<close> attempts until one succeeds, then nothing; \<open>Health\<close> may
  come anywhere.  The server's state is the one that phase stands for.
\<close>
theorem module_calls_in_order:
  "\<exists>p. order_run (has_config M) PhNew
         (ms_calls (run_events M es (newServer m sv token md_append from_error))) = Some p \<and>
       phase_ok (ms_state (run_events M es (newServer m sv token md_append from_error))) p"
  using ordered_run [OF ordered_newServer, of M es] by (blast elim: orderedE)

text \<open>
  In particular no module ever sees \<open>Init\<close> after a successful \<open>Init\<close>, \<open>Start\<close> without a
  successful \<open>Init\<close> or after a successful \<open>Start\<close>, nor \<open>Stop\<close> without a successful \<open>Start\<close>
  or after a successful \<open>Stop\<close>.
\<close>
lemma module_call_preconditions:
  assumes "reached M s" and "ms_calls s = before @ c # after"
  shows "(case c of
            DidInit ok \<Rightarrow> DidInit True \<notin> set before
          | DidStart ok \<Rightarrow> DidInit True \<in> set before \<and> DidStart True \<notin> set before
          | DidStop ok \<Rightarrow> DidStart True \<in> set before \<and> DidStop True \<notin> set before
          | _ \<Rightarrow> True)"
proof -
  from ordered_split [OF reached_ordered [OF assms(1)] assms(2)] obtain p q where
    "phase_facts p before" "order_step (has_config M) p c = Some q" .
  then show ?thesis
    by (cases "(has_config M, p, c)" rule: order_step.cases) (auto simp: phase_facts_def)
qed

lemma module_call_preconditions_witness:
  "DidInit True \<in> set [DidInit True, DidRequires] \<and> DidStart True \<notin> set [DidInit True, DidRequires]"
  using module_call_preconditions [OF reached_toy(3), of "[DidInit True, DidRequires]" "DidStart True" "[]"]
  by (simp add: toy_Start_ok)

text \<open>
  C2: every handler implements the abstract lifecycle: from any server state, what \<open>Init\<close>,
  \<open>Start\<close>, \<open>Stop\<close>, \<open>Shutdown\<close> and \<open>Health\<close> answer and the state they leave is a step of
  \<open>lc_step\<close>.
\<close>
theorem lifecycle_refines_spec:
  "lc_step (ms_state s) (op_of e) (fst (handle M e s)) (ms_state (snd (handle M e s)))"
  by (rule handle_refines)

text \<open>
  The lifecycle state never goes back, over any sequence of RPCs; a stopped server stays
  stopped.
\<close>
lemma lifecycle_never_goes_back:
  "ms_state s \<le> ms_state (run_events M es s)"
  by (rule run_events_mono)

text \<open>
  C20: \<open>Init\<close> succeeds exactly when it is the first successful one, core and binary agree on
  the module id, the protocol is the built one, the module takes its configuration, the host
  connection is made and the module's own \<open>Init\<close> returns nil.
\<close>
theorem Init_succeeds_iff:
  "(\<exists>resp s'. Init M ctx req grpc s = (Inr resp, s')) \<longleftrightarrow>
     ms_state s = stateCreated \<and> req_ModuleId req = m_ID M \<and> req_Protocol req = ModuleProtocol \<and>
     (\<exists>s1 host m' host' sv'.
        receive_config M (req_Config req) s = (None, s1) \<and> connectHost s1 grpc = Inr host \<and>
        run_prog (m_Init M (ms_module s1)) ctx host (ms_services s1) = ((None, m'), host', sv'))"
  (is "?L \<longleftrightarrow> ?R")
proof
  assume ?L
  then obtain resp s' where "Init M ctx req grpc s = (Inr resp, s')" by blast
  then show ?R by (rule Init_elim) auto
next
  assume ?R
  then obtain s1 host m' host' sv' where h: "ms_state s = stateCreated" "req_ModuleId req = m_ID M"
    "req_Protocol req = ModuleProtocol" "receive_config M (req_Config req) s = (None, s1)"
    "connectHost s1 grpc = Inr host"
    "run_prog (m_Init M (ms_module s1)) ctx host (ms_services s1) = ((None, m'), host', sv')"
    by blast
  obtain r s' where fin: "finish_init M req host' (s1\<lparr>ms_module := m', ms_services := sv',
      ms_calls := ms_calls s1 @ [DidInit True]\<rparr>) = (r, s')" by fastforce
  then have "\<exists>resp. r = Inr resp" by (rule finish_init_elim) blast
  moreover have "Init M ctx req grpc s = (r, s')" using h fin by (simp add: Init_def Let_def)
  ultimately show ?L by blast
qed

text \<open>
  A second \<open>Init\<close>, a module-id mismatch and a protocol mismatch are refused with
  FailedPrecondition before anything happens: no configuration is delivered, no connection
  dialed, no module method called, the state untouched.
\<close>
lemma Init_refuses_untouched:
  assumes "ms_state s \<noteq> stateCreated \<or> req_ModuleId req \<noteq> m_ID M \<or> req_Protocol req \<noteq> ModuleProtocol"
  shows "\<exists>e. Init M ctx req grpc s = (Inl e, s) \<and> rpc_code e = FailedPrecondition"
  using assms by (auto simp: Init_def)

lemma Init_refuses_untouched_witness:
  "\<exists>e. Init toy [] (toy_request\<lparr>req_ModuleId := ''impostor''\<rparr>) (Inr toy_rpc) toy_server = (Inl e, toy_server) \<and>
       rpc_code e = FailedPrecondition"
  by (rule Init_refuses_untouched) (simp add: toy_request_def)

text \<open>
  When the module's own \<open>Init\<close> fails, the server answers Internal, keeps no host client,
  has closed the one it dialed with no job running on it, and is back in the created state.
\<close>
lemma failed_Init_releases_host:
  assumes "Init M ctx req grpc s = (Inl (ModuleInit e), s')" and "reached M s"
  shows "ms_state s' = stateCreated \<and> ms_host s' = None \<and>
    (\<exists>h. ms_closed s' = h # ms_closed s \<and> hc_closed h \<and> hc_jobWG h = [])"
  using assms(1)
proof (cases rule: Init_elim)
  case (InitError e' s1 host m' host' sv')
  have "srv_ok s'" using assms by (blast intro: srv_ok_Init reached_srv_ok)
  with InitError show ?thesis by (simp add: receive_config_frame srv_ok_def)
qed (auto elim: finish_init_elim)

definition toy_wrong_rpc :: "(plain_ctx, HostData) rpc_clients" where
  "toy_wrong_rpc = registerHostServices plain_get ''other'' ''toy'' 0 0 idle_lives"

lemma toy_Init_refused:
  "\<exists>e s'. Init toy [] toy_request (Inr toy_wrong_rpc) toy_server = (Inl (ModuleInit e), s') \<and>
     ms_calls s' = [DidInit False] \<and> s' = toy_server\<lparr>ms_calls := [DidInit False], ms_closed := ms_closed s'\<rparr>"
  by (simp add: Init_def toy_request_def toy_server_def newServer_def ModuleProtocol_def receive_config_def
      connectHost_def dialHost_def toy_Init_def storePut_def toy_wrong_rpc_def registerHostServices_def
      unary_guard_refuse plain_get_def plain_append_def withToken_def TokenMetadataKey_def
      intercept_def as_reply_def)

lemma failed_Init_releases_host_witness:
  "\<exists>s' e. Init toy [] toy_request (Inr toy_wrong_rpc) toy_server = (Inl (ModuleInit e), s') \<and>
     ms_state s' = stateCreated \<and> ms_host s' = None \<and>
     (\<exists>h. ms_closed s' = h # ms_closed toy_server \<and> hc_closed h \<and> hc_jobWG h = [])"
  using toy_Init_refused failed_Init_releases_host [OF _ reached_toy(1)] by blast

text \<open>
  After \<open>Stop\<close> or \<open>Shutdown\<close> has run its course, whether it succeeded or the module's own
  \<open>Stop\<close> failed, no job and no watchdog goroutine is left and nothing can start one again.
\<close>
lemma Stop_leaves_no_jobs:
  assumes "reached M s" and "Stop M ctx secs s = (r, s')" and "ms_host s' = Some h"
  shows "hc_jobWG h = [] \<and> hc_jobCancel h = None \<and> ms_state s' \<in> {stateStarted, stateStopped}"
proof -
  from assms have "hc_jobWG h = [] \<and> hc_jobCancel h = None"
    unfolding Stop_def by (intro stopLocked_idle_jobs [OF _ reached_srv_ok])
  moreover from assms(2) have "ms_state s' \<in> {stateStarted, stateStopped}"
    unfolding Stop_def by (elim stopLocked_elim) auto
  ultimately show ?thesis by blast
qed

lemma Stop_leaves_no_jobs_witness:
  "\<exists>r s' h. Stop toy [] 5 toy_started = (r, s') \<and> ms_host s' = Some h \<and>
     hc_jobWG h = [] \<and> hc_jobCancel h = None \<and> ms_state s' \<in> {stateStarted, stateStopped}"
proof -
  obtain r s' where st: "Stop toy [] 5 toy_started = (r, s')" by fastforce
  then have "ms_host s' = Some (stopJobs toy_running_host)"
    by (auto simp: Stop_def stopLocked_def toy_Start_ok Let_def)
  with st Stop_leaves_no_jobs [OF reached_toy(3) st] show ?thesis by blast
qed

text \<open>
  C32: jobs run only in the started state, and only under the one context that the next
  \<open>Stop\<close> cancels.
\<close>
theorem jobs_only_while_started:
  assumes "reached M s" and "ms_host s = Some h" and "(ctx, g) \<in> set (hc_jobWG h)"
  shows "ms_state s = stateStarted \<and> hc_jobCancel h = Some ctx \<and> ctx \<notin> set (hc_cancelled h)"
proof -
  have "host_ok (ms_state s) (Some h)"
    using reached_srv_ok [OF assms(1)] assms(2) by (simp add: srv_ok_def)
  then have ok: "jobs_ok h" and st: "ms_state s \<noteq> stateStarted \<longrightarrow> hc_jobCancel h = None"
    by (auto simp: host_ok_def)
  from ok assms(3) have "hc_jobCancel h = Some ctx" by (auto simp: jobs_ok_def)
  with ok st show ?thesis by (auto simp: jobs_ok_def)
qed

theorem jobs_only_while_started_witness:
  "ms_state toy_started = stateStarted \<and> hc_jobCancel toy_running_host = Some 0 \<and>
   0 \<notin> set (hc_cancelled toy_running_host)"
  by (rule jobs_only_while_started [OF reached_toy(3) toy_Start_ok(2), of 0 "WatchdogLoop (seconds 5)"])
    (simp add: toy_running_host_jobs)

text \<open>
  A successful \<open>Start\<close> launches exactly one goroutine per job the module scheduled, in
  order, all under one fresh context, plus the watchdog exactly when core asked for one.
\<close>
lemma Start_launches_jobs:
  assumes "reached M s" and "Start M ctx s = (Inr (), s')"
  shows "\<exists>h h'. ms_host s = Some h \<and> ms_host s' = Some h' \<and>
    hc_jobWG h' = map (\<lambda>j. (hc_nextCtx h, JobLoop j)) (hc_jobs h) @
      (if sint (hc_watchdogInterval h) > 0
       then [(hc_nextCtx h, WatchdogLoop (hc_watchdogInterval h))] else [])"
  using assms(2)
proof (cases rule: Start_elim)
  case (Started host m' host' sv')
  note ext = surfaces_extend_frame [OF run_prog_extend [OF Started(3)]]
  have "host_ok stateInited (Some host)"
    using reached_srv_ok [OF assms(1)] Started(1,2) by (simp add: srv_ok_def)
  then have "hc_jobWG host = []" "hc_jobCancel host = None"
    by (auto simp: host_ok_def dest: jobs_ok_None)
  with ext Started show ?thesis by (simp add: startJobs_fresh)
qed simp_all

lemma Start_launches_jobs_witness:
  "\<exists>h h'. ms_host toy_inited = Some h \<and> ms_host toy_started = Some h' \<and>
    hc_jobWG h' = map (\<lambda>j. (hc_nextCtx h, JobLoop j)) (hc_jobs h) @
      (if sint (hc_watchdogInterval h) > 0
       then [(hc_nextCtx h, WatchdogLoop (hc_watchdogInterval h))] else [])"
  by (rule Start_launches_jobs [OF reached_toy(2) toy_Start_ok(1)])

text \<open>
  \<open>Shutdown\<close> asks \<open>serve\<close> to exit exactly when stopping succeeded, the request never
  blocks, and at most one request is ever queued.
\<close>
lemma Shutdown_signals:
  assumes "reached M s" and "Shutdown M ctx s = (r, s')"
  shows "(case r of
            Inr _ \<Rightarrow> ms_shutdown s' = [()] \<and> ms_state s' = stateStopped
          | Inl e \<Rightarrow> ms_shutdown s' = ms_shutdown s \<and> ms_state s' = stateStarted)"
proof -
  have len: "length (ms_shutdown s) \<le> 1" using reached_srv_ok [OF assms(1)] by (simp add: srv_ok_def)
  then have q: "ms_shutdown s = [] \<or> ms_shutdown s = [()]"
    by (cases "ms_shutdown s") auto
  from assms(2) show ?thesis
  proof (cases rule: Shutdown_elim)
    case (Err e)
    from Err(1) show ?thesis by (rule stopLocked_elim) (simp_all add: Err(2))
  next
    case (Ok s1)
    from Ok(1) have "ms_shutdown s1 = ms_shutdown s" "ms_state s1 = stateStopped"
      by (auto elim: stopLocked_elim)
    with q Ok show ?thesis by (auto simp: offer_def)
  qed
qed

lemma Shutdown_signals_witness:
  "\<exists>s'. Shutdown toy [] toy_inited = (Inr (), s') \<and> ms_shutdown s' = [()] \<and> ms_state s' = stateStopped"
proof -
  obtain s' where sh: "Shutdown toy [] toy_inited = (Inr (), s')"
    by (auto simp: Shutdown_def stopLocked_def toy_inited_def)
  from sh Shutdown_signals [OF reached_toy(2) sh] show ?thesis by simp
qed

text \<open>
  Between the answer to \<open>Init\<close> and the end of \<open>Start\<close> the module may still declare
  surfaces: the call returns nil and the surfaces are recorded, but no later \<open>Init\<close> answers
  with a response, so they never reach core, although declaring after \<open>Init\<close> is meant to be
  refused.
\<close>
lemma declare_after_Init_is_lost:
  assumes "reached M s" and "ms_state s = stateInited" and "ms_host s = Some h"
  shows "Declare ss h = (None, h\<lparr>hc_surfaces := hc_surfaces h @ ss\<rparr>) \<and>
    (\<forall>es ctx req grpc. isl (fst (Init M ctx req grpc (run_events M es s))))"
proof
  have "host_ok stateInited (Some h)"
    using reached_srv_ok [OF assms(1)] assms(2,3) by (simp add: srv_ok_def)
  then show "Declare ss h = (None, h\<lparr>hc_surfaces := hc_surfaces h @ ss\<rparr>)"
    by (simp add: host_ok_def Declare_def)
  show "\<forall>es ctx req grpc. isl (fst (Init M ctx req grpc (run_events M es s)))"
  proof (intro allI)
    fix es ctx req grpc
    have "stateInited \<le> ms_state (run_events M es s)" using run_events_mono [of s M es] assms(2) by simp
    then have "ms_state (run_events M es s) \<noteq> stateCreated" by (auto simp: state_order)
    then show "isl (fst (Init M ctx req grpc (run_events M es s)))" by (simp add: Init_def)
  qed
qed

lemma declare_after_Init_is_lost_witness:
  "\<exists>h. ms_host toy_inited = Some h \<and>
     Declare [toy_card] h = (None, h\<lparr>hc_surfaces := [toy_card, toy_card]\<rparr>) \<and>
     (\<forall>es ctx req grpc. isl (fst (Init toy ctx req grpc (run_events toy es toy_inited))))"
proof -
  have st: "ms_state toy_inited = stateInited"
    and h: "ms_host toy_inited = Some (toy_host\<lparr>hc_surfaces := [toy_card], hc_watchdogInterval := seconds 5\<rparr>)"
    by (simp_all add: toy_inited_def)
  from declare_after_Init_is_lost [OF reached_toy(2) st h, of "[toy_card]"] h show ?thesis by simp
qed

text \<open>
  A failed \<open>Init\<close> does not use up the one the lifecycle allows: core may send another,
  and the module then sees \<open>Init\<close> a second time.
\<close>
lemma Init_may_run_again_after_failure:
  "ms_calls (run_events toy [EInit [] toy_request (Inr toy_wrong_rpc), EInit [] toy_request (Inr toy_rpc)]
     toy_server) = [DidInit False, DidInit True, DidRequires]"
proof -
  obtain e s' where s': "Init toy [] toy_request (Inr toy_wrong_rpc) toy_server = (Inl (ModuleInit e), s')"
    "s' = toy_server\<lparr>ms_calls := [DidInit False], ms_closed := ms_closed s'\<rparr>"
    using toy_Init_refused by blast
  have host: "connectHost s' (Inr toy_rpc) = Inr toy_host"
    by (subst s'(2)) (simp add: connectHost_def dialHost_def toy_server_def newServer_def toy_host_def)
  have run: "run_prog (toy_Init u) [] toy_host NewHostData =
      ((None, ()), toy_host\<lparr>hc_surfaces := [toy_card]\<rparr>, toy_data)" for u
    using toy_Init_run [OF toy_host_served] by (simp add: toy_host_def toy_data_def)
  have "ms_state s' = stateCreated" "ms_services s' = NewHostData" "ms_calls s' = [DidInit False]"
    by (subst s'(2), simp add: toy_server_def newServer_def)+
  then have "ms_calls (snd (Init toy [] toy_request (Inr toy_rpc) s')) = [DidInit False, DidInit True, DidRequires]"
    unfolding Init_def receive_config_def toy_sel option.case prod.case host sum.case
    by (simp add: run toy_request_def ModuleProtocol_def finish_init_def collect_jobs_def
        setWatchdogInterval_def Let_def)
  with s'(1) show ?thesis by (simp add: case_prod_beta)
qed

text \<open>
  The watchdog interval and the stop deadline core asks for, \<open>time.Duration(secs) *
  time.Second\<close> over any 32-bit count, never overflow: they are that many billions of
  nanoseconds, positive exactly when the count is.
\<close>
lemma seconds_never_overflows:
  "sint (seconds secs) = int (unat secs) * 1000000000 \<and> (0 < sint (seconds secs) \<longleftrightarrow> secs \<noteq> 0)"
  using seconds_positive [of secs] by (simp add: sint_seconds word_neq_0_conv)

end
