(* ===== verification/Confined.thy ===== *)
theory Confined
  imports LifecycleOrder ToyModule
begin

text \<open>
  What any module at all can do to the stub host (\<open>modulesdk/testkit/hostserver.go\<close>,
  \<open>hostdata.go\<close>) through the runtime: the host's data stays well-formed, and outside the store
  it only grows, by events under the module's own id, by transport sends, and by the watchers and
  subscribers of the streams the module opens.
\<close>

section \<open>Well-formed data and confined change\<close>

definition data_ok :: "HostData \<Rightarrow> bool" where
  "data_ok d \<longleftrightarrow>
     store_ok d \<and> (\<forall>s \<in> set (hd_subscribers d). length (sub_ch s) \<le> 64) \<and>
     (\<forall>w \<in> set (hd_policyWatchers d). length w \<le> 1)"

definition own_topic :: "string \<Rightarrow> string \<Rightarrow> bool" where
  "own_topic ident topic = prefix (ident @ ''.'') topic"

definition confined :: "string \<Rightarrow> HostData \<Rightarrow> HostData \<Rightarrow> bool" where
  "confined ident d d' \<longleftrightarrow>
     Policy d' = Policy d \<and> hd_Device d' = hd_Device d \<and>
     (\<exists>n. hd_policyWatchers d' = hd_policyWatchers d @ replicate n []) \<and>
     prefix (map sub_topics (hd_subscribers d)) (map sub_topics (hd_subscribers d')) \<and>
     (\<exists>evs. Events d' = Events d @ evs \<and> (\<forall>e \<in> set evs. own_topic ident (ev_Topic e))) \<and>
     prefix (Sends d) (Sends d')"

definition keeps :: "string \<Rightarrow> HostData \<Rightarrow> HostData \<Rightarrow> bool" where
  "keeps ident d d' \<longleftrightarrow> (data_ok d \<longrightarrow> data_ok d') \<and> confined ident d d'"

lemma data_ok_New: "data_ok NewHostData"
  by (simp add: data_ok_def store_ok_New) (simp add: NewHostData_def)

lemma confined_refl: "confined ident d d"
  by (simp add: confined_def)

lemma confined_trans:
  assumes "confined ident d d'" "confined ident d' d''"
  shows "confined ident d d''"
proof -
  from assms obtain es fs where "Events d' = Events d @ es" "Events d'' = Events d' @ fs"
    "\<forall>e \<in> set es. own_topic ident (ev_Topic e)" "\<forall>e \<in> set fs. own_topic ident (ev_Topic e)"
    by (auto simp: confined_def)
  then have "Events d'' = Events d @ (es @ fs) \<and> (\<forall>e \<in> set (es @ fs). own_topic ident (ev_Topic e))"
    by auto
  then have "\<exists>evs. Events d'' = Events d @ evs \<and> (\<forall>e \<in> set evs. own_topic ident (ev_Topic e))" by blast
  moreover from assms obtain n m where "hd_policyWatchers d' = hd_policyWatchers d @ replicate n []"
    "hd_policyWatchers d'' = hd_policyWatchers d' @ replicate m []" by (auto simp: confined_def)
  then have "hd_policyWatchers d'' = hd_policyWatchers d @ replicate (n + m) []" by (simp add: replicate_add)
  ultimately show ?thesis using assms unfolding confined_def by (metis prefix_order.trans)
qed

lemma keeps_refl [simp]: "keeps ident d d"
  by (simp add: keeps_def confined_refl)

lemma keeps_trans [trans]: "\<lbrakk>keeps ident d d'; keeps ident d' d''\<rbrakk> \<Longrightarrow> keeps ident d d''"
  unfolding keeps_def using confined_trans by blast

lemma keeps_Put: "keeps ident d (StorePut k v d)"
proof -
  have "store_ok d \<Longrightarrow> store_ok (StorePut k v d)" by (rule store_ok_Put)
  then show ?thesis
    by (auto simp: keeps_def data_ok_def confined_def StorePut_def Policy_def Events_def Sends_def)
qed

lemma keeps_Delete: "keeps ident d (StoreDelete k d)"
proof -
  have "store_ok d \<Longrightarrow> store_ok (StoreDelete k d)" by (rule store_ok_Delete)
  then show ?thesis
    by (auto simp: keeps_def data_ok_def confined_def StoreDelete_def Policy_def Events_def Sends_def)
qed

lemma keeps_Send: "keeps ident d (RecordSend m d)"
  by (simp add: keeps_def data_ok_def store_ok_def confined_def RecordSend_def Policy_def Events_def Sends_def)

lemma deliver_bound: "length (sub_ch s) \<le> 64 \<Longrightarrow> length (sub_ch (deliver ev s)) \<le> 64"
  by (simp add: deliver_def length_offer)

lemma keeps_Publish: "keeps ident d (Publish now (ident @ ''.'' @ topic) data d)"
proof -
  let ?d = "Publish now (ident @ ''.'' @ topic) data d"
  have "own_topic ident (ident @ ''.'' @ topic)" by (simp add: own_topic_def)
  then have "\<exists>evs. Events ?d = Events d @ evs \<and> (\<forall>e \<in> set evs. own_topic ident (ev_Topic e))"
    by (intro exI [of _ "[\<lparr>ev_Topic = ident @ ''.'' @ topic, ev_Data = data, ev_At = now\<rparr>]"])
      (simp add: Publish_def Let_def Events_def)
  moreover have "data_ok d \<longrightarrow> data_ok ?d"
    by (auto simp: data_ok_def store_ok_def Publish_def Let_def deliver_bound)
  moreover have "map sub_topics (hd_subscribers ?d) = map sub_topics (hd_subscribers d)"
    by (simp add: Publish_def Let_def)
  ultimately show ?thesis
    by (simp add: keeps_def confined_def) (simp add: Publish_def Let_def Policy_def Sends_def)
qed

lemma keeps_Watch: "keeps ident d (fst (addPolicyWatcher d))"
proof -
  have "\<exists>n. hd_policyWatchers (fst (addPolicyWatcher d)) = hd_policyWatchers d @ replicate n []"
    by (intro exI [of _ 1]) (simp add: addPolicyWatcher_def)
  then show ?thesis
    by (auto simp: keeps_def data_ok_def store_ok_def confined_def addPolicyWatcher_def Policy_def Events_def Sends_def)
qed

lemma keeps_Subscribe: "keeps ident d (fst (subscribe ts d))"
  by (auto simp: keeps_def data_ok_def store_ok_def confined_def subscribe_def Policy_def Events_def Sends_def
      intro: exI [of _ 0])

section \<open>Host calls and methods\<close>

definition stub_rpcs :: "('c \<Rightarrow> string \<Rightarrow> string list) \<Rightarrow> string \<Rightarrow> ('c, HostData) rpc_clients \<Rightarrow> bool" where
  "stub_rpcs md_get ident rpc \<longleftrightarrow> (\<exists>token seed now lives. rpc = registerHostServices md_get token ident seed now lives)"

lemma as_reply_data [simp]: "snd (snd (as_reply f h r)) = snd r"
  by (simp add: as_reply_def split: sum.split)

lemma intercept_data [simp]: "snd (intercept h r) = snd r"
  by (simp add: intercept_def split: sum.split)

lemma map_reply_data [simp]: "snd (map_reply f r) = snd r"
  by (simp add: map_reply_def split: sum.split)

lemma guard_keeps: "keeps ident d (snd (h d)) \<Longrightarrow> keeps ident d (snd (unary_guard md_get token ctx h d))"
  by (simp add: unary_guard_def split: option.split)

lemma stream_guard_keeps: "keeps ident d (snd (h d)) \<Longrightarrow> keeps ident d (snd (stream_guard md_get token ctx h d))"
  by (simp add: stream_guard_def split: option.split)

lemma host_do_keeps:
  assumes "stub_rpcs md_get ident (hc_rpc h)"
  shows "keeps ident d (snd (snd (host_do ctx c h d)))"
proof -
  from assms obtain token seed now lives where rpc: "hc_rpc h = registerHostServices md_get token ident seed now lives"
    by (auto simp: stub_rpcs_def)
  have reads: "snd (identity_WhoAmI d) = d" "snd (identity_Credential ident sc d) = d" "snd (policy_Get d) = d"
    "snd (store_Get k d) = d" "snd (store_List seed p d) = d" for sc k p
    by (simp_all add: identity_WhoAmI_def identity_Credential_def policy_Get_def store_Get_def store_List_def
        split: prod.split)
  have writes: "keeps ident d (snd (transport_Send m q d))" "keeps ident d (snd (store_Put k v d))"
    "keeps ident d (snd (store_Delete k d))" "keeps ident d (snd (events_Publish ident now t v d))" for m q k v t
    by (cases m) (simp_all add: transport_Send_def store_Put_def store_Delete_def events_Publish_def
        keeps_Send keeps_Put keeps_Delete keeps_Publish [simplified])
  have opens: "snd (transport_Receive dn d) = d" "keeps ident d (snd (policy_Watch wl d))"
    "keeps ident d (snd (events_Subscribe ts el d))" for dn wl ts el
    using keeps_Watch [of ident d] keeps_Subscribe [of ident d ts]
    by (simp_all add: transport_Receive_def policy_Watch_def events_Subscribe_def case_prod_beta)
  show ?thesis
    by (cases c)
      (auto simp: WhoAmI_def MintCredential_def TransportSend_def PolicyGet_def storeGet_def storePut_def
        storeDelete_def storeList_def EventsPublish_def Receive_def Watch_def Subscribe_def open_stream_def
        rpc registerHostServices_def reads writes opens
        intro!: guard_keeps stream_guard_keeps split: prod.split option.split)
qed

lemma run_prog_keeps:
  "stub_rpcs md_get ident (hc_rpc h) \<Longrightarrow> keeps ident d (snd (snd (run_prog p ctx h d)))"
proof (induction p arbitrary: h d)
  case (Call c k)
  obtain r h1 d1 where do1: "host_do ctx c h d = (r, h1, d1)" by (cases "host_do ctx c h d") auto
  have "hc_rpc h1 = hc_rpc h" using host_do_extend [OF do1] by (auto simp: surfaces_extend_def)
  with Call have "keeps ident d1 (snd (snd (run_prog (k r) ctx h1 d1)))" by auto
  with host_do_keeps [OF Call.prems, of d ctx c] do1 show ?case by (auto intro: keeps_trans)
qed simp

lemma run_prog_keepsD:
  "\<lbrakk>run_prog p ctx h d = (a, h', d'); stub_rpcs md_get ident (hc_rpc h)\<rbrakk> \<Longrightarrow>
   keeps ident d d' \<and> hc_rpc h' = hc_rpc h"
  using run_prog_keeps [of md_get ident h d p ctx] run_prog_extend [of p ctx h d a h' d']
  by (auto simp: surfaces_extend_def)

section \<open>The lifecycle over the stub\<close>

definition on_stub :: "('c \<Rightarrow> string \<Rightarrow> string list) \<Rightarrow> string \<Rightarrow> ('m, 'c, HostData) moduleServer \<Rightarrow> bool" where
  "on_stub md_get ident s \<longleftrightarrow> (\<forall>h. ms_host s = Some h \<longrightarrow> stub_rpcs md_get ident (hc_rpc h))"

fun stub_event_ok :: "('c \<Rightarrow> string \<Rightarrow> string list) \<Rightarrow> string \<Rightarrow> ('c, HostData) event \<Rightarrow> bool" where
  "stub_event_ok md_get ident (EInit ctx req (Inr rpc)) = stub_rpcs md_get ident rpc"
| "stub_event_ok md_get ident _ = True"

definition stays :: "('c \<Rightarrow> string \<Rightarrow> string list) \<Rightarrow> string \<Rightarrow> ('m, 'c, HostData) moduleServer \<Rightarrow>
    ('m, 'c, HostData) moduleServer \<Rightarrow> bool" where
  "stays md_get ident s s' \<longleftrightarrow> on_stub md_get ident s' \<and> keeps ident (ms_services s) (ms_services s')"

lemma stopJobs_rpc [simp]: "hc_rpc (stopJobs h) = hc_rpc h"
  by (simp add: stopJobs_def Let_def split: option.split)

lemma launch_rpc [simp]: "hc_rpc (launchJobLocked j h) = hc_rpc h"
  by (simp add: launchJobLocked_def split: option.split)

lemma fold_launch_rpc [simp]: "hc_rpc (fold launchJobLocked js h) = hc_rpc h"
  by (induction js arbitrary: h) simp_all

lemma startJobs_rpc [simp]: "hc_rpc (startJobs h) = hc_rpc h"
  by (simp add: startJobs_def Let_def launchWatchdogLocked_def)

lemma addJobs_rpc [simp]: "hc_rpc (addJobs js h) = hc_rpc h"
  by (simp add: addJobs_def)

lemma connectHost_rpc: "connectHost s grpc = Inr h \<Longrightarrow> \<exists>rpc. grpc = Inr rpc \<and> hc_rpc h = rpc"
  by (auto simp: connectHost_def dialHost_def split: sum.splits)

lemma receive_config_services: "receive_config M doc s = (err, s1) \<Longrightarrow> ms_services s1 = ms_services s \<and> ms_host s1 = ms_host s"
  by (auto elim!: receive_config_elim)

lemma finish_init_services:
  assumes "finish_init M req h s = (r, s')"
  shows "ms_services s' = ms_services s \<and> (\<exists>h2. ms_host s' = Some h2 \<and> hc_rpc h2 = hc_rpc h)"
proof -
  let ?h = "if req_WatchdogIntervalSeconds req > 0
    then setWatchdogInterval (seconds (req_WatchdogIntervalSeconds req)) h else h"
  obtain h2 s2 where cj: "collect_jobs M ?h (s\<lparr>ms_state := stateInited\<rparr>) = (h2, s2)" by fastforce
  moreover have "hc_rpc ?h = hc_rpc h" by (simp add: setWatchdogInterval_def)
  ultimately have "hc_rpc h2 = hc_rpc h" "ms_services s2 = ms_services s"
    by (auto elim!: collect_jobs_elim)
  with assms cj show ?thesis by (auto simp: finish_init_def Let_def split: prod.splits if_splits)
qed

lemma stays_Init:
  assumes "Init M ctx req grpc s = (r, s')" "on_stub md_get ident s" "stub_event_ok md_get ident (EInit ctx req grpc)"
  shows "stays md_get ident s s'"
  using assms(1)
proof (cases rule: Init_elim)
  case (InitError e s1 host m' host' sv')
  from connectHost_rpc [OF InitError(3)] assms(3) have "stub_rpcs md_get ident (hc_rpc host)" by auto
  from run_prog_keepsD [OF InitError(4) this] receive_config_services [OF InitError(2)] show ?thesis
    by (simp add: stays_def on_stub_def InitError(6))
next
  case (Inited s1 host m' host' sv')
  from connectHost_rpc [OF Inited(5)] assms(3) have "stub_rpcs md_get ident (hc_rpc host)" by auto
  with run_prog_keepsD [OF Inited(6) this] receive_config_services [OF Inited(4)] finish_init_services [OF Inited(7)]
  show ?thesis by (auto simp: stays_def on_stub_def)
qed (use assms(2) in \<open>auto simp: stays_def on_stub_def dest: receive_config_services\<close>)

lemma stays_Start: "\<lbrakk>Start M ctx s = (r, s'); on_stub md_get ident s\<rbrakk> \<Longrightarrow> stays md_get ident s s'"
  by (erule Start_elim) (auto simp: stays_def on_stub_def dest!: run_prog_keepsD)

lemma stays_stopLocked: "\<lbrakk>stopLocked M ctx secs s = (r, s'); on_stub md_get ident s\<rbrakk> \<Longrightarrow> stays md_get ident s s'"
  by (erule stopLocked_elim) (auto simp: stays_def on_stub_def dest!: run_prog_keepsD)

lemma stays_Shutdown: "\<lbrakk>Shutdown M ctx s = (r, s'); on_stub md_get ident s\<rbrakk> \<Longrightarrow> stays md_get ident s s'"
  by (erule Shutdown_elim) (auto dest!: stays_stopLocked simp: stays_def on_stub_def)

lemma stays_handle:
  "\<lbrakk>on_stub md_get ident s; stub_event_ok md_get ident e\<rbrakk> \<Longrightarrow> stays md_get ident s (snd (handle M e s))"
proof (cases e)
  case (EInit ctx req grpc)
  assume "on_stub md_get ident s" "stub_event_ok md_get ident e"
  then show ?thesis using stays_Init [OF surjective_pairing [of "Init M ctx req grpc s"]] EInit
    by (simp add: case_prod_beta)
qed (auto simp: case_prod_beta Stop_def stays_Start [OF surjective_pairing] stays_stopLocked [OF surjective_pairing]
      stays_Shutdown [OF surjective_pairing], auto simp: stays_def on_stub_def HealthRpc_def hostLostSignal_def case_prod_beta)

lemma stays_run:
  "\<lbrakk>on_stub md_get ident s; \<forall>e \<in> set es. stub_event_ok md_get ident e\<rbrakk> \<Longrightarrow>
   stays md_get ident s (run_events M es s)"
proof (induction es arbitrary: s)
  case (Cons e es)
  from stays_handle [of md_get ident s e M] Cons.prems
  have "on_stub md_get ident (snd (handle M e s))" "keeps ident (ms_services s) (ms_services (snd (handle M e s)))"
    by (simp_all add: stays_def)
  with Cons.IH [of "snd (handle M e s)"] Cons.prems(2) show ?case
    by (auto simp: stays_def intro: keeps_trans)
qed (simp add: stays_def)

section \<open>A module that listens\<close>

text \<open>Its \<open>Init\<close> opens all three streams.\<close>

definition eavesdropper :: "unit Module" where
  "eavesdropper = toy\<lparr>m_Init := \<lambda>m. Call CallWatch (\<lambda>_. Call (CallSubscribe [''*'']) (\<lambda>_. Call CallReceive (\<lambda>_. Return (None, m))))\<rparr>"

lemma eavesdropper_Init:
  "run_prog (m_Init eavesdropper ()) [] toy_host d = ((None, ()), toy_host, fst (subscribe [''*''] (fst (addPolicyWatcher d))))"
  by (simp add: eavesdropper_def as_reply_def Receive_def Watch_def Subscribe_def open_stream_def toy_host_def toy_rpc_def
      registerHostServices_def stream_guard_pass withToken_def plain_get_def plain_append_def TokenMetadataKey_def
      transport_Receive_def policy_Watch_def events_Subscribe_def addPolicyWatcher_def subscribe_def map_reply_def)

lemma eavesdropper_data:
  "ms_services (run_events eavesdropper [EInit [] toy_request (Inr toy_rpc)] toy_server) =
     NewHostData\<lparr>hd_policyWatchers := [[]], hd_subscribers := [\<lparr>sub_topics = [''*''], sub_ch = []\<rparr>]\<rparr>"
proof -
  have host: "connectHost toy_server (Inr toy_rpc) = Inr toy_host"
    by (simp add: connectHost_def dialHost_def toy_server_def newServer_def toy_host_def)
  have rest: "m_ID eavesdropper = ''toy''" "m_SetConfig eavesdropper = None" "m_Jobs eavesdropper = None"
    "m_Requires eavesdropper = (\<lambda>m. ([''test.cap''], m))"
    by (simp_all add: eavesdropper_def)
  have "ms_services (snd (Init eavesdropper [] toy_request (Inr toy_rpc) toy_server)) =
      fst (subscribe [''*''] (fst (addPolicyWatcher NewHostData)))"
    unfolding Init_def receive_config_def rest option.case prod.case host sum.case
    by (simp add: eavesdropper_Init toy_request_def ModuleProtocol_def finish_init_def collect_jobs_def rest
        setWatchdogInterval_def toy_server_def newServer_def)
  then show ?thesis by (simp add: case_prod_beta addPolicyWatcher_def subscribe_def NewHostData_def)
qed

section \<open>Properties\<close>

text \<open>
  C21: a module is confined to its own part of the host: whatever its methods do through the
  runtime, under any sequence of RPCs, with a right or a wrong token, the host's data stays
  well-formed (one entry per key, no channel above its capacity), the policy, the device
  identity and the watchers and subscriptions there were are untouched (the module's own come after
  them, its watchers with nothing signalled), the event log and the recorded sends only grow, and
  every event added is under the module's own id.
\<close>
theorem module_confined:
  assumes "s0 = newServer m d token ap fe" and "\<forall>e \<in> set es. stub_event_ok md_get ident e" and "data_ok d"
  shows "data_ok (ms_services (run_events M es s0)) \<and> confined ident d (ms_services (run_events M es s0))"
proof -
  have "on_stub md_get ident s0" "ms_services s0 = d" by (simp_all add: on_stub_def newServer_def assms(1))
  with stays_run [OF this(1) assms(2), of M] assms(3) show ?thesis by (simp add: stays_def keeps_def)
qed

theorem module_confined_witness:
  "\<exists>d. ms_services (run_events eavesdropper [EInit [] toy_request (Inr toy_rpc)] toy_server) = d \<and>
     hd_policyWatchers d = [[]] \<and> map sub_topics (hd_subscribers d) = [[''*'']] \<and> data_ok d \<and> confined ''toy'' NewHostData d"
proof -
  have "stub_rpcs plain_get ''toy'' toy_rpc" unfolding stub_rpcs_def toy_rpc_def by blast
  then have "\<forall>e \<in> set [EInit [] toy_request (Inr toy_rpc)]. stub_event_ok plain_get ''toy'' e" by simp
  from module_confined [OF toy_server_def this data_ok_New, of eavesdropper] show ?thesis
    by (simp add: eavesdropper_data del: run_events.simps)
qed

end
