(* ===== verification/Quiesce.thy ===== *)
theory Quiesce
  imports Weave_Prelude
begin

text \<open>
  Interleaved goroutines as labelled steps: a step gives the next state, or \<open>None\<close> when the
  goroutine is not at that operation.  The locale \<open>quiescing\<close> is the contract of a system whose
  internal steps use up a rank: it settles after boundedly many of them, whatever the schedule.
\<close>

fun opt_run :: "('a \<Rightarrow> 's \<Rightarrow> 's option) \<Rightarrow> 'a list \<Rightarrow> 's \<Rightarrow> 's option" where
  "opt_run step [] s = Some s"
| "opt_run step (a # as) s = (case step a s of None \<Rightarrow> None | Some s' \<Rightarrow> opt_run step as s')"

lemma opt_run_append:
  "opt_run step (as @ bs) s = (case opt_run step as s of None \<Rightarrow> None | Some s' \<Rightarrow> opt_run step bs s')"
  by (induction as arbitrary: s) (auto split: option.split)

definition quiescent :: "('a \<Rightarrow> 's \<Rightarrow> 's option) \<Rightarrow> ('a \<Rightarrow> bool) \<Rightarrow> 's \<Rightarrow> bool" where
  "quiescent step internal s \<longleftrightarrow> (\<forall>a. internal a \<longrightarrow> step a s = None)"

lemma quiescentD: "\<lbrakk>quiescent step internal s; internal a\<rbrakk> \<Longrightarrow> step a s = None"
  by (simp add: quiescent_def)

locale quiescing =
  fixes step :: "'a \<Rightarrow> 's \<Rightarrow> 's option"
    and internal :: "'a \<Rightarrow> bool"
    and ok :: "'s \<Rightarrow> bool"
    and rank :: "'s \<Rightarrow> nat"
  assumes ok_step: "\<lbrakk>ok s; internal a; step a s = Some s'\<rbrakk> \<Longrightarrow> ok s'"
    and rank_step: "\<lbrakk>ok s; internal a; step a s = Some s'\<rbrakk> \<Longrightarrow> rank s' < rank s"
begin

lemma run_bounded:
  "\<lbrakk>ok s; \<forall>a \<in> set as. internal a; opt_run step as s = Some s'\<rbrakk> \<Longrightarrow> ok s' \<and> length as + rank s' \<le> rank s"
proof (induction as arbitrary: s)
  case (Cons a as)
  then obtain s1 where s1: "step a s = Some s1" "opt_run step as s1 = Some s'"
    by (auto split: option.splits)
  from Cons.prems s1(1) have "ok s1" "rank s1 < rank s" using ok_step rank_step by auto
  with Cons.IH [of s1] Cons.prems(2) s1(2) show ?case by simp
qed simp

lemma settles:
  "ok s \<Longrightarrow> \<exists>as s'. (\<forall>a \<in> set as. internal a) \<and> opt_run step as s = Some s' \<and> quiescent step internal s'"
proof (induction "rank s" arbitrary: s rule: less_induct)
  case less
  show ?case
  proof (cases "quiescent step internal s")
    case True
    then show ?thesis by (intro exI [of _ "[]"]) simp
  next
    case False
    then obtain a s1 where a: "internal a" "step a s = Some s1" by (auto simp: quiescent_def)
    with less.prems have "ok s1" "rank s1 < rank s" using ok_step rank_step by blast+
    from less.hyps [OF this(2,1)] obtain as s' where
      "\<forall>a \<in> set as. internal a" "opt_run step as s1 = Some s'" "quiescent step internal s'" by blast
    with a show ?thesis by (intro exI [of _ "a # as"]) auto
  qed
qed

end

lemma sum_list_update_add:
  fixes xs :: "'a::comm_monoid_add list"
  shows "i < length xs \<Longrightarrow> sum_list (xs[i := x]) + xs ! i = sum_list xs + x"
  by (induction xs arbitrary: i) (auto simp: nth_Cons' less_Suc_eq_0_disj add_ac split: nat.split)

end
