(* ===== verification/JobSync.thy ===== *)
theory JobSync
  imports Streams Quiesce ToyModule
begin

text \<open>
  Stopping the jobs under concurrency (\<open>modulesdk/hostclient.go\<close>): \<open>stopJobs\<close> takes the cancel
  function under the lock, cancels without it and waits for the goroutines, which meanwhile go
  through their own loops.  One action of \<open>js_step\<close> is one lock section, one blocking operation
  or one turn of one goroutine.  The callers of \<open>startJobs\<close> and \<open>stopJobs\<close> are the handlers, under
  the server's mutex, and \<open>serve\<close> after the last handler, so at most one such call is under way.
\<close>

section \<open>State and steps\<close>

text \<open>
  A goroutine is running its job, about to read the interval, in its \<open>select\<close>, or returned; the
  watchdog only selects.  \<open>wk_cycle\<close> counts the intervals read.
\<close>

datatype worker_pc = PcRun | PcNext | PcSelect | PcExit

record worker =
  wk_ctx :: nat
  wk_go :: goroutine
  wk_cycle :: nat
  wk_pc :: worker_pc

datatype stop_pc = StopIdle | StopEntered | StopTook "nat option" | StopWaiting

text \<open>
  The wait group is the goroutines that have not returned; the client's own \<open>hc_jobWG\<close> stays
  empty here, and \<open>job_view\<close> puts the two together.
\<close>

record ('c, 's) job_world =
  jw_host :: "('c, 's) hostClient"
  jw_workers :: "worker list"
  jw_stop :: stop_pc

definition alive :: "worker list \<Rightarrow> (nat \<times> goroutine) list" where
  "alive ws = map (\<lambda>w. (wk_ctx w, wk_go w)) (filter (\<lambda>w. wk_pc w \<noteq> PcExit) ws)"

definition job_view :: "('c, 's) job_world \<Rightarrow> ('c, 's) hostClient" where
  "job_view st = (jw_host st)\<lparr>hc_jobWG := alive (jw_workers st)\<rparr>"

fun new_worker :: "nat \<times> goroutine \<Rightarrow> worker" where
  "new_worker (ctx, JobLoop j) = \<lparr>wk_ctx = ctx, wk_go = JobLoop j, wk_cycle = 0, wk_pc = PcRun\<rparr>"
| "new_worker (ctx, WatchdogLoop d) = \<lparr>wk_ctx = ctx, wk_go = WatchdogLoop d, wk_cycle = 0, wk_pc = PcSelect\<rparr>"

datatype job_act =
    JStart
  | JStop
  | JStopLock
  | JStopCancel
  | JStopWait
  | JRunEnd nat
  | JNext nat
  | JTimer nat
  | JDone nat

definition start_call :: "('c, 's) job_world \<Rightarrow> ('c, 's) job_world" where
  "start_call st =
     (let h = startJobs (job_view st) in
      st\<lparr>jw_host := h\<lparr>hc_jobWG := []\<rparr>,
         jw_workers := jw_workers st @ map new_worker (drop (length (alive (jw_workers st))) (hc_jobWG h))\<rparr>)"

definition stop_lock :: "('c, 's) job_world \<Rightarrow> ('c, 's) job_world option" where
  "stop_lock st =
     (if jw_stop st = StopEntered
      then Some (st\<lparr>jw_stop := StopTook (hc_jobCancel (jw_host st)),
                    jw_host := (jw_host st)\<lparr>hc_jobCancel := None\<rparr>\<rparr>)
      else None)"

definition stop_cancel :: "('c, 's) job_world \<Rightarrow> ('c, 's) job_world option" where
  "stop_cancel st =
     (case jw_stop st of
        StopTook None \<Rightarrow> Some (st\<lparr>jw_stop := StopIdle\<rparr>)
      | StopTook (Some ctx) \<Rightarrow>
          Some (st\<lparr>jw_stop := StopWaiting,
                   jw_host := (jw_host st)\<lparr>hc_cancelled := ctx # hc_cancelled (jw_host st)\<rparr>\<rparr>)
      | _ \<Rightarrow> None)"

definition stop_wait :: "('c, 's) job_world \<Rightarrow> ('c, 's) job_world option" where
  "stop_wait st =
     (if jw_stop st = StopWaiting \<and> alive (jw_workers st) = [] then Some (st\<lparr>jw_stop := StopIdle\<rparr>) else None)"

definition run_end :: "worker \<Rightarrow> worker option" where
  "run_end w = (if wk_pc w = PcRun then Some (w\<lparr>wk_pc := PcNext\<rparr>) else None)"

definition read_interval :: "worker \<Rightarrow> worker option" where
  "read_interval w =
     (case wk_go w of
        JobLoop j \<Rightarrow>
          if wk_pc w = PcNext
          then Some (w\<lparr>wk_cycle := Suc (wk_cycle w),
                       wk_pc := if sint (next_interval j (wk_cycle w)) \<le> 0 then PcExit else PcSelect\<rparr>)
          else None
      | WatchdogLoop d \<Rightarrow> None)"

definition timer_fires :: "worker \<Rightarrow> worker option" where
  "timer_fires w =
     (if wk_pc w = PcSelect
      then Some (w\<lparr>wk_pc := case wk_go w of JobLoop j \<Rightarrow> PcRun | WatchdogLoop d \<Rightarrow> PcSelect\<rparr>)
      else None)"

definition sees_done :: "nat list \<Rightarrow> worker \<Rightarrow> worker option" where
  "sees_done cancelled w =
     (if wk_pc w = PcSelect \<and> wk_ctx w \<in> set cancelled then Some (w\<lparr>wk_pc := PcExit\<rparr>) else None)"

definition at_worker :: "nat \<Rightarrow> (worker \<Rightarrow> worker option) \<Rightarrow> ('c, 's) job_world \<Rightarrow> ('c, 's) job_world option" where
  "at_worker i f st =
     (if i < length (jw_workers st)
      then map_option (\<lambda>w. st\<lparr>jw_workers := (jw_workers st)[i := w]\<rparr>) (f (jw_workers st ! i))
      else None)"

fun js_step :: "job_act \<Rightarrow> ('c, 's) job_world \<Rightarrow> ('c, 's) job_world option" where
  "js_step JStart st = (if jw_stop st = StopIdle then Some (start_call st) else None)"
| "js_step JStop st = (if jw_stop st = StopIdle then Some (st\<lparr>jw_stop := StopEntered\<rparr>) else None)"
| "js_step JStopLock st = stop_lock st"
| "js_step JStopCancel st = stop_cancel st"
| "js_step JStopWait st = stop_wait st"
| "js_step (JRunEnd i) st = at_worker i run_end st"
| "js_step (JNext i) st = at_worker i read_interval st"
| "js_step (JTimer i) st = at_worker i timer_fires st"
| "js_step (JDone i) st = at_worker i (sees_done (hc_cancelled (jw_host st))) st"

abbreviation js_run :: "job_act list \<Rightarrow> ('c, 's) job_world \<Rightarrow> ('c, 's) job_world option" where
  "js_run \<equiv> opt_run js_step"

definition js_init :: "('c, 's) hostClient \<Rightarrow> ('c, 's) job_world" where
  "js_init h = \<lparr>jw_host = h, jw_workers = [], jw_stop = StopIdle\<rparr>"

section \<open>The invariant\<close>

text \<open>
  Outside a stop call the client is as the atomic model has it (\<open>jobs_ok\<close>); inside one it is so
  up to the cancel function the call has taken, and once that is used every goroutine left is
  of a cancelled context.
\<close>

definition js_ok :: "('c, 's) job_world \<Rightarrow> bool" where
  "js_ok st \<longleftrightarrow> hc_jobWG (jw_host st) = [] \<and>
     (case jw_stop st of
        StopIdle \<Rightarrow> jobs_ok (job_view st)
      | StopEntered \<Rightarrow> jobs_ok (job_view st)
      | StopTook c \<Rightarrow> hc_jobCancel (jw_host st) = None \<and> jobs_ok ((job_view st)\<lparr>hc_jobCancel := c\<rparr>)
      | StopWaiting \<Rightarrow> hc_jobCancel (jw_host st) = None \<and> jobs_ok (jw_host st) \<and>
          (\<forall>(ctx, g) \<in> set (alive (jw_workers st)). ctx \<in> set (hc_cancelled (jw_host st))))"

lemma alive_append [simp]: "alive (ws @ vs) = alive ws @ alive vs"
  by (simp add: alive_def)

lemma alive_new [simp]: "alive (map new_worker gs) = gs"
proof (induction gs)
  case (Cons p gs)
  then show ?case by (cases p rule: new_worker.cases) (simp_all add: alive_def)
qed (simp add: alive_def)

lemma alive_memI: "\<lbrakk>w \<in> set ws; wk_pc w \<noteq> PcExit\<rbrakk> \<Longrightarrow> (wk_ctx w, wk_go w) \<in> set (alive ws)"
  by (auto simp: alive_def)

lemma alive_update:
  assumes "i < length ws" "wk_ctx w' = wk_ctx (ws ! i)" "wk_go w' = wk_go (ws ! i)" "wk_pc (ws ! i) \<noteq> PcExit"
  shows "set (alive (ws[i := w'])) \<subseteq> set (alive ws)"
proof
  fix p assume "p \<in> set (alive (ws[i := w']))"
  then obtain w where w: "w \<in> set (ws[i := w'])" "p = (wk_ctx w, wk_go w)" "wk_pc w \<noteq> PcExit"
    by (auto simp: alive_def)
  from w(1) have "w = w' \<or> w \<in> set ws" using set_update_subset_insert by fast
  then show "p \<in> set (alive ws)"
    using w assms alive_memI [of "ws ! i" ws] alive_memI [of w ws] by (auto simp: nth_mem)
qed

lemma jobs_ok_shrink: "\<lbrakk>jobs_ok h; set gs \<subseteq> set (hc_jobWG h)\<rbrakk> \<Longrightarrow> jobs_ok (h\<lparr>hc_jobWG := gs\<rparr>)"
  unfolding jobs_ok_def by auto

text \<open>A step of one goroutine is one of the four kinds, of a goroutine that has not returned.\<close>

lemma worker_step:
  "run_end w = Some w' \<Longrightarrow> wk_ctx w' = wk_ctx w \<and> wk_go w' = wk_go w \<and> wk_pc w \<noteq> PcExit"
  "read_interval w = Some w' \<Longrightarrow> wk_ctx w' = wk_ctx w \<and> wk_go w' = wk_go w \<and> wk_pc w \<noteq> PcExit"
  "timer_fires w = Some w' \<Longrightarrow> wk_ctx w' = wk_ctx w \<and> wk_go w' = wk_go w \<and> wk_pc w \<noteq> PcExit"
  "sees_done c w = Some w' \<Longrightarrow> wk_ctx w' = wk_ctx w \<and> wk_go w' = wk_go w \<and> wk_pc w \<noteq> PcExit"
  by (auto simp: run_end_def read_interval_def timer_fires_def sees_done_def split: if_splits goroutine.splits)

lemma js_okI:
  assumes "hc_jobWG (jw_host st) = []"
    and "jw_stop st = StopIdle \<or> jw_stop st = StopEntered \<Longrightarrow> jobs_ok (job_view st)"
    and "\<And>c. jw_stop st = StopTook c \<Longrightarrow>
      hc_jobCancel (jw_host st) = None \<and> jobs_ok ((job_view st)\<lparr>hc_jobCancel := c\<rparr>)"
    and "jw_stop st = StopWaiting \<Longrightarrow> hc_jobCancel (jw_host st) = None \<and> jobs_ok (jw_host st) \<and>
      (\<forall>(ctx, g) \<in> set (alive (jw_workers st)). ctx \<in> set (hc_cancelled (jw_host st)))"
  shows "js_ok st"
  using assms by (simp add: js_ok_def split: stop_pc.split)

lemma js_okD:
  assumes "js_ok st"
  shows "hc_jobWG (jw_host st) = []"
    and "jw_stop st = StopIdle \<or> jw_stop st = StopEntered \<Longrightarrow> jobs_ok (job_view st)"
    and "jw_stop st = StopTook c \<Longrightarrow>
      hc_jobCancel (jw_host st) = None \<and> jobs_ok ((job_view st)\<lparr>hc_jobCancel := c\<rparr>)"
    and "jw_stop st = StopWaiting \<Longrightarrow> hc_jobCancel (jw_host st) = None \<and> jobs_ok (jw_host st) \<and>
      (\<forall>(ctx, g) \<in> set (alive (jw_workers st)). ctx \<in> set (hc_cancelled (jw_host st)))"
  using assms by (auto simp: js_ok_def)

lemma js_ok_workers:
  assumes ok: "js_ok st" and st': "st' = st\<lparr>jw_workers := ws\<rparr>"
    and sub: "set (alive ws) \<subseteq> set (alive (jw_workers st))"
  shows "js_ok st'"
proof (rule js_okI)
  have view: "job_view st' = (job_view st)\<lparr>hc_jobWG := alive ws\<rparr>"
    "(job_view st')\<lparr>hc_jobCancel := c\<rparr> = ((job_view st)\<lparr>hc_jobCancel := c\<rparr>)\<lparr>hc_jobWG := alive ws\<rparr>" for c
    by (simp_all add: job_view_def st')
  have same: "jw_stop st' = jw_stop st" "jw_host st' = jw_host st" "jw_workers st' = ws" by (simp_all add: st')
  show "hc_jobWG (jw_host st') = []" using js_okD(1) [OF ok] by (simp add: same)
  show "jobs_ok (job_view st')" if "jw_stop st' = StopIdle \<or> jw_stop st' = StopEntered"
    unfolding view(1) using js_okD(2) [OF ok] that sub
    by (intro jobs_ok_shrink) (simp_all add: same, simp add: job_view_def)
  show "hc_jobCancel (jw_host st') = None \<and> jobs_ok ((job_view st')\<lparr>hc_jobCancel := c\<rparr>)"
    if "jw_stop st' = StopTook c" for c
    unfolding view(2) using js_okD(3) [OF ok, of c] that sub
    by (intro conjI jobs_ok_shrink) (simp_all add: same, simp add: job_view_def)
  show "hc_jobCancel (jw_host st') = None \<and> jobs_ok (jw_host st') \<and>
      (\<forall>(ctx, g) \<in> set (alive (jw_workers st')). ctx \<in> set (hc_cancelled (jw_host st')))"
    if "jw_stop st' = StopWaiting"
    using js_okD(4) [OF ok] that sub by (auto simp: same)
qed

lemma js_ok_at_worker:
  assumes "js_ok st" "at_worker i f st = Some st'"
    and f: "\<And>w w'. f w = Some w' \<Longrightarrow> wk_ctx w' = wk_ctx w \<and> wk_go w' = wk_go w \<and> wk_pc w \<noteq> PcExit"
  shows "js_ok st'"
proof -
  from assms(2) obtain w' where i: "i < length (jw_workers st)" "f (jw_workers st ! i) = Some w'"
    and st': "st' = st\<lparr>jw_workers := (jw_workers st)[i := w']\<rparr>"
    by (auto simp: at_worker_def split: if_splits)
  show ?thesis
    by (rule js_ok_workers [OF assms(1) st' alive_update]) (use i f [OF i(2)] in simp_all)
qed

lemma worker_step_ok:
  assumes "js_ok st"
  shows "at_worker i run_end st = Some st' \<Longrightarrow> js_ok st'"
    and "at_worker i read_interval st = Some st' \<Longrightarrow> js_ok st'"
    and "at_worker i timer_fires st = Some st' \<Longrightarrow> js_ok st'"
    and "at_worker i (sees_done c) st = Some st' \<Longrightarrow> js_ok st'"
  by (erule js_ok_at_worker [OF assms]; erule worker_step)+

lemma startJobs_appends: "\<exists>gs. hc_jobWG (startJobs h) = hc_jobWG h @ gs"
proof (cases "hc_jobCancel h")
  case None
  then show ?thesis by (simp add: startJobs_fresh)
qed (simp add: startJobs_def)

lemma job_view_start: "job_view (start_call st) = startJobs (job_view st)"
proof -
  obtain gs where "hc_jobWG (startJobs (job_view st)) = alive (jw_workers st) @ gs"
    using startJobs_appends [of "job_view st"] by (auto simp: job_view_def)
  then show ?thesis by (simp add: job_view_def [of "start_call st"]) (simp add: start_call_def Let_def)
qed

lemma js_ok_start: "\<lbrakk>js_ok st; jw_stop st = StopIdle\<rbrakk> \<Longrightarrow> js_ok (start_call st)"
proof -
  assume ok: "js_ok st" and idle: "jw_stop st = StopIdle"
  then have "jobs_ok (job_view (start_call st))"
    using jobs_ok_startJobs [of "job_view st"] by (simp add: js_okD job_view_start)
  moreover have "jw_stop (start_call st) = StopIdle" "hc_jobWG (jw_host (start_call st)) = []"
    using idle by (simp_all add: start_call_def Let_def)
  ultimately show ?thesis by (intro js_okI) simp_all
qed

lemma js_ok_stop_lock: "\<lbrakk>js_ok st; stop_lock st = Some st'\<rbrakk> \<Longrightarrow> js_ok st'"
  by (auto simp: js_ok_def stop_lock_def job_view_def split: if_splits)

lemma js_ok_stop_cancel:
  assumes ok: "js_ok st" and step: "stop_cancel st = Some st'"
  shows "js_ok st'"
proof (cases "jw_stop st")
  case (StopTook c)
  from js_okD(3) [OF ok StopTook] have h: "hc_jobCancel (jw_host st) = None" "jobs_ok ((job_view st)\<lparr>hc_jobCancel := c\<rparr>)"
    by simp_all
  show ?thesis
  proof (cases c)
    case None
    have "(job_view st)\<lparr>hc_jobCancel := None\<rparr> = job_view st" using h(1) by (simp add: job_view_def)
    moreover from step StopTook None have "st' = st\<lparr>jw_stop := StopIdle\<rparr>" by (simp add: stop_cancel_def)
    then have "job_view st' = job_view st" "jw_stop st' = StopIdle" "jw_host st' = jw_host st"
      by (simp_all add: job_view_def)
    ultimately show ?thesis using h(2) None js_okD(1) [OF ok] by (intro js_okI) simp_all
  next
    case (Some ctx)
    from h(2) have "\<forall>(k, g) \<in> set (alive (jw_workers st)). k = ctx"
      "\<forall>k \<in> set (ctx # hc_cancelled (jw_host st)). k < hc_nextCtx (jw_host st)"
      by (auto simp: jobs_ok_def Some job_view_def)
    with step h(1) Some StopTook js_okD(1) [OF ok] show ?thesis
      by (auto simp: js_ok_def stop_cancel_def jobs_ok_def)
  qed
qed (use step in \<open>simp_all add: stop_cancel_def\<close>)

lemma js_ok_stop_wait: "\<lbrakk>js_ok st; stop_wait st = Some st'\<rbrakk> \<Longrightarrow> js_ok st'"
  by (auto simp: js_ok_def stop_wait_def job_view_def jobs_ok_def split: if_splits)

lemma js_ok_step: "\<lbrakk>js_ok st; js_step a st = Some st'\<rbrakk> \<Longrightarrow> js_ok st'"
proof (cases a)
  case JStop
  assume "js_ok st" "js_step a st = Some st'"
  with JStop show ?thesis by (auto simp: js_ok_def job_view_def split: if_splits)
qed (auto intro: js_ok_start js_ok_stop_lock js_ok_stop_cancel js_ok_stop_wait
      worker_step_ok split: if_splits)

text \<open>The watchdog goroutine is never at a place of the job loop.\<close>

definition dog_pc :: "worker \<Rightarrow> bool" where
  "dog_pc w \<longleftrightarrow> (case wk_go w of JobLoop j \<Rightarrow> True | WatchdogLoop d \<Rightarrow> wk_pc w = PcSelect \<or> wk_pc w = PcExit)"

definition job_inv :: "('c, 's) job_world \<Rightarrow> bool" where
  "job_inv st \<longleftrightarrow> js_ok st \<and> (\<forall>w \<in> set (jw_workers st). dog_pc w)"

lemma dog_pc_new: "dog_pc (new_worker p)"
  by (cases p rule: new_worker.cases) (simp_all add: dog_pc_def)

lemma dog_pc_step:
  "\<lbrakk>run_end w = Some w'; dog_pc w\<rbrakk> \<Longrightarrow> dog_pc w'"
  "\<lbrakk>read_interval w = Some w'; dog_pc w\<rbrakk> \<Longrightarrow> dog_pc w'"
  "\<lbrakk>timer_fires w = Some w'; dog_pc w\<rbrakk> \<Longrightarrow> dog_pc w'"
  "\<lbrakk>sees_done c w = Some w'; dog_pc w\<rbrakk> \<Longrightarrow> dog_pc w'"
  by (auto simp: dog_pc_def run_end_def read_interval_def timer_fires_def sees_done_def split: if_splits goroutine.splits)

lemma dog_pc_at_worker:
  assumes "at_worker i f st = Some st'" "\<forall>w \<in> set (jw_workers st). dog_pc w"
    and "\<And>w w'. f w = Some w' \<Longrightarrow> dog_pc w \<Longrightarrow> dog_pc w'"
  shows "\<forall>w \<in> set (jw_workers st'). dog_pc w"
proof -
  from assms(1) obtain w' where i: "i < length (jw_workers st)" "f (jw_workers st ! i) = Some w'"
    and st': "jw_workers st' = (jw_workers st)[i := w']"
    by (auto simp: at_worker_def split: if_splits)
  have "dog_pc w'" using assms(2,3) i by simp
  then show ?thesis unfolding st' using assms(2) set_update_subset_insert by fastforce
qed

lemma job_inv_step:
  assumes "job_inv st" "js_step a st = Some st'"
  shows "job_inv st'"
proof -
  have dogs: "\<forall>w \<in> set (jw_workers st). dog_pc w" using assms(1) by (simp add: job_inv_def)
  have "\<forall>w \<in> set (jw_workers st'). dog_pc w"
  proof (cases a)
    case JStart
    with assms(2) dogs show ?thesis by (auto simp: start_call_def Let_def dog_pc_new split: if_splits)
  next
    case (JRunEnd i)
    with assms(2) show ?thesis by (intro dog_pc_at_worker [OF _ dogs, of i run_end]) (auto dest: dog_pc_step)
  next
    case (JNext i)
    with assms(2) show ?thesis by (intro dog_pc_at_worker [OF _ dogs, of i read_interval]) (auto dest: dog_pc_step)
  next
    case (JTimer i)
    with assms(2) show ?thesis by (intro dog_pc_at_worker [OF _ dogs, of i timer_fires]) (auto dest: dog_pc_step)
  next
    case (JDone i)
    with assms(2) show ?thesis
      by (intro dog_pc_at_worker [OF _ dogs, of i "sees_done (hc_cancelled (jw_host st))"]) (auto dest: dog_pc_step)
  qed (use assms(2) dogs in \<open>auto simp: stop_lock_def stop_cancel_def stop_wait_def split: if_splits stop_pc.splits option.splits\<close>)
  with js_ok_step [of st a st'] assms show ?thesis by (simp add: job_inv_def)
qed

lemma job_inv_run: "\<lbrakk>job_inv st; js_run as st = Some st'\<rbrakk> \<Longrightarrow> job_inv st'"
  by (induction as arbitrary: st) (auto split: option.splits dest: job_inv_step)

lemma job_inv_init: "\<lbrakk>jobs_ok h; hc_jobWG h = []\<rbrakk> \<Longrightarrow> job_inv (js_init h)"
  by (simp add: job_inv_def js_ok_def js_init_def job_view_def alive_def jobs_ok_def)

section \<open>Stop calls return\<close>

text \<open>
  \<open>js_good\<close>: the steps a stop call waits for, each of which uses up the rank: its own, and those
  of goroutines whose job run returns and whose \<open>select\<close> takes the cancelled context.
\<close>

fun js_good :: "job_act \<Rightarrow> bool" where
  "js_good JStart = False"
| "js_good JStop = False"
| "js_good (JTimer i) = False"
| "js_good _ = True"

fun pc_left :: "worker_pc \<Rightarrow> nat" where
  "pc_left PcRun = 3"
| "pc_left PcNext = 2"
| "pc_left PcSelect = 1"
| "pc_left PcExit = 0"

fun stop_left :: "stop_pc \<Rightarrow> nat" where
  "stop_left StopIdle = 0"
| "stop_left StopEntered = 3"
| "stop_left (StopTook c) = 2"
| "stop_left StopWaiting = 1"

definition js_rank :: "('c, 's) job_world \<Rightarrow> nat" where
  "js_rank st = stop_left (jw_stop st) + sum_list (map (pc_left \<circ> wk_pc) (jw_workers st))"

lemma js_rank_worker:
  assumes "at_worker i f st = Some st'" "\<And>w w'. f w = Some w' \<Longrightarrow> pc_left (wk_pc w') < pc_left (wk_pc w)"
  shows "js_rank st' < js_rank st"
proof -
  from assms(1) obtain w' where i: "i < length (jw_workers st)" "f (jw_workers st ! i) = Some w'"
    and st': "st' = st\<lparr>jw_workers := (jw_workers st)[i := w']\<rparr>"
    by (auto simp: at_worker_def split: if_splits)
  from assms(2) [OF i(2)] show ?thesis
    using sum_list_update_add [of i "map (pc_left \<circ> wk_pc) (jw_workers st)" "pc_left (wk_pc w')"] i(1)
    by (simp add: js_rank_def st' map_update)
qed

lemma js_rank_step: "\<lbrakk>js_good a; js_step a st = Some st'\<rbrakk> \<Longrightarrow> js_rank st' < js_rank st"
proof (cases a)
  case (JRunEnd i)
  assume "js_step a st = Some st'"
  with JRunEnd show ?thesis by (auto intro!: js_rank_worker simp: run_end_def split: if_splits)
next
  case (JNext i)
  assume "js_step a st = Some st'"
  with JNext show ?thesis
    by (auto intro!: js_rank_worker simp: read_interval_def split: if_splits goroutine.splits)
next
  case (JDone i)
  assume "js_step a st = Some st'"
  with JDone show ?thesis by (auto intro!: js_rank_worker simp: sees_done_def split: if_splits)
qed (auto simp: js_rank_def stop_lock_def stop_cancel_def stop_wait_def split: if_splits stop_pc.splits option.splits)

interpretation stopping: quiescing js_step js_good job_inv js_rank
  by unfold_locales (auto intro: job_inv_step js_rank_step)

text \<open>Where no such step is possible, no stop call is waiting.\<close>

lemma stopping_at_rest:
  assumes "quiescent js_step js_good st" "job_inv st"
  shows "jw_stop st = StopIdle"
proof (cases "jw_stop st")
  case StopEntered
  with quiescentD [OF assms(1), of JStopLock] show ?thesis by (simp add: stop_lock_def)
next
  case (StopTook c)
  with quiescentD [OF assms(1), of JStopCancel] show ?thesis by (cases c) (simp_all add: stop_cancel_def)
next
  case StopWaiting
  have "wk_pc (jw_workers st ! i) = PcExit" if i: "i < length (jw_workers st)" for i
  proof (rule ccontr)
    let ?w = "jw_workers st ! i"
    assume "wk_pc ?w \<noteq> PcExit"
    with i have "(wk_ctx ?w, wk_go ?w) \<in> set (alive (jw_workers st))" by (simp add: alive_memI)
    then have ctx: "wk_ctx ?w \<in> set (hc_cancelled (jw_host st))" using js_okD(4) [OF _ StopWaiting] assms(2) by (auto simp: job_inv_def)
    have "dog_pc ?w" using assms(2) i by (simp add: job_inv_def)
    have "run_end ?w = None" "read_interval ?w = None" "sees_done (hc_cancelled (jw_host st)) ?w = None"
      using quiescentD [OF assms(1), of "JRunEnd i"] quiescentD [OF assms(1), of "JNext i"]
        quiescentD [OF assms(1), of "JDone i"] i by (simp_all add: at_worker_def)
    with ctx \<open>dog_pc ?w\<close> \<open>wk_pc ?w \<noteq> PcExit\<close> show False
      by (cases "wk_pc ?w"; cases "wk_go ?w") (simp_all add: run_end_def read_interval_def sees_done_def dog_pc_def)
  qed
  then have "alive (jw_workers st) = []" by (auto simp: alive_def filter_empty_conv in_set_conv_nth)
  with quiescentD [OF assms(1), of JStopWait] StopWaiting show ?thesis by (simp add: stop_wait_def)
qed

text \<open>
  What a stop call under way has left of the client it started on: \<open>h0\<close> is the view at the call.
\<close>

definition stopping_from :: "('c, 's) hostClient \<Rightarrow> ('c, 's) job_world \<Rightarrow> bool" where
  "stopping_from h0 st \<longleftrightarrow> jobs_ok h0 \<and>
     (case jw_stop st of
        StopEntered \<Rightarrow> jw_host st = h0\<lparr>hc_jobWG := []\<rparr> \<and> set (alive (jw_workers st)) \<subseteq> set (hc_jobWG h0)
      | StopTook c \<Rightarrow> c = hc_jobCancel h0 \<and> jw_host st = h0\<lparr>hc_jobWG := [], hc_jobCancel := None\<rparr> \<and>
          set (alive (jw_workers st)) \<subseteq> set (hc_jobWG h0)
      | StopWaiting \<Rightarrow> hc_jobCancel h0 \<noteq> None \<and> jw_host st = (stopJobs h0)\<lparr>hc_jobWG := []\<rparr>
      | StopIdle \<Rightarrow> job_view st = stopJobs h0)"

lemma stopping_from_worker:
  assumes sf: "stopping_from h0 st" and at: "at_worker i f st = Some st'" and busy: "jw_stop st \<noteq> StopIdle"
    and f: "\<And>w w'. f w = Some w' \<Longrightarrow> wk_ctx w' = wk_ctx w \<and> wk_go w' = wk_go w \<and> wk_pc w \<noteq> PcExit"
  shows "stopping_from h0 st'"
proof -
  from at obtain w' where i: "i < length (jw_workers st)" "f (jw_workers st ! i) = Some w'"
    and st': "st' = st\<lparr>jw_workers := (jw_workers st)[i := w']\<rparr>"
    by (auto simp: at_worker_def split: if_splits)
  have "set (alive ((jw_workers st)[i := w'])) \<subseteq> set (alive (jw_workers st))"
    by (rule alive_update) (use i f [OF i(2)] in simp_all)
  with sf busy show ?thesis by (auto simp: stopping_from_def st' split: stop_pc.splits)
qed

lemma stopping_from_cancel:
  assumes sf: "stopping_from h0 st" and step: "stop_cancel st = Some st'"
  shows "stopping_from h0 st'"
proof (cases "hc_jobCancel h0")
  case None
  with step sf have t: "jw_stop st = StopTook None" "st' = st\<lparr>jw_stop := StopIdle\<rparr>"
    by (auto simp: stopping_from_def stop_cancel_def split: stop_pc.splits option.splits)
  have "hc_jobWG h0 = []" using sf None by (simp add: stopping_from_def jobs_ok_None)
  with sf t None show ?thesis by (auto simp: stopping_from_def job_view_def stopJobs_None)
next
  case (Some ctx)
  with step sf show ?thesis
    by (auto simp: stopping_from_def stop_cancel_def stopJobs_Some split: stop_pc.splits option.splits)
qed

lemma stopping_from_step:
  assumes sf: "stopping_from h0 st" and step: "js_step a st = Some st'"
    and a: "a \<noteq> JStart" "a \<noteq> JStop" and busy: "jw_stop st \<noteq> StopIdle"
  shows "stopping_from h0 st'"
proof (cases a)
  case JStopLock
  with step sf show ?thesis by (auto simp: stopping_from_def stop_lock_def split: if_splits)
next
  case JStopCancel
  with step stopping_from_cancel [OF sf] show ?thesis by simp
next
  case JStopWait
  with step have t: "jw_stop st = StopWaiting" "st' = st\<lparr>jw_stop := StopIdle\<rparr>" "alive (jw_workers st) = []"
    by (auto simp: stop_wait_def split: if_splits)
  with sf obtain ctx where "hc_jobCancel h0 = Some ctx" "jw_host st = (stopJobs h0)\<lparr>hc_jobWG := []\<rparr>"
    by (auto simp: stopping_from_def)
  with sf t show ?thesis by (simp add: stopping_from_def job_view_def stopJobs_Some)
next
  case (JRunEnd i)
  with step stopping_from_worker [OF sf _ busy, of i run_end] show ?thesis by (auto dest: worker_step)
next
  case (JNext i)
  with step stopping_from_worker [OF sf _ busy, of i read_interval] show ?thesis by (auto dest: worker_step)
next
  case (JTimer i)
  with step stopping_from_worker [OF sf _ busy, of i timer_fires] show ?thesis by (auto dest: worker_step)
next
  case (JDone i)
  with step stopping_from_worker [OF sf _ busy, of i "sees_done (hc_cancelled (jw_host st))"]
  show ?thesis by (auto dest: worker_step)
qed (use a in simp_all)


text \<open>Once the call has returned nothing is left to step, so what it left stands.\<close>

lemma all_returned:
  assumes "alive (jw_workers st) = []"
  shows "at_worker i run_end st = None" "at_worker i read_interval st = None"
    "at_worker i timer_fires st = None" "at_worker i (sees_done c) st = None"
proof -
  have none: "at_worker i f st = None" if f: "\<And>w w'. f w = Some w' \<Longrightarrow> wk_ctx w' = wk_ctx w \<and> wk_go w' = wk_go w \<and> wk_pc w \<noteq> PcExit" for f
  proof (cases "i < length (jw_workers st)")
    case True
    with assms have "wk_pc (jw_workers st ! i) = PcExit" using alive_memI [OF nth_mem [OF True]] by force
    with f have "f (jw_workers st ! i) = None" by (cases "f (jw_workers st ! i)") auto
    then show ?thesis by (simp add: at_worker_def)
  qed (simp add: at_worker_def)
  show "at_worker i run_end st = None" "at_worker i read_interval st = None"
    "at_worker i timer_fires st = None" "at_worker i (sees_done c) st = None"
    by (rule none; erule worker_step)+
qed

lemma stopping_from_idle:
  assumes sf: "stopping_from h0 st" and idle: "jw_stop st = StopIdle" and step: "js_step a st = Some st'"
  shows "a = JStart \<or> a = JStop"
proof -
  from sf idle have "job_view st = stopJobs h0" "jobs_ok h0" by (simp_all add: stopping_from_def)
  then have "hc_jobWG (job_view st) = []" using stopJobs_empty [of h0] by simp
  then have "alive (jw_workers st) = []" by (simp add: job_view_def)
  then show ?thesis
    using step idle by (cases a) (simp_all add: all_returned stop_lock_def stop_cancel_def stop_wait_def)
qed

lemma stopping_from_run:
  "\<lbrakk>stopping_from h0 st; js_run bs st = Some st'; JStart \<notin> set bs; JStop \<notin> set bs\<rbrakk> \<Longrightarrow> stopping_from h0 st'"
proof (induction bs arbitrary: st)
  case (Cons a bs)
  from Cons.prems(2) obtain s1 where s1: "js_step a st = Some s1" "js_run bs s1 = Some st'"
    by (auto split: option.splits)
  have a: "a \<noteq> JStart" "a \<noteq> JStop" using Cons.prems by auto
  have "jw_stop st \<noteq> StopIdle" using stopping_from_idle [OF Cons.prems(1) _ s1(1)] a by blast
  then have "stopping_from h0 s1" using stopping_from_step [OF Cons.prems(1) s1(1)] a by blast
  then show ?case using Cons.IH [of s1] s1(2) Cons.prems(3,4) by simp
qed simp

lemma stopping_from_entry:
  assumes "job_inv st" "jw_stop st = StopIdle"
  shows "stopping_from (job_view st) (st\<lparr>jw_stop := StopEntered\<rparr>)"
proof -
  have ok: "js_ok st" using assms(1) by (simp add: job_inv_def)
  have "jw_host (st\<lparr>jw_stop := StopEntered\<rparr>) = (job_view st)\<lparr>hc_jobWG := []\<rparr>"
    "set (alive (jw_workers (st\<lparr>jw_stop := StopEntered\<rparr>))) \<subseteq> set (hc_jobWG (job_view st))"
    using js_okD(1) [OF ok] by (simp_all add: job_view_def)
  moreover have "jobs_ok (job_view st)" using js_okD(2) [OF ok] assms(2) by simp
  ultimately show ?thesis unfolding stopping_from_def by simp
qed

lemma js_rank_entered:
  "js_rank (st\<lparr>jw_stop := StopEntered\<rparr>) \<le> 3 + 3 * length (alive (jw_workers st))"
proof -
  have "sum_list (map (pc_left \<circ> wk_pc) ws) \<le> 3 * length (alive ws)" for ws
  proof (induction ws)
    case (Cons w ws)
    then show ?case by (cases "wk_pc w") (simp_all add: alive_def)
  qed simp
  then show ?thesis by (simp add: js_rank_def)
qed

lemma js_good_calls: "\<forall>a \<in> set bs. js_good a \<Longrightarrow> JStart \<notin> set bs \<and> JStop \<notin> set bs"
  by auto

text \<open>
  A \<open>select\<close> with both cases ready takes either, so a cancel does not bound how often a job
  still runs: the timer may win any number of times before the goroutine sees the context done.
\<close>

definition one_more :: "nat \<Rightarrow> job_act list" where
  "one_more i = [JTimer i, JRunEnd i, JNext i]"

lemma one_more_run:
  assumes "i < length (jw_workers st)" "jw_workers st ! i = w" "wk_pc w = PcSelect" "wk_go w = JobLoop j"
    and "0 < sint (next_interval j (wk_cycle w))"
  shows "js_run (one_more i) st = Some (st\<lparr>jw_workers := (jw_workers st)[i := w\<lparr>wk_cycle := Suc (wk_cycle w)\<rparr>]\<rparr>)"
proof -
  have same: "w\<lparr>wk_cycle := n, wk_pc := PcSelect\<rparr> = w\<lparr>wk_cycle := n\<rparr>" for n using assms(3) by (cases w) simp
  from assms show ?thesis
    by (simp add: one_more_def at_worker_def timer_fires_def run_end_def read_interval_def same)
qed

lemma runs_after_cancel:
  assumes "i < length (jw_workers st)" "jw_workers st ! i = w" "wk_pc w = PcSelect" "wk_go w = JobLoop j"
    and "\<And>k. 0 < sint (next_interval j k)"
  shows "js_run (concat (replicate n (one_more i))) st =
    Some (st\<lparr>jw_workers := (jw_workers st)[i := w\<lparr>wk_cycle := wk_cycle w + n\<rparr>]\<rparr>)"
  using assms(1-4)
proof (induction n arbitrary: st w)
  case 0
  then show ?case by auto
next
  case (Suc n)
  let ?w = "w\<lparr>wk_cycle := Suc (wk_cycle w)\<rparr>"
  let ?st = "st\<lparr>jw_workers := (jw_workers st)[i := ?w]\<rparr>"
  have "js_run (one_more i) st = Some ?st" using one_more_run Suc.prems assms(5) by blast
  moreover have "js_run (concat (replicate n (one_more i))) ?st =
      Some (?st\<lparr>jw_workers := (jw_workers ?st)[i := ?w\<lparr>wk_cycle := wk_cycle ?w + n\<rparr>]\<rparr>)"
    using Suc.prems by (intro Suc.IH) simp_all
  ultimately show ?case by (simp add: opt_run_append)
qed

text \<open>One job and one stop call: its first run is under way at the call and ends after the cancel.\<close>

definition demo_client :: "(plain_ctx, HostData) hostClient" where
  "demo_client = toy_host\<lparr>hc_jobs := [\<lparr>job_Name = ''beat'', job_Every = 10, job_EveryFunc = None\<rparr>]\<rparr>"

definition demo_stop :: "job_act list" where
  "demo_stop = [JStopLock, JStopCancel, JRunEnd 0, JNext 0, JTimer 0, JRunEnd 0, JNext 0, JDone 0, JStopWait]"

lemma demo_client_ok: "jobs_ok demo_client" "hc_jobWG demo_client = []"
  by (simp_all add: jobs_ok_def demo_client_def toy_host_def)

lemma demo_start:
  "js_run [JStart] (js_init demo_client) = Some (start_call (js_init demo_client))"
  "jw_stop (start_call (js_init demo_client)) = StopIdle"
  by (simp_all add: js_init_def start_call_def Let_def)

lemma demo_workers:
  "jw_workers (start_call (js_init demo_client)) =
     [\<lparr>wk_ctx = 0, wk_go = JobLoop \<lparr>job_Name = ''beat'', job_Every = 10, job_EveryFunc = None\<rparr>, wk_cycle = 0, wk_pc = PcRun\<rparr>]"
  "hc_jobCancel (jw_host (start_call (js_init demo_client))) = Some 0"
  by (simp_all add: js_init_def start_call_def startJobs_fresh demo_client_def toy_host_def job_view_def alive_def)

lemma demo_stop_run:
  "\<exists>st'. js_run (JStop # demo_stop) (start_call (js_init demo_client)) = Some st' \<and> jw_stop st' = StopIdle"
  by (simp add: demo_stop_def stop_lock_def stop_cancel_def stop_wait_def at_worker_def run_end_def
      read_interval_def timer_fires_def sees_done_def next_interval_def demo_workers demo_start alive_def)

section \<open>Stop calls under concurrency\<close>

text \<open>
  However the goroutines interleave with a \<open>stopJobs\<close> call, the client it returns to is the
  one of the atomic model: the cancel function gone, its context cancelled, and the wait group
  empty, so that every job and the watchdog have returned.
\<close>
lemma stopJobs_atomic:
  assumes "jobs_ok h" "hc_jobWG h = []" "js_run as (js_init h) = Some st" "jw_stop st = StopIdle"
    and "js_run (JStop # bs) st = Some st'" "JStart \<notin> set bs" "JStop \<notin> set bs" "jw_stop st' = StopIdle"
  shows "job_view st' = stopJobs (job_view st)"
proof -
  have "job_inv st" using job_inv_run [OF job_inv_init assms(3)] assms(1,2) .
  then have "stopping_from (job_view st) (st\<lparr>jw_stop := StopEntered\<rparr>)" using assms(4) by (rule stopping_from_entry)
  moreover have "js_run bs (st\<lparr>jw_stop := StopEntered\<rparr>) = Some st'" using assms(4,5) by simp
  ultimately have "stopping_from (job_view st) st'" using assms(6,7) by (rule stopping_from_run)
  then show ?thesis using assms(8) by (simp add: stopping_from_def)
qed

lemma stopJobs_atomic_witness:
  "\<exists>st'. js_run (JStop # demo_stop) (start_call (js_init demo_client)) = Some st' \<and>
     job_view st' = stopJobs (job_view (start_call (js_init demo_client)))"
proof -
  obtain st' where st': "js_run (JStop # demo_stop) (start_call (js_init demo_client)) = Some st'"
    "jw_stop st' = StopIdle" using demo_stop_run by blast
  have "JStart \<notin> set demo_stop" "JStop \<notin> set demo_stop" by (simp_all add: demo_stop_def)
  from stopJobs_atomic [OF demo_client_ok demo_start st'(1) this st'(2)] st'(1) show ?thesis by blast
qed

text \<open>
  C9: A \<open>stopJobs\<close> call can always return: from every reachable state the call, the end of the
  job runs under way and the goroutines' sight of the cancelled context, at most three steps
  each, lead to its return, where the client is the one of the atomic model.
\<close>
theorem stopJobs_returns:
  assumes "jobs_ok h" "hc_jobWG h = []" "js_run as (js_init h) = Some st" "jw_stop st = StopIdle"
  shows "\<exists>bs st'. list_all js_good bs \<and> length bs \<le> 3 + 3 * length (alive (jw_workers st)) \<and>
    js_run (JStop # bs) st = Some st' \<and> jw_stop st' = StopIdle \<and> job_view st' = stopJobs (job_view st)"
proof -
  let ?st = "st\<lparr>jw_stop := StopEntered\<rparr>"
  have "job_inv st" using job_inv_run [OF job_inv_init assms(3)] assms(1,2) .
  then have inv: "job_inv ?st" and sf: "stopping_from (job_view st) ?st"
    using job_inv_step [of st JStop ?st] stopping_from_entry [of st] assms(4) by simp_all
  obtain bs st' where bs: "\<forall>a \<in> set bs. js_good a" "js_run bs ?st = Some st'" "quiescent js_step js_good st'"
    using stopping.settles [OF inv] by blast
  have "job_inv st'" "length bs \<le> js_rank ?st" using stopping.run_bounded [OF inv bs(1,2)] by simp_all
  moreover have "stopping_from (job_view st) st'"
    using stopping_from_run [OF sf bs(2)] js_good_calls [OF bs(1)] by blast
  ultimately show ?thesis
    using bs assms(4) stopping_at_rest [OF bs(3)] js_rank_entered [of st]
    by (intro exI [of _ bs] exI [of _ st']) (simp add: stopping_from_def list_all_iff)
qed

theorem stopJobs_returns_witness:
  "\<exists>bs st'. list_all js_good bs \<and> length bs \<le> 6 \<and>
    js_run (JStop # bs) (start_call (js_init demo_client)) = Some st' \<and> jw_stop st' = StopIdle \<and>
    hc_jobWG (job_view st') = [] \<and> hc_cancelled (job_view st') = [0]"
proof -
  let ?st = "start_call (js_init demo_client)"
  have "length (alive (jw_workers ?st)) = 1" by (simp add: demo_workers alive_def)
  moreover have "hc_jobWG (stopJobs (job_view ?st)) = []" "hc_cancelled (stopJobs (job_view ?st)) = [0]"
    by (simp_all add: stopJobs_def job_view_def demo_workers Let_def)
      (simp add: js_init_def start_call_def startJobs_fresh demo_client_def toy_host_def job_view_def)
  ultimately show ?thesis using stopJobs_returns [OF demo_client_ok demo_start] by (auto simp: demo_start(2))
qed

end
