(* ===== verification/JobLoops.thy ===== *)
theory JobLoops
  imports JobSync
begin

text \<open>
  The interleaved goroutines of theory \<open>JobSync\<close> against the sequential loops of \<open>Streams\<close>: what a
  job's goroutine does in any run is the loop \<open>launchJob\<close> on the outcomes of its own \<open>select\<close>.
\<close>

section \<open>One goroutine's own outcomes\<close>

fun sel_of :: "nat \<Rightarrow> job_act \<Rightarrow> job_sel option" where
  "sel_of i (JTimer k) = (if k = i then Some TimerFired else None)"
| "sel_of i (JDone k) = (if k = i then Some JobCtxDone else None)"
| "sel_of i _ = None"

fun sels_of :: "nat \<Rightarrow> job_act list \<Rightarrow> job_sel list" where
  "sels_of i [] = []"
| "sels_of i (a # as) = (case sel_of i a of None \<Rightarrow> sels_of i as | Some s \<Rightarrow> s # sels_of i as)"

lemma sels_of_Cons: "sels_of i (a # as) = sels_of i [a] @ sels_of i as"
  by (simp split: option.split)

text \<open>How often a run ends the i-th goroutine's job: \<open>j.Run(ctx)\<close> has returned.\<close>

definition runs_ended :: "nat \<Rightarrow> job_act list \<Rightarrow> nat" where
  "runs_ended i as = count_list as (JRunEnd i)"

lemma runs_ended_Cons: "runs_ended i (a # as) = runs_ended i [a] + runs_ended i as"
  by (simp add: runs_ended_def)

lemma runs_ended_one [simp]:
  "runs_ended i [] = 0"
  "runs_ended i [a] = (case a of JRunEnd k \<Rightarrow> if i = k then 1 else 0 | _ \<Rightarrow> 0)"
  by (simp_all add: runs_ended_def split: job_act.split)

text \<open>
  Where a job's goroutine is after \<open>k\<close> fired timers: in its job, before its next read of the
  interval, in the \<open>select\<close> after a positive one, or returned on one that is not, or on its
  context.  \<open>n\<close> is how often its job's \<open>Run\<close> has returned.
\<close>

definition all_positive :: "Job \<Rightarrow> nat \<Rightarrow> bool" where
  "all_positive j n \<longleftrightarrow> (\<forall>m < n. 0 < sint (next_interval j m))"

definition loop_at :: "Job \<Rightarrow> job_sel list \<Rightarrow> nat \<Rightarrow> worker \<Rightarrow> bool" where
  "loop_at j sels n w \<longleftrightarrow>
     (case wk_pc w of
        PcSelect \<Rightarrow> wk_cycle w = n \<and> (\<exists>k. n = Suc k \<and> all_positive j (Suc k) \<and> sels = replicate k TimerFired)
      | PcExit \<Rightarrow> \<exists>k. n = Suc k \<and> all_positive j k \<and>
          (sels = replicate k TimerFired \<and> sint (next_interval j k) \<le> 0 \<or>
           sels = replicate k TimerFired @ [JobCtxDone] \<and> 0 < sint (next_interval j k))
      | PcRun \<Rightarrow> wk_cycle w = n \<and> all_positive j n \<and> sels = replicate n TimerFired
      | PcNext \<Rightarrow> n = Suc (wk_cycle w) \<and> all_positive j (wk_cycle w) \<and> sels = replicate (wk_cycle w) TimerFired)"

lemma all_positive_Suc: "all_positive j (Suc n) \<longleftrightarrow> all_positive j n \<and> 0 < sint (next_interval j n)"
  by (auto simp: all_positive_def less_Suc_eq)

lemma loop_at_new: "wk_go (new_worker p) = JobLoop j \<Longrightarrow> loop_at j [] 0 (new_worker p)"
  by (cases p rule: new_worker.cases) (simp_all add: loop_at_def all_positive_def)

lemma loop_at_steps:
  assumes "wk_go w = JobLoop j" "loop_at j sels n w"
  shows "run_end w = Some w' \<Longrightarrow> loop_at j sels (Suc n) w'"
    and "read_interval w = Some w' \<Longrightarrow> loop_at j sels n w'"
    and "timer_fires w = Some w' \<Longrightarrow> loop_at j (sels @ [TimerFired]) n w'"
    and "sees_done c w = Some w' \<Longrightarrow> loop_at j (sels @ [JobCtxDone]) n w'"
  using assms
  by (auto simp: loop_at_def run_end_def read_interval_def timer_fires_def sees_done_def all_positive_Suc not_le
      replicate_append_same split: if_splits worker_pc.splits)

section \<open>Runs\<close>

definition loops_ok :: "(nat \<Rightarrow> job_sel list) \<Rightarrow> (nat \<Rightarrow> nat) \<Rightarrow> ('c, 's) job_world \<Rightarrow> bool" where
  "loops_ok sels ends st \<longleftrightarrow>
     (\<forall>i j. i < length (jw_workers st) \<longrightarrow> wk_go (jw_workers st ! i) = JobLoop j \<longrightarrow>
        loop_at j (sels i) (ends i) (jw_workers st ! i)) \<and>
     (\<forall>i. length (jw_workers st) \<le> i \<longrightarrow> sels i = [] \<and> ends i = 0)"

lemma loops_ok_worker:
  assumes "loops_ok sels ends st" "at_worker i f st = Some st'"
    and "\<And>w w' j. \<lbrakk>f w = Some w'; wk_go w = JobLoop j; loop_at j (sels i) (ends i) w\<rbrakk> \<Longrightarrow> loop_at j (sels i @ xs) (ends i + m) w'"
    and "\<And>w w'. f w = Some w' \<Longrightarrow> wk_ctx w' = wk_ctx w \<and> wk_go w' = wk_go w \<and> wk_pc w \<noteq> PcExit"
  shows "loops_ok (\<lambda>k. sels k @ (if k = i then xs else [])) (\<lambda>k. ends k + (if k = i then m else 0)) st'"
proof -
  from assms(2) obtain w' where i: "i < length (jw_workers st)" "f (jw_workers st ! i) = Some w'"
    and st': "st' = st\<lparr>jw_workers := (jw_workers st)[i := w']\<rparr>"
    by (auto simp: at_worker_def split: if_splits)
  from assms(1) i(1) have "\<And>j. wk_go (jw_workers st ! i) = JobLoop j \<Longrightarrow> loop_at j (sels i) (ends i) (jw_workers st ! i)"
    by (simp add: loops_ok_def)
  with assms(3) [OF i(2)] assms(4) [OF i(2)] assms(1) i(1) show ?thesis
    by (auto simp: loops_ok_def st' nth_list_update)
qed

lemma loops_ok_step:
  assumes ok: "loops_ok sels ends st" and step: "js_step a st = Some st'"
  shows "loops_ok (\<lambda>i. sels i @ sels_of i [a]) (\<lambda>i. ends i + runs_ended i [a]) st'"
proof (cases a)
  case JStart
  with step obtain gs where "jw_workers st' = jw_workers st @ map new_worker gs"
    by (auto simp: start_call_def Let_def split: if_splits)
  with ok JStart show ?thesis
    by (auto simp: loops_ok_def nth_append loop_at_new)
next
  case (JRunEnd i)
  then have "at_worker i run_end st = Some st'" using step by simp
  from loops_ok_worker [OF ok this, of "[]" 1] loop_at_steps(1) worker_step(1)
  have "loops_ok sels (\<lambda>k. ends k + (if k = i then 1 else 0)) st'" by simp
  then show ?thesis by (simp add: JRunEnd)
next
  case (JNext i)
  then have "at_worker i read_interval st = Some st'" using step by simp
  from loops_ok_worker [OF ok this, of "[]" 0] loop_at_steps(2) worker_step(2) JNext show ?thesis
    by auto
next
  case (JTimer i)
  then have "at_worker i timer_fires st = Some st'" using step by simp
  from loops_ok_worker [OF ok this, of "[TimerFired]" 0] loop_at_steps(3) worker_step(3)
  have "loops_ok (\<lambda>k. sels k @ (if k = i then [TimerFired] else [])) ends st'" by simp
  moreover have "sels_of k [JTimer i] = (if k = i then [TimerFired] else [])" for k by simp
  ultimately show ?thesis by (simp add: JTimer del: sels_of.simps)
next
  case (JDone i)
  then have "at_worker i (sees_done (hc_cancelled (jw_host st))) st = Some st'" using step by simp
  from loops_ok_worker [OF ok this, of "[JobCtxDone]" 0] loop_at_steps(4) worker_step(4)
  have "loops_ok (\<lambda>k. sels k @ (if k = i then [JobCtxDone] else [])) ends st'" by simp
  moreover have "sels_of k [JDone i] = (if k = i then [JobCtxDone] else [])" for k by simp
  ultimately show ?thesis by (simp add: JDone del: sels_of.simps)
qed (use step ok in \<open>auto simp: loops_ok_def stop_lock_def stop_cancel_def stop_wait_def
      split: if_splits stop_pc.splits option.splits\<close>)

lemma loops_ok_run:
  "\<lbrakk>loops_ok sels ends st; js_run as st = Some st'\<rbrakk> \<Longrightarrow>
   loops_ok (\<lambda>i. sels i @ sels_of i as) (\<lambda>i. ends i + runs_ended i as) st'"
proof (induction as arbitrary: st sels ends)
  case (Cons a as)
  then obtain s1 where s1: "js_step a st = Some s1" "js_run as s1 = Some st'" by (auto split: option.splits)
  from Cons.IH [OF loops_ok_step [OF Cons.prems(1) s1(1)] s1(2)] show ?case
    by (subst sels_of_Cons, subst runs_ended_Cons) (simp add: add.assoc)
qed simp

lemma loops_ok_init: "loops_ok (\<lambda>i. []) (\<lambda>i. 0) (js_init h)"
  by (simp add: loops_ok_def js_init_def)

text \<open>What the sequential loop says at each of these places.\<close>

lemma job_cycles_fired:
  assumes "\<forall>m < k. 0 < sint (next_interval j (n + m))"
  shows "job_cycles j n (replicate k TimerFired @ sels) =
    (k + fst (job_cycles j (n + k) sels), snd (job_cycles j (n + k) sels))"
  using assms
proof (induction k arbitrary: n)
  case (Suc k)
  have "\<forall>m < k. 0 < sint (next_interval j (Suc n + m))" using Suc.prems by (metis Suc_less_eq add_Suc_shift)
  from Suc.IH [OF this] Suc.prems [rule_format, of 0] show ?case by (simp add: job_cycles_eqs)
qed simp

lemma launchJob_fired:
  "all_positive j k \<Longrightarrow> launchJob j (replicate k TimerFired @ sels) =
     (Suc (k + fst (job_cycles j k sels)), snd (job_cycles j k sels))"
  using job_cycles_fired [of k j 0 sels] by (simp add: launchJob_def all_positive_def)

lemma loop_at_launchJob:
  assumes "loop_at j sels n w"
  shows "n + (if wk_pc w = PcRun then 1 else 0) = fst (launchJob j sels)"
    and "fst (launchJob j sels) = Suc (count_list sels TimerFired)"
    and "wk_pc w = PcSelect \<Longrightarrow> snd (launchJob j sels) = JobWaiting"
    and "wk_pc w = PcExit \<Longrightarrow> snd (launchJob j sels) = JobReturned"
proof -
  have count: "count_list (replicate k TimerFired) TimerFired = k" for k by (induction k) simp_all
  have end0: "job_cycles j k [] = (0, if sint (next_interval j k) \<le> 0 then JobReturned else JobWaiting)" for k
    by (cases "sint (next_interval j k) \<le> 0") (simp_all add: job_cycles_eqs not_le)
  note facts = launchJob_fired [where sels = "[]", simplified] launchJob_fired [where sels = "[JobCtxDone]"]
    count end0 job_cycles_eqs all_positive_Suc
  show "n + (if wk_pc w = PcRun then 1 else 0) = fst (launchJob j sels)"
    using assms by (cases "wk_pc w") (auto simp: loop_at_def facts)
  show "fst (launchJob j sels) = Suc (count_list sels TimerFired)"
    using assms by (cases "wk_pc w") (auto simp: loop_at_def facts)
  show "snd (launchJob j sels) = JobWaiting" if "wk_pc w = PcSelect"
    using assms that by (auto simp: loop_at_def facts)
  show "snd (launchJob j sels) = JobReturned" if "wk_pc w = PcExit"
    using assms that by (auto simp: loop_at_def facts)
qed

section \<open>The atomic calls\<close>

text \<open>What the calls of a run come to, each as one step of \<open>HostClient\<close>.\<close>

fun atomic_calls :: "job_act list \<Rightarrow> ('c, 's) hostClient \<Rightarrow> ('c, 's) hostClient" where
  "atomic_calls [] h = h"
| "atomic_calls (JStart # as) h = atomic_calls as (startJobs h)"
| "atomic_calls (JStop # as) h = atomic_calls as (stopJobs h)"
| "atomic_calls (_ # as) h = atomic_calls as h"

text \<open>
  Between calls the client is the atomic one, with some of its goroutines returned on their own;
  inside a stop call it is on the way from the client at the call to the atomic result.
\<close>

definition shows_atomic :: "('c, 's) hostClient \<Rightarrow> ('c, 's) job_world \<Rightarrow> bool" where
  "shows_atomic a st \<longleftrightarrow>
     (if jw_stop st = StopIdle
      then jobs_ok a \<and> jw_host st = a\<lparr>hc_jobWG := []\<rparr> \<and> set (alive (jw_workers st)) \<subseteq> set (hc_jobWG a)
      else \<exists>a0. a = stopJobs a0 \<and> stopping_from a0 st)"

lemma shows_atomic_worker:
  assumes "shows_atomic a st" "jw_stop st = StopIdle" "at_worker i f st = Some st'"
    and "\<And>w w'. f w = Some w' \<Longrightarrow> wk_ctx w' = wk_ctx w \<and> wk_go w' = wk_go w \<and> wk_pc w \<noteq> PcExit"
  shows "shows_atomic a st'"
proof -
  from assms(3) obtain w' where i: "i < length (jw_workers st)" "f (jw_workers st ! i) = Some w'"
    and st': "st' = st\<lparr>jw_workers := (jw_workers st)[i := w']\<rparr>"
    by (auto simp: at_worker_def split: if_splits)
  have "set (alive ((jw_workers st)[i := w'])) \<subseteq> set (alive (jw_workers st))"
    by (rule alive_update) (use i assms(4) [OF i(2)] in simp_all)
  with assms(1,2) show ?thesis by (auto simp: shows_atomic_def st')
qed

lemma shows_atomic_start:
  assumes "shows_atomic a st" "jw_stop st = StopIdle"
  shows "shows_atomic (startJobs a) (start_call st)"
proof -
  from assms have a: "jobs_ok a" "jw_host st = a\<lparr>hc_jobWG := []\<rparr>" "set (alive (jw_workers st)) \<subseteq> set (hc_jobWG a)"
    by (simp_all add: shows_atomic_def)
  then have view: "job_view st = a\<lparr>hc_jobWG := alive (jw_workers st)\<rparr>" by (simp add: job_view_def)
  have "jw_stop (start_call st) = StopIdle" using assms(2) by (simp add: start_call_def Let_def)
  moreover have "jobs_ok (startJobs a)" using a(1) by (rule jobs_ok_startJobs)
  moreover have "jw_host (start_call st) = (startJobs a)\<lparr>hc_jobWG := []\<rparr>"
    by (cases "hc_jobCancel a") (simp_all add: start_call_def Let_def view startJobs_fresh, simp_all add: startJobs_def)
  moreover have "set (alive (jw_workers (start_call st))) \<subseteq> set (hc_jobWG (startJobs a))"
  proof -
    have "alive (jw_workers (start_call st)) = hc_jobWG (job_view (start_call st))" by (simp add: job_view_def)
    then have "alive (jw_workers (start_call st)) = hc_jobWG (startJobs (a\<lparr>hc_jobWG := alive (jw_workers st)\<rparr>))"
      by (simp only: job_view_start view)
    with a(3) show ?thesis by (cases "hc_jobCancel a") (auto simp: startJobs_fresh, auto simp: startJobs_def)
  qed
  ultimately show ?thesis by (simp add: shows_atomic_def)
qed

lemma shows_atomic_idle:
  assumes sh: "shows_atomic a st" and idle: "jw_stop st = StopIdle" and step: "js_step act st = Some st'"
  shows "shows_atomic (atomic_calls [act] a) st'"
proof (cases act)
  case JStart
  with step idle have "st' = start_call st" by simp
  with shows_atomic_start [OF sh idle] JStart show ?thesis by simp
next
  case JStop
  with step idle have "st' = st\<lparr>jw_stop := StopEntered\<rparr>" by simp
  moreover have "stopping_from a (st\<lparr>jw_stop := StopEntered\<rparr>)"
    using sh idle by (simp add: shows_atomic_def stopping_from_def)
  ultimately show ?thesis using JStop by (auto simp: shows_atomic_def)
next
  case (JRunEnd i)
  then have "at_worker i run_end st = Some st'" using step by simp
  from shows_atomic_worker [OF sh idle this] worker_step(1) JRunEnd show ?thesis by simp
next
  case (JNext i)
  then have "at_worker i read_interval st = Some st'" using step by simp
  from shows_atomic_worker [OF sh idle this] worker_step(2) JNext show ?thesis by simp
next
  case (JTimer i)
  then have "at_worker i timer_fires st = Some st'" using step by simp
  from shows_atomic_worker [OF sh idle this] worker_step(3) JTimer show ?thesis by simp
next
  case (JDone i)
  then have "at_worker i (sees_done (hc_cancelled (jw_host st))) st = Some st'" using step by simp
  from shows_atomic_worker [OF sh idle this] worker_step(4) JDone show ?thesis by simp
qed (use step idle in \<open>simp_all add: stop_lock_def stop_cancel_def stop_wait_def\<close>)

lemma shows_atomic_step:
  assumes sh: "shows_atomic a st" and inv: "job_inv st" and step: "js_step act st = Some st'"
  shows "shows_atomic (atomic_calls [act] a) st'"
proof (cases "jw_stop st = StopIdle")
  case True
  from shows_atomic_idle [OF sh this step] show ?thesis .
next
  case False
  with sh obtain a0 where a0: "a = stopJobs a0" "stopping_from a0 st" by (auto simp: shows_atomic_def)
  have act: "act \<noteq> JStart" "act \<noteq> JStop" using step False by (auto split: if_splits)
  then have same: "atomic_calls [act] a = a" by (cases act) simp_all
  have sf: "stopping_from a0 st'" using stopping_from_step [OF a0(2) step act False] .
  have "shows_atomic a st'"
  proof (cases "jw_stop st' = StopIdle")
    case idle: True
    then have view: "job_view st' = a" "jobs_ok a" using sf a0(1) jobs_ok_stopJobs by (auto simp: stopping_from_def)
    have "hc_jobWG (jw_host st') = []" using job_inv_step [OF inv step] js_okD(1) by (auto simp: job_inv_def)
    then have "jw_host st' = (job_view st')\<lparr>hc_jobWG := []\<rparr>" "alive (jw_workers st') = hc_jobWG (job_view st')"
      by (simp_all add: job_view_def)
    with idle view show ?thesis unfolding shows_atomic_def by simp
  qed (use sf a0(1) in \<open>auto simp: shows_atomic_def\<close>)
  then show ?thesis unfolding same .
qed

lemma atomic_calls_Cons: "atomic_calls (act # as) a = atomic_calls as (atomic_calls [act] a)"
  by (cases act) simp_all

lemma shows_atomic_run:
  "\<lbrakk>shows_atomic a st; job_inv st; js_run as st = Some st'\<rbrakk> \<Longrightarrow> shows_atomic (atomic_calls as a) st'"
proof (induction as arbitrary: st a)
  case (Cons act as)
  then obtain s1 where s1: "js_step act st = Some s1" "js_run as s1 = Some st'" by (auto split: option.splits)
  from Cons.IH [OF shows_atomic_step [OF Cons.prems(1,2) s1(1)] job_inv_step [OF Cons.prems(2) s1(1)] s1(2)]
  show ?case by (subst atomic_calls_Cons)
qed simp

section \<open>Properties\<close>

text \<open>
  C5: However starts, stops, jobs and watchdog interleave, between calls the client is the one the
  atomic model computes from the calls alone; of the goroutines the atomic model has running,
  some may have returned, and after a stop there are none.
\<close>
theorem job_calls_refine_atomic:
  assumes "jobs_ok h" "hc_jobWG h = []" "js_run as (js_init h) = Some st" "jw_stop st = StopIdle"
  shows "\<exists>gs. job_view st = (atomic_calls as h)\<lparr>hc_jobWG := gs\<rparr> \<and> set gs \<subseteq> set (hc_jobWG (atomic_calls as h))"
proof -
  have "shows_atomic h (js_init h)" using assms(1,2) by (simp add: shows_atomic_def js_init_def alive_def)
  from shows_atomic_run [OF this job_inv_init [OF assms(1,2)] assms(3)] assms(4)
  have "jw_host st = (atomic_calls as h)\<lparr>hc_jobWG := []\<rparr>"
    "set (alive (jw_workers st)) \<subseteq> set (hc_jobWG (atomic_calls as h))" by (simp_all add: shows_atomic_def)
  then show ?thesis by (intro exI [of _ "alive (jw_workers st)"]) (simp add: job_view_def)
qed

theorem job_calls_refine_atomic_witness:
  "\<exists>st. js_run (JStart # JStop # demo_stop) (js_init demo_client) = Some st \<and>
     job_view st = stopJobs (startJobs demo_client)"
proof -
  obtain st where st: "js_run (JStop # demo_stop) (start_call (js_init demo_client)) = Some st" "jw_stop st = StopIdle"
    using demo_stop_run by blast
  then have run: "js_run (JStart # JStop # demo_stop) (js_init demo_client) = Some st"
    using demo_start(1) by (auto split: if_splits)
  have calls: "atomic_calls (JStart # JStop # demo_stop) demo_client = stopJobs (startJobs demo_client)"
    by (simp add: demo_stop_def)
  have none: "hc_jobWG (stopJobs (startJobs demo_client)) = []"
    using stopJobs_empty [OF jobs_ok_startJobs [OF demo_client_ok(1)]] by simp
  from job_calls_refine_atomic [OF demo_client_ok run st(2), unfolded calls none]
  have "job_view st = (stopJobs (startJobs demo_client))\<lparr>hc_jobWG := []\<rparr>" by simp
  with none have "job_view st = stopJobs (startJobs demo_client)" by (cases "stopJobs (startJobs demo_client)") simp
  with run show ?thesis by blast
qed

text \<open>
  C38: In every run of starts, stops and goroutines, each job's goroutine does what the job loop
  alone does on the outcomes of its own \<open>select\<close>.  It has entered its job's \<open>Run\<close> (the runs that
  have returned, and the one it is in) exactly as often as the loop says, once and once more per
  timer taken; it waits where the loop waits; and it has returned only where the loop returns.
\<close>
theorem worker_follows_job_loop:
  assumes "js_run as (js_init h) = Some st" "i < length (jw_workers st)" "wk_go (jw_workers st ! i) = JobLoop j"
  shows "runs_ended i as + (if wk_pc (jw_workers st ! i) = PcRun then 1 else 0) = fst (launchJob j (sels_of i as)) \<and>
    fst (launchJob j (sels_of i as)) = Suc (count_list (sels_of i as) TimerFired) \<and>
    (wk_pc (jw_workers st ! i) = PcSelect \<longrightarrow> snd (launchJob j (sels_of i as)) = JobWaiting) \<and>
    (wk_pc (jw_workers st ! i) = PcExit \<longrightarrow> snd (launchJob j (sels_of i as)) = JobReturned)"
proof -
  have "loop_at j (sels_of i as) (runs_ended i as) (jw_workers st ! i)"
    using loops_ok_run [OF loops_ok_init assms(1)] assms(2,3) by (simp add: loops_ok_def)
  from loop_at_launchJob [OF this] show ?thesis by blast
qed

theorem worker_follows_job_loop_witness:
  "\<exists>st. js_run (JStart # JStop # demo_stop) (js_init demo_client) = Some st \<and> wk_pc (jw_workers st ! 0) = PcExit \<and>
     runs_ended 0 (JStart # JStop # demo_stop) = 2 \<and>
     launchJob \<lparr>job_Name = ''beat'', job_Every = 10, job_EveryFunc = None\<rparr> (sels_of 0 (JStart # JStop # demo_stop)) =
       (2, JobReturned)"
proof -
  let ?j = "\<lparr>job_Name = ''beat'', job_Every = 10, job_EveryFunc = None\<rparr>"
  have "\<exists>st'. js_run (JStop # demo_stop) (start_call (js_init demo_client)) = Some st' \<and> length (jw_workers st') = 1 \<and>
      wk_go (jw_workers st' ! 0) = JobLoop ?j \<and> wk_pc (jw_workers st' ! 0) = PcExit"
    by (simp add: demo_stop_def stop_lock_def stop_cancel_def stop_wait_def at_worker_def run_end_def
        read_interval_def timer_fires_def sees_done_def next_interval_def demo_workers demo_start alive_def)
  then obtain st' where st': "js_run (JStart # JStop # demo_stop) (js_init demo_client) = Some st'" "length (jw_workers st') = 1"
    "wk_go (jw_workers st' ! 0) = JobLoop ?j" "wk_pc (jw_workers st' ! 0) = PcExit"
    using demo_start(1) by (auto split: if_splits)
  have ended: "runs_ended 0 (JStart # JStop # demo_stop) = 2" by (simp add: runs_ended_def demo_stop_def)
  from worker_follows_job_loop [OF st'(1) _ st'(3)] st'(2,4) ended
  have "launchJob ?j (sels_of 0 (JStart # JStop # demo_stop)) = (2, JobReturned)" by (simp add: prod_eq_iff)
  with st'(1,4) ended show ?thesis by blast
qed

end
