(* ===== verification/HostProps.thy ===== *)
theory HostProps
  imports ToyModule
begin

text \<open>
  What the host surfaces promise a module, proved of the client (\<open>modulesdk/hostclient.go\<close>)
  and the stub services (\<open>modulesdk/testkit/hostserver.go\<close>, \<open>hostdata.go\<close>) together: the
  handshake token, the store's namespaces and the attribution of published events.  The store
  facts are those of the locale \<open>kv_store\<close> as interpreted on \<open>HostData\<close>.
\<close>

section \<open>The token\<close>

definition token_refusal :: "('c, 's) hostClient \<Rightarrow> go_error" where
  "token_refusal h =
     sentinel_of (hc_from_error h) (StatusError Unauthenticated ''missing or wrong handshake token'')"

fun is_declare :: "host_call \<Rightarrow> bool" where
  "is_declare (CallDeclare ss) = True"
| "is_declare _ = False"

lemma intercept_Inl: "intercept h (Inl e, s) = (Inl (sentinel_of (hc_from_error h) e), s)"
  by (simp add: intercept_def)

lemma map_reply_Inl: "map_reply f (Inl e, s) = (Inl e, s)"
  by (simp add: map_reply_def)

text \<open>
  What a refused call replies: a unary one the error, a streaming one a channel that closes without
  having carried anything.
\<close>

fun refused_reply :: "('c, 's) hostClient \<Rightarrow> host_call \<Rightarrow> host_reply" where
  "refused_reply h CallReceive = RepMessages [] True"
| "refused_reply h CallWatch = RepDocuments [] True"
| "refused_reply h (CallSubscribe ts) = RepEvents [] True"
| "refused_reply h _ = RepErr (token_refusal h)"

lemma refused_call:
  assumes "hc_rpc h = registerHostServices md_get token moduleID seed now lives"
    and "md_get (withToken h ctx) TokenMetadataKey \<noteq> [token]"
    and "\<not> is_declare c"
  shows "host_do ctx c h d = (refused_reply h c, h, d)"
  using assms
  by (cases c)
    (simp_all add: registerHostServices_def unary_guard_refuse stream_guard_refuse as_reply_def intercept_Inl map_reply_Inl
      token_refusal_def WhoAmI_def MintCredential_def TransportSend_def PolicyGet_def storeGet_def
      storePut_def storeDelete_def storeList_def EventsPublish_def Receive_def Watch_def Subscribe_def open_stream_def)

section \<open>The store as a map per namespace\<close>

definition ns_view :: "string \<Rightarrow> HostData \<Rightarrow> string \<rightharpoonup> bytes" where
  "ns_view ns d = (\<lambda>k. map_of (hd_store d) (StoreOf ns @ k))"

definition found :: "bytes option \<Rightarrow> bytes \<times> bool" where
  "found r = (case r of None \<Rightarrow> ([], False) | Some v \<Rightarrow> (v, True))"

lemma found_snd [simp]: "snd (found r) \<longleftrightarrow> r \<noteq> None"
  by (simp add: found_def split: option.split)

lemma found_inj: "found r = found r' \<longleftrightarrow> r = r'"
  by (auto simp: found_def split: option.splits)

lemma StoreGet_view: "StoreGet d (StoreOf ns @ k) = found (ns_view ns d k)"
  by (simp add: StoreGet_def ns_view_def found_def)

lemma ns_view_eqI:
  "(\<And>k. StoreGet d (StoreOf ns @ k) = StoreGet d' (StoreOf ns' @ k)) \<Longrightarrow> ns_view ns d = ns_view ns' d'"
  by (simp add: StoreGet_view found_inj fun_eq_iff)

lemma ns_view_put: "ns_view ns (StorePut (StoreOf ns @ k) v d) = (ns_view ns d)(k \<mapsto> v)"
  by (simp add: ns_view_def map_of_Put fun_eq_iff)

lemma ns_view_del: "ns_view ns (StoreDelete (StoreOf ns @ k) d) = (ns_view ns d)(k := None)"
  by (simp add: ns_view_def map_of_Delete fun_eq_iff)

lemma ns_keys:
  "set (map (trim_prefix (StoreOf ns)) (StoreKeys seed d (StoreOf ns @ p))) =
     {k \<in> dom (ns_view ns d). prefix p k}"
  by (simp only: hd.view_keys StoreGet_view found_snd dom_def mem_Collect_eq)

section \<open>Properties\<close>

text \<open>
  C15: no host call gets through without the handshake token, and only one: if the client holds
  another token, or the caller's context already carries a value under the token's key, every
  call that reaches the host is refused and changes nothing on either side.  A unary call gets the
  same error always; \<open>Receive\<close>, \<open>Watch\<close> and \<open>Subscribe\<close> return a channel that closes with nothing
  on it, and nobody is registered for policies or events.
\<close>
theorem token_required:
  assumes "hc_rpc h = registerHostServices md_get token moduleID seed now lives"
    and "\<And>k v. md_get (hc_append h ctx k v) k = md_get ctx k @ [v]"
    and "md_get ctx TokenMetadataKey \<noteq> [] \<or> hc_token h \<noteq> token"
    and "\<not> is_declare c"
  shows "host_do ctx c h d = (refused_reply h c, h, d)"
  using assms(3) by (intro refused_call [OF assms(1) _ assms(4)]) (auto simp: withToken_def assms(2))

theorem token_required_witness:
  "host_do [(TokenMetadataKey, ''tok'')] (CallStorePut ''ns'' ''k'' ''v'') toy_host NewHostData =
     (RepErr (token_refusal toy_host), toy_host, NewHostData) \<and>
   host_do [(TokenMetadataKey, ''tok'')] (CallSubscribe [''*'']) toy_host NewHostData =
     (RepEvents [] True, toy_host, NewHostData)"
proof -
  have "host_do [(TokenMetadataKey, ''tok'')] c toy_host NewHostData = (refused_reply toy_host c, toy_host, NewHostData)"
    if "\<not> is_declare c" for c
    by (rule token_required [of _ plain_get "''tok''" "''toy''" 0 0 idle_lives, OF _ _ _ that])
      (simp_all add: toy_host_def toy_rpc_def plain_get_def plain_append_def)
  from this [of "CallStorePut ''ns'' ''k'' ''v''"] this [of "CallSubscribe [''*'']"] show ?thesis by simp
qed

text \<open>
  Through a namespaced \<open>Store\<close> the host's flat store is a map from the module's own keys:
  a lookup, a write and a delete are the map's, and a listing names exactly the present keys
  that have the prefix, without the namespace, each once.
\<close>
lemma store_refines_map:
  assumes "stub_served md_get moduleID seed now h ctx" and "store_ok d"
  shows "storeGet h (StoreOf ns) ctx k d = (Inr (found (ns_view ns d k)), d) \<and>
    (\<exists>d'. storePut h (StoreOf ns) ctx k v d = (Inr (), d') \<and> store_ok d' \<and>
       ns_view ns d' = (ns_view ns d)(k \<mapsto> v)) \<and>
    (\<exists>d'. storeDelete h (StoreOf ns) ctx k d = (Inr (), d') \<and> store_ok d' \<and>
       ns_view ns d' = (ns_view ns d)(k := None)) \<and>
    (\<exists>ks. storeList h (StoreOf ns) ctx p d = (Inr ks, d) \<and> distinct ks \<and>
       set ks = {k \<in> dom (ns_view ns d). prefix p k})"
  unfolding stub_store_ops [OF assms(1)]
  using hd.ok_put [OF assms(2)] hd.ok_del [OF assms(2)] hd.view_keys_distinct [OF assms(2)] ns_keys
  by (simp add: StoreGet_view ns_view_put ns_view_del del: set_map)

lemma store_refines_map_witness:
  "\<exists>d'. storePut toy_host (StoreOf ''ns'') [] ''k'' ''v'' NewHostData = (Inr (), d') \<and> store_ok d' \<and>
     ns_view ''ns'' d' = (ns_view ''ns'' NewHostData)(''k'' \<mapsto> ''v'')"
  using store_refines_map [OF toy_host_served store_ok_New] by blast

text \<open>
  Two namespaces without a slash in their names never see each other: a write or a delete
  through one leaves the other's map as it was.
\<close>
lemma store_namespaces_isolated:
  assumes "stub_served md_get moduleID seed now h ctx"
    and "CHR ''/'' \<notin> set ns1" "CHR ''/'' \<notin> set ns2" "ns1 \<noteq> []" "ns2 \<noteq> []" "ns1 \<noteq> ns2"
  shows "ns_view ns2 (snd (storePut h (StoreOf ns1) ctx k v d)) = ns_view ns2 d \<and>
    ns_view ns2 (snd (storeDelete h (StoreOf ns1) ctx k d)) = ns_view ns2 d"
proof -
  have "StoreOf ns1 @ k \<noteq> StoreOf ns2 @ k'" for k'
    using ns_prefix_disjoint [OF assms(2-5)] assms(6) by blast
  then show ?thesis
    unfolding stub_store_ops [OF assms(1)]
    by (auto intro!: ns_view_eqI simp: hd.disjoint_put hd.disjoint_del)
qed

lemma store_namespaces_isolated_witness:
  "ns_view ''b'' (snd (storePut toy_host (StoreOf ''a'') [] ''k'' ''v'' NewHostData)) =
     ns_view ''b'' NewHostData"
  using store_namespaces_isolated [OF toy_host_served, of "''a''" "''b''"] by simp

text \<open>
  The root store and a namespace whose name has a slash are not isolated: what namespace
  \<open>ns\<close> holds under \<open>k\<close>, the root store holds under \<open>ns/k\<close>, and the namespace \<open>ns/sub\<close> holds
  what \<open>ns\<close> has under \<open>sub/k\<close>.
\<close>
lemma store_namespaces_overlap:
  assumes "stub_served md_get moduleID seed now h ctx" and "ns \<noteq> []"
  shows "storeGet h (StoreOf []) ctx (ns @ ''/'' @ k) (snd (storePut h (StoreOf ns) ctx k v d)) =
      (Inr (v, True), snd (storePut h (StoreOf ns) ctx k v d)) \<and>
    storeGet h (StoreOf (ns @ ''/'' @ sub)) ctx k (snd (storePut h (StoreOf ns) ctx (sub @ ''/'' @ k) v d)) =
      (Inr (v, True), snd (storePut h (StoreOf ns) ctx (sub @ ''/'' @ k) v d))"
  unfolding stub_store_ops [OF assms(1)] using assms(2)
  by (simp add: StoreOf_def hd.get_put)

lemma store_namespaces_overlap_witness:
  "storeGet toy_host (StoreOf []) [] ''a/k'' (snd (storePut toy_host (StoreOf ''a'') [] ''k'' ''v'' NewHostData)) =
     (Inr (''v'', True), snd (storePut toy_host (StoreOf ''a'') [] ''k'' ''v'' NewHostData))"
  using store_namespaces_overlap [OF toy_host_served, of "''a''" "''k''" "''v''" NewHostData] by simp

text \<open>
  The stub attributes every publish to the publishing module: with module ids free of dots,
  a subscriber to \<open>id.*\<close> is delivered the events of that module and of no other.
\<close>
lemma publish_attributed:
  assumes "stub_served md_get moduleID seed now h ctx"
    and "CHR ''.'' \<notin> set moduleID" "CHR ''.'' \<notin> set other"
  shows "\<exists>d'. EventsPublish h ctx topic data d = (Inr (), d') \<and>
    Events d' = Events d @ [\<lparr>ev_Topic = moduleID @ ''.'' @ topic, ev_Data = data, ev_At = now\<rparr>] \<and>
    (topicMatches [other @ ''.*''] (ev_Topic (last (Events d'))) \<longleftrightarrow> other = moduleID)"
proof -
  have "topicMatches [other @ ''.*''] (moduleID @ CHR ''.'' # topic) \<longleftrightarrow> other = moduleID"
  proof
    assume "topicMatches [other @ ''.*''] (moduleID @ CHR ''.'' # topic)"
    then have "prefix (other @ ''.'') (moduleID @ CHR ''.'' # topic)"
      unfolding topicMatches_glob glob_matches_def
      by (auto simp: prefix_def intro: exI [of _ "''*''"] dest: sym)
    then obtain r where "other @ CHR ''.'' # r = moduleID @ CHR ''.'' # topic"
      by (auto simp: prefix_def)
    then have "split_on (CHR ''.'') (other @ CHR ''.'' # r) = split_on (CHR ''.'') (moduleID @ CHR ''.'' # topic)"
      by simp
    then show "other = moduleID" using assms(2,3) by (simp add: split_on_append_sep)
  next
    assume "other = moduleID"
    then show "topicMatches [other @ ''.*''] (moduleID @ CHR ''.'' # topic)"
      unfolding topicMatches_glob glob_matches_def by (auto intro!: exI [of _ "moduleID @ ''.''"])
  qed
  then show ?thesis
    unfolding stub_publish [OF assms(1)] by (simp add: Publish_def Let_def Events_def del: topicMatches.simps)
qed

lemma publish_attributed_witness:
  "\<exists>d'. EventsPublish toy_host [] ''started'' ''hello'' NewHostData = (Inr (), d') \<and>
     Events d' = Events NewHostData @ [\<lparr>ev_Topic = ''toy.started'', ev_Data = ''hello'', ev_At = 0\<rparr>]"
  using publish_attributed [OF toy_host_served, of "''toy''" "''started''" "''hello''" NewHostData] by auto

end
