(* ===== verification/HostIface.thy ===== *)
theory HostIface
  imports HostProps Streams
begin

text \<open>
  The interfaces of \<open>modulesdk/module.go\<close> as records of functions, the runtime's
  implementation of them (\<open>hostclient.go\<close>), and what they promise a module as a step relation.
  A Go interface value holds a pointer, so the methods here pass the state behind it, \<open>'st\<close>;
  a channel returned is what it delivers in its life and whether it was closed.
\<close>

section \<open>The interfaces\<close>

record ('c, 'st) Identity_iface =
  if_WhoAmI :: "'c \<Rightarrow> ('st, DeviceIdentity) served"
  if_Credential :: "'c \<Rightarrow> string list \<Rightarrow> ('st, Credential) served"

record ('c, 'st) Transport_iface =
  if_Send :: "'c \<Rightarrow> Message \<Rightarrow> bool \<Rightarrow> ('st, bool) served"
  if_Receive :: "'c \<Rightarrow> ('st, Message list \<times> bool) served"

record ('c, 'st) PolicyReader_iface =
  if_PolicyGet :: "'c \<Rightarrow> ('st, PolicyDocument) served"
  if_Watch :: "'c \<Rightarrow> ('st, PolicyDocument list \<times> bool) served"

record ('c, 'st) Store_iface =
  if_Get :: "'c \<Rightarrow> string \<Rightarrow> ('st, bytes \<times> bool) served"
  if_Put :: "'c \<Rightarrow> string \<Rightarrow> bytes \<Rightarrow> ('st, unit) served"
  if_Delete :: "'c \<Rightarrow> string \<Rightarrow> ('st, unit) served"
  if_List :: "'c \<Rightarrow> string \<Rightarrow> ('st, string list) served"

record ('c, 'st) Events_iface =
  if_Publish :: "'c \<Rightarrow> string \<Rightarrow> bytes \<Rightarrow> ('st, unit) served"
  if_Subscribe :: "'c \<Rightarrow> string list \<Rightarrow> ('st, Event list \<times> bool) served"

record 'st UIBroker_iface =
  if_Declare :: "Surface list \<Rightarrow> 'st \<Rightarrow> go_error option \<times> 'st"

record ('c, 'st, 'l) Host_iface =
  if_Identity :: "('c, 'st) Identity_iface"
  if_Transport :: "('c, 'st) Transport_iface"
  if_Policy :: "('c, 'st) PolicyReader_iface"
  if_Store :: "string \<Rightarrow> ('c, 'st) Store_iface"
  if_Events :: "('c, 'st) Events_iface"
  if_UI :: "'st UIBroker_iface"
  if_Log :: "'st \<Rightarrow> 'l"

section \<open>The runtime's implementation\<close>

text \<open>The wrapper structs hold the client pointer (and the store its prefix).\<close>

type_synonym ('c, 's) client_state = "('c, 's) hostClient \<times> 's"

definition on_client ::
  "(('c, 's) hostClient \<Rightarrow> ('s, 'a) served) \<Rightarrow> (('c, 's) client_state, 'a) served" where
  "on_client f = (\<lambda>(h, s). case f h s of (r, s') \<Rightarrow> (r, (h, s')))"

definition identityClient :: "('c, ('c, 's) client_state) Identity_iface" where
  "identityClient =
     \<lparr>if_WhoAmI = (\<lambda>ctx. on_client (\<lambda>h. WhoAmI h ctx)),
      if_Credential = (\<lambda>ctx scopes. on_client (\<lambda>h. MintCredential h ctx scopes))\<rparr>"

definition transportClient :: "('c, ('c, 's) client_state) Transport_iface" where
  "transportClient =
     \<lparr>if_Send = (\<lambda>ctx msg queueOffline. on_client (\<lambda>h. TransportSend h ctx msg queueOffline)),
      if_Receive = (\<lambda>ctx. on_client (\<lambda>h. Receive h ctx))\<rparr>"

definition policyClient :: "('c, ('c, 's) client_state) PolicyReader_iface" where
  "policyClient =
     \<lparr>if_PolicyGet = (\<lambda>ctx. on_client (\<lambda>h. PolicyGet h ctx)),
      if_Watch = (\<lambda>ctx. on_client (\<lambda>h. Watch h ctx))\<rparr>"

definition storeClient :: "string \<Rightarrow> ('c, ('c, 's) client_state) Store_iface" where
  "storeClient pre =
     \<lparr>if_Get = (\<lambda>ctx key. on_client (\<lambda>h. storeGet h pre ctx key)),
      if_Put = (\<lambda>ctx key v. on_client (\<lambda>h. storePut h pre ctx key v)),
      if_Delete = (\<lambda>ctx key. on_client (\<lambda>h. storeDelete h pre ctx key)),
      if_List = (\<lambda>ctx p. on_client (\<lambda>h. storeList h pre ctx p))\<rparr>"

definition eventsClient :: "('c, ('c, 's) client_state) Events_iface" where
  "eventsClient =
     \<lparr>if_Publish = (\<lambda>ctx topic data. on_client (\<lambda>h. EventsPublish h ctx topic data)),
      if_Subscribe = (\<lambda>ctx topics. on_client (\<lambda>h. Subscribe h ctx topics))\<rparr>"

definition uiBroker :: "('c, 's) client_state UIBroker_iface" where
  "uiBroker = \<lparr>if_Declare = (\<lambda>ss (h, s). case Declare ss h of (e, h') \<Rightarrow> (e, (h', s)))\<rparr>"

text \<open>\<open>*hostClient\<close> as the \<open>Host\<close> handed to a module; \<open>lg\<close> picks the logger (\<open>ModuleLog\<close>).\<close>

definition client_Host ::
  "(('c, 's) client_state \<Rightarrow> 'l) \<Rightarrow> ('c, ('c, 's) client_state, 'l) Host_iface" where
  "client_Host lg =
     \<lparr>if_Identity = identityClient, if_Transport = transportClient, if_Policy = policyClient,
      if_Store = (\<lambda>ns. storeClient (StoreOf ns)), if_Events = eventsClient, if_UI = uiBroker,
      if_Log = lg\<rparr>"

section \<open>A module over an interface\<close>

definition reply_of :: "('a \<Rightarrow> host_reply) \<Rightarrow> (go_error + 'a) \<times> 'st \<Rightarrow> host_reply \<times> 'st" where
  "reply_of f r = (case fst r of Inl e \<Rightarrow> (RepErr e, snd r) | Inr a \<Rightarrow> (f a, snd r))"

fun call_on :: "('c, 'st, 'l) Host_iface \<Rightarrow> 'c \<Rightarrow> host_call \<Rightarrow> 'st \<Rightarrow> host_reply \<times> 'st" where
  "call_on H ctx CallWhoAmI st = reply_of RepDevice (if_WhoAmI (if_Identity H) ctx st)"
| "call_on H ctx (CallCredential sc) st = reply_of RepCredential (if_Credential (if_Identity H) ctx sc st)"
| "call_on H ctx (CallSend m q) st = reply_of RepDelivered (if_Send (if_Transport H) ctx m q st)"
| "call_on H ctx CallPolicyGet st = reply_of RepPolicy (if_PolicyGet (if_Policy H) ctx st)"
| "call_on H ctx (CallStoreGet ns k) st =
     reply_of (\<lambda>(v, found). RepValue v found) (if_Get (if_Store H ns) ctx k st)"
| "call_on H ctx (CallStorePut ns k v) st = reply_of (\<lambda>_. RepDone) (if_Put (if_Store H ns) ctx k v st)"
| "call_on H ctx (CallStoreDelete ns k) st = reply_of (\<lambda>_. RepDone) (if_Delete (if_Store H ns) ctx k st)"
| "call_on H ctx (CallStoreList ns p) st = reply_of RepKeys (if_List (if_Store H ns) ctx p st)"
| "call_on H ctx (CallPublish t v) st = reply_of (\<lambda>_. RepDone) (if_Publish (if_Events H) ctx t v st)"
| "call_on H ctx (CallDeclare ss) st =
     (case if_Declare (if_UI H) ss st of (Some e, st') \<Rightarrow> (RepErr e, st') | (None, st') \<Rightarrow> (RepDone, st'))"
| "call_on H ctx CallReceive st =
     reply_of (\<lambda>(ms, closed). RepMessages ms closed) (if_Receive (if_Transport H) ctx st)"
| "call_on H ctx CallWatch st =
     reply_of (\<lambda>(ds, closed). RepDocuments ds closed) (if_Watch (if_Policy H) ctx st)"
| "call_on H ctx (CallSubscribe ts) st =
     reply_of (\<lambda>(es, closed). RepEvents es closed) (if_Subscribe (if_Events H) ctx ts st)"

primrec module_on :: "('c, 'st, 'l) Host_iface \<Rightarrow> 'a prog \<Rightarrow> 'c \<Rightarrow> 'st \<Rightarrow> 'a \<times> 'st" where
  "module_on H (Return a) ctx st = (a, st)"
| "module_on H (Call c k) ctx st = (case call_on H ctx c st of (r, st') \<Rightarrow> module_on H (k r) ctx st')"

lemma reply_of_client:
  "reply_of f (on_client g (h, s)) = (case as_reply f h (g h s) of (r, h', s') \<Rightarrow> (r, (h', s')))"
  by (simp add: reply_of_def on_client_def as_reply_def split: prod.split sum.split)

lemma call_on_client:
  "call_on (client_Host lg) ctx c (h, s) = (case host_do ctx c h s of (r, h', s') \<Rightarrow> (r, (h', s')))"
  by (cases c)
    (simp_all add: client_Host_def identityClient_def transportClient_def policyClient_def storeClient_def
      eventsClient_def uiBroker_def reply_of_client split: prod.split option.split)

lemma module_on_client:
  "module_on (client_Host lg) p ctx (h, s) = (case run_prog p ctx h s of (a, h', s') \<Rightarrow> (a, (h', s')))"
proof (induction p arbitrary: h s)
  case (Call c k)
  then show ?case by (auto simp: call_on_client split: prod.split)
qed simp

section \<open>What the interfaces promise\<close>

text \<open>
  The host as a module of id \<open>ident\<close> sees it, over an abstract state: the store a map, the
  order of a listing and the time of an event left open.  \<open>Receive\<close> brings nothing inbound; the
  documents and events that \<open>Watch\<close> and \<open>Subscribe\<close> will carry are left open too (theory \<open>Delivery\<close>).
\<close>

record spec_host =
  sp_device :: DeviceIdentity
  sp_policy :: "u64 \<times> bytes"
  sp_store :: "string \<rightharpoonup> bytes"
  sp_events :: "(string \<times> bytes) list"
  sp_sends :: "SentMessage list"
  sp_surfaces :: "Surface list"
  sp_started :: bool

inductive spec_call :: "string \<Rightarrow> host_call \<Rightarrow> spec_host \<Rightarrow> host_reply \<Rightarrow> spec_host \<Rightarrow> bool" for ident where
  SpecWhoAmI: "spec_call ident CallWhoAmI s (RepDevice (sp_device s)) s"
| SpecCredential: "cred_Scopes c = scopes \<Longrightarrow> spec_call ident (CallCredential scopes) s (RepCredential c) s"
| SpecSend: "spec_call ident (CallSend m q) s (RepDelivered True)
    (s\<lparr>sp_sends := sp_sends s @ [\<lparr>sm_Peer = ucast (msg_Peer m), sm_Kind = msg_Kind m, sm_Data = msg_Data m,
       sm_QueueOffline = q\<rparr>]\<rparr>)"
| SpecPolicy: "(pol_Revision p, pol_Data p) = sp_policy s \<Longrightarrow> spec_call ident CallPolicyGet s (RepPolicy p) s"
| SpecFound: "sp_store s (StoreOf ns @ k) = Some v \<Longrightarrow> spec_call ident (CallStoreGet ns k) s (RepValue v True) s"
| SpecMissing: "sp_store s (StoreOf ns @ k) = None \<Longrightarrow> spec_call ident (CallStoreGet ns k) s (RepValue [] False) s"
| SpecPut: "spec_call ident (CallStorePut ns k v) s RepDone (s\<lparr>sp_store := (sp_store s)(StoreOf ns @ k \<mapsto> v)\<rparr>)"
| SpecDelete: "spec_call ident (CallStoreDelete ns k) s RepDone (s\<lparr>sp_store := (sp_store s)(StoreOf ns @ k := None)\<rparr>)"
| SpecList: "\<lbrakk>distinct ks; set ks = {k. StoreOf ns @ k \<in> dom (sp_store s) \<and> prefix p k}\<rbrakk>
    \<Longrightarrow> spec_call ident (CallStoreList ns p) s (RepKeys ks) s"
| SpecPublish: "spec_call ident (CallPublish topic v) s RepDone
    (s\<lparr>sp_events := sp_events s @ [(ident @ ''.'' @ topic, v)]\<rparr>)"
| SpecDeclare: "\<not> sp_started s \<Longrightarrow> spec_call ident (CallDeclare ss) s RepDone (s\<lparr>sp_surfaces := sp_surfaces s @ ss\<rparr>)"
| SpecLate: "sp_started s \<Longrightarrow> spec_call ident (CallDeclare ss) s (RepErr DeclareLate) s"
| SpecReceive: "spec_call ident CallReceive s (RepMessages [] closed) s"
| SpecWatch: "\<forall>p \<in> set ds. pol_SchemaVersion p = 0 \<and> pol_ContentType p = []
    \<Longrightarrow> spec_call ident CallWatch s (RepDocuments ds closed) s"
| SpecSubscribe: "\<forall>e \<in> set es. e_Sequence e = 0 \<Longrightarrow> spec_call ident (CallSubscribe ts) s (RepEvents es closed) s"

inductive spec_run :: "string \<Rightarrow> 'a prog \<Rightarrow> spec_host \<Rightarrow> 'a \<Rightarrow> spec_host \<Rightarrow> bool" for ident where
  SpecReturn: "spec_run ident (Return a) s a s"
| SpecStep: "\<lbrakk>spec_call ident c s r s1; spec_run ident (k r) s1 a s2\<rbrakk> \<Longrightarrow> spec_run ident (Call c k) s a s2"

text \<open>
  The contract of a \<open>Host\<close>: an abstraction under which every method answers as the step relation
  allows.  Inside it, a module's whole method runs as the abstract host lets it.
\<close>

locale host_contract =
  fixes H :: "('c, 'st, 'l) Host_iface"
    and ident :: string
    and ctx :: 'c
    and ok :: "'st \<Rightarrow> bool"
    and absh :: "'st \<Rightarrow> spec_host"
  assumes call_ok: "\<lbrakk>ok st; call_on H ctx c st = (r, st')\<rbrakk> \<Longrightarrow> ok st'"
    and call_spec: "\<lbrakk>ok st; call_on H ctx c st = (r, st')\<rbrakk> \<Longrightarrow> spec_call ident c (absh st) r (absh st')"
begin

lemma module_refines:
  "\<lbrakk>ok st; module_on H p ctx st = (a, st')\<rbrakk> \<Longrightarrow> ok st' \<and> spec_run ident p (absh st) a (absh st')"
proof (induction p arbitrary: st)
  case (Return b)
  then show ?case by (auto intro: SpecReturn)
next
  case (Call c k)
  obtain r st1 where c: "call_on H ctx c st = (r, st1)" by fastforce
  from Call.prems c have "module_on H (k r) ctx st1 = (a, st')" by simp
  with Call.IH [of "k r" st1] call_ok [OF Call.prems(1) c]
  have "ok st' \<and> spec_run ident (k r) (absh st1) a (absh st')" by blast
  with call_spec [OF Call.prems(1) c] show ?case by (blast intro: SpecStep)
qed

end

section \<open>The testkit host behind the runtime's client\<close>

definition absh :: "('c, HostData) client_state \<Rightarrow> spec_host" where
  "absh = (\<lambda>(h, d).
     \<lparr>sp_device = \<lparr>dev_DeviceID = di_DeviceID (hd_Device d), dev_Ephemeral = di_Ephemeral (hd_Device d),
        dev_Tenant = di_Tenant (hd_Device d)\<rparr>,
      sp_policy = Policy d, sp_store = map_of (hd_store d),
      sp_events = map (\<lambda>e. (ev_Topic e, ev_Data e)) (Events d), sp_sends = Sends d,
      sp_surfaces = declaredSurfaces h, sp_started = hc_started h\<rparr>)"

definition served_state ::
  "('c \<Rightarrow> string \<Rightarrow> string list) \<Rightarrow> string \<Rightarrow> nat \<Rightarrow> int \<Rightarrow> 'c \<Rightarrow> ('c, HostData) client_state \<Rightarrow> bool" where
  "served_state md_get ident seed now ctx st \<longleftrightarrow>
     stub_served md_get ident seed now (fst st) ctx \<and> store_ok (snd st)"

lemma stub_identity_policy:
  assumes "stub_served md_get ident seed now h ctx"
  shows "WhoAmI h ctx d = (Inr \<lparr>dev_DeviceID = di_DeviceID (hd_Device d), dev_Ephemeral = di_Ephemeral (hd_Device d),
      dev_Tenant = di_Tenant (hd_Device d)\<rparr>, d)"
    and "MintCredential h ctx scopes d =
      (Inr \<lparr>cred_Token = ''test-credential-'' @ ident, cred_ExpiresAt = 4102444800, cred_Scopes = scopes\<rparr>, d)"
    and "PolicyGet h ctx d = (Inr \<lparr>pol_Revision = fst (Policy d), pol_Data = snd (Policy d), pol_SchemaVersion = 0,
      pol_ContentType = []\<rparr>, d)"
  using assms
  by (auto simp: stub_served_def WhoAmI_def MintCredential_def PolicyGet_def registerHostServices_def
      unary_guard_pass identity_WhoAmI_def identity_Credential_def policy_Get_def Policy_def policyDoc_def)

lemmas stub_calls = stub_identity_policy stub_store_ops stub_publish stub_send

lemma pump_map: "pump f (map (map_pump_in g) ins) = pump (f \<circ> g) ins"
  by (induction "f \<circ> g" ins rule: pump.induct) simp_all

lemma pump_all: "(\<And>m. P (f m)) \<Longrightarrow> \<forall>x \<in> set (fst (pump f ins)). P x"
  by (simp add: pump_spec)

lemma stub_streams:
  assumes "stub_served md_get ident seed now h ctx"
  shows "\<exists>closed. Receive h ctx d = (Inr ([], closed), d)"
    and "\<exists>ds closed. Watch h ctx d = (Inr (ds, closed), fst (addPolicyWatcher d)) \<and>
      (\<forall>p \<in> set ds. pol_SchemaVersion p = 0 \<and> pol_ContentType p = [])"
    and "\<exists>es closed. Subscribe h ctx ts d = (Inr (es, closed), fst (subscribe ts d)) \<and> (\<forall>e \<in> set es. e_Sequence e = 0)"
proof -
  from assms obtain lives where rpc: "hc_rpc h = registerHostServices md_get (hc_token h) ident seed now lives"
    and tok: "md_get (withToken h ctx) TokenMetadataKey = [hc_token h]" by (auto simp: stub_served_def)
  note opened = open_stream_def rpc registerHostServices_def stream_guard_pass tok map_reply_def
  show "\<exists>closed. Receive h ctx d = (Inr ([], closed), d)"
    by (intro exI [of _ "sl_Receive lives (withToken h ctx) d"]) (simp add: Receive_def opened transport_Receive_def)
  let ?w = "pump (policyDoc \<circ> policy_msg) (sl_Watch lives (withToken h ctx) d)"
  have "Watch h ctx d = (Inr ?w, fst (addPolicyWatcher d))"
    by (simp add: Watch_def opened policy_Watch_def addPolicyWatcher_def pump_map)
  moreover have "\<forall>p \<in> set (fst ?w). pol_SchemaVersion p = 0 \<and> pol_ContentType p = []"
    by (rule pump_all) (simp add: policyDoc_def policy_msg_def case_prod_beta)
  ultimately show "\<exists>ds closed. Watch h ctx d = (Inr (ds, closed), fst (addPolicyWatcher d)) \<and>
      (\<forall>p \<in> set ds. pol_SchemaVersion p = 0 \<and> pol_ContentType p = [])"
    by (intro exI [of _ "fst ?w"] exI [of _ "snd ?w"]) simp
  let ?e = "pump (recvEvent \<circ> stub_event) (sl_Subscribe lives (withToken h ctx) ts d)"
  have "Subscribe h ctx ts d = (Inr ?e, fst (subscribe ts d))"
    by (simp add: Subscribe_def opened events_Subscribe_def subscribe_def pump_map)
  moreover have "\<forall>e \<in> set (fst ?e). e_Sequence e = 0"
    by (rule pump_all) (simp add: recvEvent_def stub_event_def)
  ultimately show "\<exists>es closed. Subscribe h ctx ts d = (Inr (es, closed), fst (subscribe ts d)) \<and> (\<forall>e \<in> set es. e_Sequence e = 0)"
    by (intro exI [of _ "fst ?e"] exI [of _ "snd ?e"]) simp
qed

lemma stub_served_started:
  "stub_served md_get ident seed now h ctx \<Longrightarrow> stub_served md_get ident seed now (h\<lparr>hc_surfaces := ss\<rparr>) ctx"
  by (simp add: stub_served_def withToken_def)

lemma store_ok_other: "store_ok (RecordSend m d) = store_ok d" "store_ok (Publish now topic data d) = store_ok d"
  "store_ok (fst (addPolicyWatcher d)) = store_ok d" "store_ok (fst (subscribe ts d)) = store_ok d"
  by (simp_all add: store_ok_def RecordSend_def Publish_def Let_def addPolicyWatcher_def subscribe_def)

lemma absh_registered: "absh (h, fst (addPolicyWatcher d)) = absh (h, d)" "absh (h, fst (subscribe ts d)) = absh (h, d)"
  by (simp_all add: absh_def addPolicyWatcher_def subscribe_def Policy_def Events_def Sends_def)

text \<open>The three calls that open a stream.\<close>

lemma served_stream_calls:
  assumes served: "served_state md_get ident seed now ctx (h, d)" and do1: "host_do ctx c h d = (r, h', d')"
    and c: "c = CallReceive \<or> c = CallWatch \<or> c = CallSubscribe ts"
  shows "served_state md_get ident seed now ctx (h', d') \<and> spec_call ident c (absh (h, d)) r (absh (h', d'))"
proof -
  have s: "stub_served md_get ident seed now h ctx" "store_ok d" using served by (simp_all add: served_state_def)
  from stub_streams(1) [OF s(1), of d] stub_streams(2) [OF s(1), of d] stub_streams(3) [OF s(1), of ts d]
  obtain closed ds closed' es closed'' where
    "Receive h ctx d = (Inr ([], closed), d)" "Watch h ctx d = (Inr (ds, closed'), fst (addPolicyWatcher d))"
    "Subscribe h ctx ts d = (Inr (es, closed''), fst (subscribe ts d))"
    "\<forall>p \<in> set ds. pol_SchemaVersion p = 0 \<and> pol_ContentType p = []" "\<forall>e \<in> set es. e_Sequence e = 0" by blast
  with do1 c s show ?thesis
    by (auto simp: as_reply_def served_state_def store_ok_other absh_registered
        intro!: SpecReceive SpecWatch SpecSubscribe)
qed

lemma served_call_ok:
  assumes "served_state md_get ident seed now ctx (h, d)" "host_do ctx c h d = (r, h', d')"
  shows "served_state md_get ident seed now ctx (h', d')"
proof (cases "\<exists>ts. c = CallReceive \<or> c = CallWatch \<or> c = CallSubscribe ts")
  case True
  then show ?thesis using served_stream_calls [OF assms] by blast
next
  case False
  with assms show ?thesis
    by (cases c)
      (auto simp: served_state_def as_reply_def stub_calls store_ok_Put store_ok_Delete Declare_def
        stub_served_started store_ok_other split: if_splits)
qed

lemma served_list_spec:
  assumes "store_ok d"
  shows "spec_call ident (CallStoreList ns p) (absh (h, d))
    (RepKeys (map (trim_prefix (StoreOf ns)) (StoreKeys seed d (StoreOf ns @ p)))) (absh (h, d))"
proof -
  have "distinct (map (trim_prefix (StoreOf ns)) (StoreKeys seed d (StoreOf ns @ p)))"
    by (rule hd.view_keys_distinct [OF assms])
  then show ?thesis by (rule SpecList) (unfold ns_keys, auto simp: absh_def ns_view_def)
qed

lemma served_call_spec:
  assumes served: "served_state md_get ident seed now ctx (h, d)" and do1: "host_do ctx c h d = (r, h', d')"
  shows "spec_call ident c (absh (h, d)) r (absh (h', d'))"
proof -
  have s: "stub_served md_get ident seed now h ctx" "store_ok d" using served by (simp_all add: served_state_def)
  note calls = stub_calls [OF s(1)] as_reply_def
  show ?thesis
  proof (cases c)
    case CallWhoAmI
    with do1 show ?thesis using SpecWhoAmI [of ident "absh (h, d)"] by (auto simp: calls absh_def)
  next
    case (CallCredential sc)
    with do1 show ?thesis by (auto simp: calls intro: SpecCredential)
  next
    case (CallSend m q)
    with do1 show ?thesis
      using SpecSend [of ident m q "absh (h, d)"] by (auto simp: calls absh_def RecordSend_def Sends_def Policy_def Events_def)
  next
    case CallPolicyGet
    with do1 show ?thesis by (auto simp: calls absh_def intro!: SpecPolicy)
  next
    case (CallStoreGet ns k)
    with do1 show ?thesis
      by (auto simp: calls absh_def StoreGet_def split: option.splits intro: SpecFound SpecMissing)
  next
    case (CallStorePut ns k v)
    with do1 show ?thesis
      using SpecPut [of ident ns k v "absh (h, d)"] map_of_Put [of "StoreOf ns @ k" v d]
      by (auto simp: calls absh_def StorePut_def Sends_def Policy_def Events_def)
  next
    case (CallStoreDelete ns k)
    with do1 show ?thesis
      using SpecDelete [of ident ns k "absh (h, d)"] map_of_Delete [of "StoreOf ns @ k" d]
      by (auto simp: calls absh_def StoreDelete_def Sends_def Policy_def Events_def)
  next
    case (CallStoreList ns p)
    with do1 served_list_spec [OF s(2)] show ?thesis by (auto simp: calls)
  next
    case (CallPublish t v)
    with do1 show ?thesis
      using SpecPublish [of ident t v "absh (h, d)"]
      by (auto simp: calls absh_def Publish_def Let_def Sends_def Policy_def Events_def)
  next
    case (CallDeclare ss)
    with do1 show ?thesis
      using SpecDeclare [of "absh (h, d)" ident ss] SpecLate [of "absh (h, d)" ident ss]
      by (auto simp: Declare_def absh_def split: if_splits)
  qed (use served_stream_calls [OF served do1] in blast)+
qed

interpretation stubbed: host_contract "client_Host lg" ident ctx "served_state md_get ident seed now ctx" absh
  for lg ident ctx md_get seed now
  by unfold_locales (auto simp: call_on_client split: prod.splits intro: served_call_ok served_call_spec)

section \<open>Properties\<close>

text \<open>
  C6: Whatever a module's method does through the \<open>Host\<close> it was handed, over the client, the
  interceptors and the stub services, it does as on the abstract host: the replies it gets and
  the state it leaves are those of a map store, a policy document, an event log under its own
  id and a list of surfaces, and the channels, locks, tokens and prefixes in between do not show.
  Opening a watch or a subscription shows in nothing but its channel.
\<close>
theorem module_refines_host:
  assumes "stub_served md_get ident seed now h ctx" "store_ok d"
    and "module_on (client_Host lg) p ctx (h, d) = (a, (h', d'))"
  shows "spec_run ident p (absh (h, d)) a (absh (h', d'))"
  using stubbed.module_refines [OF _ assms(3), of md_get ident seed now] assms(1,2) by (simp add: served_state_def)

theorem module_refines_host_witness:
  "\<exists>h' d'. run_prog (toy_Init ()) [] toy_host NewHostData = ((None, ()), h', d') \<and>
     spec_run ''toy'' (toy_Init ()) (absh (toy_host, NewHostData)) (None, ()) (absh (h', d'))"
proof -
  have run: "run_prog (toy_Init ()) [] toy_host NewHostData =
      ((None, ()), toy_host\<lparr>hc_surfaces := [toy_card]\<rparr>, toy_data)"
    using toy_Init_run [OF toy_host_served] by (simp add: toy_host_def toy_data_def)
  then have "module_on (client_Host id) (toy_Init ()) [] (toy_host, NewHostData) =
      ((None, ()), (toy_host\<lparr>hc_surfaces := [toy_card]\<rparr>, toy_data))"
    by (simp add: module_on_client)
  from module_refines_host [OF toy_host_served store_ok_New this] run show ?thesis by blast
qed

end
