(* ===== verification/Relay.thy ===== *)
theory Relay
  imports Quiesce Streams
begin

text \<open>
  A server stream together with the client's pump on its other end (\<open>modulesdk/hostclient.go\<close>):
  whatever system sends on the streams, one more goroutine per stream takes the messages off it
  in order and hands them to the module.  gRPC keeps a stream's messages in order and loses none
  while it is open; how much of it buffers does not matter, since the pump is behind it.

  The locale \<open>relayed\<close> adds the pumps to a system that settles; the sum settles too, and where
  it rests every pump that has not ended has handed over all that was sent.
\<close>

section \<open>Steps\<close>

text \<open>
  \<open>RelayTake i\<close>: the i-th pump receives the next message and the module takes it;
  \<open>RelayEnd i\<close>: its stream fails or its context ends.  \<open>rl_ins\<close> is what each pump has met so far,
  the argument of \<open>pump\<close>.
\<close>

datatype 'a relay_act = Core 'a | RelayTake nat | RelayEnd nat

record ('s, 'w) relay =
  rl_core :: 's
  rl_ins :: "nat \<Rightarrow> 'w pump_in list"

abbreviation pumping :: "'w pump_in list \<Rightarrow> bool" where
  "pumping ins \<equiv> list_all is_taken ins"

fun relay_step ::
  "('a \<Rightarrow> 's \<Rightarrow> 's option) \<Rightarrow> ('s \<Rightarrow> nat) \<Rightarrow> ('s \<Rightarrow> nat \<Rightarrow> 'w list) \<Rightarrow>
   'a relay_act \<Rightarrow> ('s, 'w) relay \<Rightarrow> ('s, 'w) relay option" where
  "relay_step step n out (Core a) st = map_option (\<lambda>s. st\<lparr>rl_core := s\<rparr>) (step a (rl_core st))"
| "relay_step step n out (RelayTake i) st =
     (let sent = out (rl_core st) i; k = length (rl_ins st i) in
      if i < n (rl_core st) \<and> pumping (rl_ins st i) \<and> k < length sent
      then Some (st\<lparr>rl_ins := (rl_ins st)(i := rl_ins st i @ [RecvTaken (sent ! k)])\<rparr>) else None)"
| "relay_step step n out (RelayEnd i) st =
     (if i < n (rl_core st) \<and> pumping (rl_ins st i)
      then Some (st\<lparr>rl_ins := (rl_ins st)(i := rl_ins st i @ [RecvFailed])\<rparr>) else None)"

definition relay_init :: "'s \<Rightarrow> ('s, 'w) relay" where
  "relay_init s = \<lparr>rl_core = s, rl_ins = (\<lambda>i. [])\<rparr>"

fun core_acts :: "'a relay_act list \<Rightarrow> 'a list" where
  "core_acts [] = []"
| "core_acts (Core a # as) = a # core_acts as"
| "core_acts (_ # as) = core_acts as"

fun relay_good :: "('a \<Rightarrow> bool) \<Rightarrow> 'a relay_act \<Rightarrow> bool" where
  "relay_good internal (Core a) = internal a"
| "relay_good internal (RelayTake i) = True"
| "relay_good internal (RelayEnd i) = False"

definition backlog :: "('s \<Rightarrow> nat) \<Rightarrow> ('s \<Rightarrow> nat \<Rightarrow> 'w list) \<Rightarrow> ('s, 'w) relay \<Rightarrow> nat" where
  "backlog n out st = (\<Sum>i<n (rl_core st). length (out (rl_core st) i) - length (rl_ins st i))"

definition relay_rank :: "('s \<Rightarrow> nat) \<Rightarrow> ('s \<Rightarrow> nat) \<Rightarrow> ('s \<Rightarrow> nat \<Rightarrow> 'w list) \<Rightarrow> ('s, 'w) relay \<Rightarrow> nat" where
  "relay_rank rank n out st = 2 * rank (rl_core st) + backlog n out st"

text \<open>A pump has met a prefix of what was sent, and after that at most its end.\<close>

definition relay_inv :: "('s \<Rightarrow> nat \<Rightarrow> 'w list) \<Rightarrow> ('s, 'w) relay \<Rightarrow> bool" where
  "relay_inv out st \<longleftrightarrow> (\<forall>i. \<exists>ms. prefix ms (out (rl_core st) i) \<and>
     (rl_ins st i = map RecvTaken ms \<or> rl_ins st i = map RecvTaken ms @ [RecvFailed]))"

definition pumps :: "('s, 'w) relay \<Rightarrow> nat set" where
  "pumps st = {i. pumping (rl_ins st i)}"

definition relay_ok :: "('s \<Rightarrow> bool) \<Rightarrow> ('s \<Rightarrow> nat \<Rightarrow> 'w list) \<Rightarrow> nat set \<Rightarrow> ('s, 'w) relay \<Rightarrow> bool" where
  "relay_ok ok out E st \<longleftrightarrow> ok (rl_core st) \<and> relay_inv out st \<and> pumps st = E"

section \<open>Lemmas\<close>

lemma pumping_map: "pumping (map RecvTaken ms)"
  by (simp add: list_all_iff)

lemma pump_taken: "pump f (map RecvTaken ms) = (map f ms, False)"
  by (induction ms) simp_all

lemma pump_taken_end: "pump f (map RecvTaken ms @ [RecvFailed]) = (map f ms, True)"
  by (induction ms) simp_all

lemma relay_inv_init: "relay_inv out (relay_init s)"
  by (auto simp: relay_inv_def relay_init_def intro: exI [of _ "[]"])

lemma relay_inv_pumping:
  "\<lbrakk>relay_inv out st; pumping (rl_ins st i)\<rbrakk> \<Longrightarrow> rl_ins st i = map RecvTaken (take (length (rl_ins st i)) (out (rl_core st) i))"
proof -
  assume "relay_inv out st" and p: "pumping (rl_ins st i)"
  then obtain ms where ms: "prefix ms (out (rl_core st) i)"
    "rl_ins st i = map RecvTaken ms \<or> rl_ins st i = map RecvTaken ms @ [RecvFailed]" by (auto simp: relay_inv_def)
  with p have "rl_ins st i = map RecvTaken ms" by auto
  with ms(1) show ?thesis by (auto simp: prefix_def)
qed

lemma relay_inv_take:
  assumes inv: "relay_inv out st" and step: "relay_step step n out (RelayTake i) st = Some st'"
  shows "relay_inv out st'"
proof -
  let ?sent = "out (rl_core st) i" and ?k = "length (rl_ins st i)"
  from step have i: "pumping (rl_ins st i)" "?k < length ?sent"
    and st': "st' = st\<lparr>rl_ins := (rl_ins st)(i := rl_ins st i @ [RecvTaken (?sent ! ?k)])\<rparr>"
    by (auto simp: Let_def split: if_splits)
  have "rl_ins st i @ [RecvTaken (?sent ! ?k)] = map RecvTaken (take (Suc ?k) ?sent)"
    using relay_inv_pumping [OF inv i(1)] i(2) by (simp add: take_Suc_conv_app_nth)
  moreover have "prefix (take (Suc ?k) ?sent) ?sent" by (rule take_is_prefix)
  ultimately have "\<exists>ms. prefix ms ?sent \<and> (rl_ins st i @ [RecvTaken (?sent ! ?k)] = map RecvTaken ms \<or>
      rl_ins st i @ [RecvTaken (?sent ! ?k)] = map RecvTaken ms @ [RecvFailed])" by blast
  then show ?thesis using inv unfolding st' relay_inv_def by simp
qed

lemma relay_inv_end:
  assumes inv: "relay_inv out st" and step: "relay_step step n out (RelayEnd i) st = Some st'"
  shows "relay_inv out st'"
proof -
  from step have i: "pumping (rl_ins st i)" and st': "st' = st\<lparr>rl_ins := (rl_ins st)(i := rl_ins st i @ [RecvFailed])\<rparr>"
    by (auto split: if_splits)
  from relay_inv_pumping [OF inv i] obtain ms where "prefix ms (out (rl_core st) i)" "rl_ins st i = map RecvTaken ms"
    by (metis take_is_prefix)
  then show ?thesis using inv unfolding st' relay_inv_def by auto
qed

lemma core_run:
  "opt_run (relay_step step n out) as st = Some st' \<Longrightarrow> opt_run step (core_acts as) (rl_core st) = Some (rl_core st')"
proof (induction as arbitrary: st)
  case (Cons a as)
  then obtain s1 where s1: "relay_step step n out a st = Some s1" "opt_run (relay_step step n out) as s1 = Some st'"
    by (auto split: option.splits)
  from Cons.IH [OF s1(2)] s1(1) show ?case by (cases a) (auto simp: Let_def split: if_splits)
qed simp

section \<open>The contract\<close>

text \<open>
  What is asked of the sending system: a stream only grows, an internal step of its opens none and
  sends at most one message.
\<close>

locale relayed = quiescing step internal ok rank
  for step :: "'a \<Rightarrow> 's \<Rightarrow> 's option" and internal :: "'a \<Rightarrow> bool" and ok :: "'s \<Rightarrow> bool" and rank :: "'s \<Rightarrow> nat" +
  fixes n :: "'s \<Rightarrow> nat"
    and out :: "'s \<Rightarrow> nat \<Rightarrow> 'w list"
  assumes grows: "step a s = Some s' \<Longrightarrow> prefix (out s i) (out s' i)"
    and same_n: "\<lbrakk>internal a; step a s = Some s'\<rbrakk> \<Longrightarrow> n s' = n s"
    and one_more: "\<lbrakk>internal a; step a s = Some s'\<rbrakk>
      \<Longrightarrow> (\<Sum>i<n s. length (out s' i)) \<le> Suc (\<Sum>i<n s. length (out s i))"
begin

lemma relay_inv_core: "\<lbrakk>relay_inv out st; step a (rl_core st) = Some s\<rbrakk> \<Longrightarrow> relay_inv out (st\<lparr>rl_core := s\<rparr>)"
  by (auto simp: relay_inv_def) (meson grows prefix_order.trans)

lemma relay_inv_step: "\<lbrakk>relay_inv out st; relay_step step n out a st = Some st'\<rbrakk> \<Longrightarrow> relay_inv out st'"
  by (cases a) (auto intro: relay_inv_core relay_inv_take relay_inv_end simp del: relay_step.simps(2,3))

lemma relay_inv_run: "\<lbrakk>relay_inv out st; opt_run (relay_step step n out) as st = Some st'\<rbrakk> \<Longrightarrow> relay_inv out st'"
  by (induction as arbitrary: st) (auto split: option.splits dest: relay_inv_step)

lemma backlog_core:
  assumes "internal a" "step a s = Some s'"
  shows "(\<Sum>i<n s'. length (out s' i) - length (ins i)) \<le> Suc (\<Sum>i<n s. length (out s i) - length (ins i))"
proof -
  have le: "length (out s i) \<le> length (out s' i)" for i using grows [OF assms(2)] prefix_length_le by blast
  have "(\<Sum>i<n s. length (out s' i) - length (ins i)) \<le>
      (\<Sum>i<n s. (length (out s i) - length (ins i)) + (length (out s' i) - length (out s i)))"
    by (rule sum_mono) arith
  also have "\<dots> = (\<Sum>i<n s. length (out s i) - length (ins i)) +
      ((\<Sum>i<n s. length (out s' i)) - (\<Sum>i<n s. length (out s i)))"
    by (simp only: sum.distrib sum_subtractf_nat [where f = "\<lambda>i. length (out s' i)" and g = "\<lambda>i. length (out s i)", OF le])
  also have "\<dots> \<le> (\<Sum>i<n s. length (out s i) - length (ins i)) + 1" using one_more [OF assms] by simp
  finally show ?thesis using same_n [OF assms] by simp
qed

lemma relay_rank_step:
  assumes "relay_ok ok out E st" "relay_good internal a" "relay_step step n out a st = Some st'"
  shows "relay_rank rank n out st' < relay_rank rank n out st"
proof (cases a)
  case (Core c)
  with assms obtain s where s: "step c (rl_core st) = Some s" "st' = st\<lparr>rl_core := s\<rparr>" "internal c" "ok (rl_core st)"
    by (auto simp: relay_ok_def)
  then show ?thesis
    using rank_step [of "rl_core st" c s] backlog_core [of c "rl_core st" s "rl_ins st"]
    by (simp add: relay_rank_def backlog_def)
next
  case (RelayTake i)
  let ?sent = "out (rl_core st) i" and ?k = "length (rl_ins st i)"
  from RelayTake assms(3) have i: "i < n (rl_core st)" "?k < length ?sent"
    and st': "st' = st\<lparr>rl_ins := (rl_ins st)(i := rl_ins st i @ [RecvTaken (?sent ! ?k)])\<rparr>"
    by (auto simp: Let_def split: if_splits)
  have same: "rl_core st' = rl_core st" "rl_ins st' = (rl_ins st)(i := rl_ins st i @ [RecvTaken (?sent ! ?k)])"
    by (simp_all add: st')
  have "backlog n out st' < backlog n out st"
    unfolding backlog_def same using i by (intro sum_strict_mono_ex1) (auto intro: bexI [of _ i])
  then show ?thesis by (simp add: relay_rank_def st')
qed (use assms in simp)

lemma relay_ok_step:
  assumes "relay_ok ok out E st" "relay_good internal a" "relay_step step n out a st = Some st'"
  shows "relay_ok ok out E st'"
proof -
  have "relay_inv out st'" using assms relay_inv_step by (auto simp: relay_ok_def)
  moreover have "ok (rl_core st') \<and> pumps st' = pumps st"
    using assms ok_step by (cases a) (auto simp: relay_ok_def pumps_def Let_def split: if_splits)
  ultimately show ?thesis using assms(1) by (simp add: relay_ok_def)
qed

lemma relay_at_rest:
  assumes "quiescent (relay_step step n out) (relay_good internal) st" "relay_inv out st"
  shows "quiescent step internal (rl_core st)"
    and "\<lbrakk>i < n (rl_core st); i \<in> pumps st\<rbrakk> \<Longrightarrow> rl_ins st i = map RecvTaken (out (rl_core st) i)"
proof -
  show "quiescent step internal (rl_core st)"
    unfolding quiescent_def using quiescentD [OF assms(1), of "Core a" for a] by auto
  assume i: "i < n (rl_core st)" "i \<in> pumps st"
  then have "length (out (rl_core st) i) \<le> length (rl_ins st i)"
    using quiescentD [OF assms(1), of "RelayTake i"] by (auto simp: Let_def pumps_def split: if_splits)
  with relay_inv_pumping [OF assms(2), of i] i(2) show "rl_ins st i = map RecvTaken (out (rl_core st) i)"
    by (simp add: pumps_def)
qed

end

sublocale relayed \<subseteq> relay: quiescing "relay_step step n out" "relay_good internal" "relay_ok ok out E" "relay_rank rank n out" for E
  by unfold_locales (auto intro: relay_ok_step relay_rank_step)

end
