(* ===== verification/PolicyWatch.thy ===== *)
theory PolicyWatch
  imports HostData Quiesce
begin

text \<open>
  Policy watchers under concurrency (\<open>modulesdk/testkit/hostdata.go\<close>, \<open>hostserver.go\<close>).

  \<open>SetPolicy\<close> bumps the revision and takes the list of watchers under the lock, then signals
  them one by one without it; each \<open>Watch\<close> handler registers a channel, then loops: read the
  document, send it when it is new, wait for a signal.  Any number of \<open>SetPolicy\<close> calls and
  handlers interleave.  One action of \<open>pw_step\<close> is one lock section or one channel operation of
  one goroutine; \<open>None\<close> says that the goroutine is not at that operation.
\<close>

section \<open>State and steps\<close>

datatype watch_pc = AtRead | AtSend u64 bytes | AtSelect | Returned

record watch_srv =
  ws_pc :: watch_pc
  ws_sent :: u64
  ws_out :: "(u64 \<times> bytes) list"

text \<open>
  \<open>pw_pending\<close> has one list per \<open>SetPolicy\<close> call that has left its lock section: the watcher
  channels it has yet to signal.  The i-th handler waits on the i-th channel.
\<close>

record pw_state =
  pw_data :: HostData
  pw_pending :: "nat list list"
  pw_watchers :: "watch_srv list"

datatype pw_act =
    SetLock bytes
  | SetNotify nat
  | WatchCall
  | WatchRead nat
  | WatchSend nat bool
  | WatchWake nat
  | WatchDone nat

definition set_lock :: "bytes \<Rightarrow> pw_state \<Rightarrow> pw_state" where
  "set_lock data st =
     st\<lparr>pw_data := (pw_data st)\<lparr>hd_policyRevision := hd_policyRevision (pw_data st) + 1,
                                hd_policyData := data\<rparr>,
        pw_pending := pw_pending st @ [[0 ..< length (hd_policyWatchers (pw_data st))]]\<rparr>"

definition notify_chan :: "nat \<Rightarrow> HostData \<Rightarrow> HostData" where
  "notify_chan w d = d\<lparr>hd_policyWatchers := (hd_policyWatchers d)[w := offer 1 () (hd_policyWatchers d ! w)]\<rparr>"

definition set_notify :: "nat \<Rightarrow> pw_state \<Rightarrow> pw_state option" where
  "set_notify j st =
     (if j < length (pw_pending st)
      then (case pw_pending st ! j of
              [] \<Rightarrow> None
            | w # ws \<Rightarrow> Some (st\<lparr>pw_data := notify_chan w (pw_data st), pw_pending := (pw_pending st)[j := ws]\<rparr>))
      else None)"

definition watch_call :: "pw_state \<Rightarrow> pw_state" where
  "watch_call st =
     (case addPolicyWatcher (pw_data st) of (d, _) \<Rightarrow>
        st\<lparr>pw_data := d,
           pw_watchers := pw_watchers st @ [\<lparr>ws_pc = AtRead, ws_sent = 0, ws_out = []\<rparr>]\<rparr>)"

definition watch_read :: "HostData \<Rightarrow> watch_srv \<Rightarrow> watch_srv option" where
  "watch_read d w =
     (case ws_pc w of
        AtRead \<Rightarrow> (case Policy d of (revision, data) \<Rightarrow>
          Some (if revision \<ge> ws_sent w then w\<lparr>ws_pc := AtSend revision data\<rparr> else w\<lparr>ws_pc := AtSelect\<rparr>))
      | _ \<Rightarrow> None)"

definition watch_send :: "bool \<Rightarrow> watch_srv \<Rightarrow> watch_srv option" where
  "watch_send send_ok w =
     (case ws_pc w of
        AtSend revision data \<Rightarrow>
          Some (if send_ok
                then \<lparr>ws_pc = AtSelect, ws_sent = revision + 1, ws_out = ws_out w @ [(revision, data)]\<rparr>
                else w\<lparr>ws_pc := Returned\<rparr>)
      | _ \<Rightarrow> None)"

definition watch_done :: "watch_srv \<Rightarrow> watch_srv option" where
  "watch_done w = (if ws_pc w = AtSelect then Some (w\<lparr>ws_pc := Returned\<rparr>) else None)"

definition at_watcher :: "nat \<Rightarrow> (watch_srv \<Rightarrow> watch_srv option) \<Rightarrow> pw_state \<Rightarrow> pw_state option" where
  "at_watcher i f st =
     (if i < length (pw_watchers st)
      then map_option (\<lambda>w. st\<lparr>pw_watchers := (pw_watchers st)[i := w]\<rparr>) (f (pw_watchers st ! i))
      else None)"

definition watch_wake :: "nat \<Rightarrow> pw_state \<Rightarrow> pw_state option" where
  "watch_wake i st =
     (if i < length (pw_watchers st) \<and> ws_pc (pw_watchers st ! i) = AtSelect
      then (case hd_policyWatchers (pw_data st) ! i of
              [] \<Rightarrow> None
            | _ # q \<Rightarrow> Some (st\<lparr>pw_data := (pw_data st)\<lparr>hd_policyWatchers :=
                                  (hd_policyWatchers (pw_data st))[i := q]\<rparr>,
                              pw_watchers := (pw_watchers st)[i := (pw_watchers st ! i)\<lparr>ws_pc := AtRead\<rparr>]\<rparr>))
      else None)"

fun pw_step :: "pw_act \<Rightarrow> pw_state \<Rightarrow> pw_state option" where
  "pw_step (SetLock data) st = Some (set_lock data st)"
| "pw_step (SetNotify j) st = set_notify j st"
| "pw_step WatchCall st = Some (watch_call st)"
| "pw_step (WatchRead i) st = at_watcher i (watch_read (pw_data st)) st"
| "pw_step (WatchSend i send_ok) st = at_watcher i (watch_send send_ok) st"
| "pw_step (WatchWake i) st = watch_wake i st"
| "pw_step (WatchDone i) st = at_watcher i watch_done st"

abbreviation pw_run :: "pw_act list \<Rightarrow> pw_state \<Rightarrow> pw_state option" where
  "pw_run \<equiv> opt_run pw_step"

definition pw_init :: pw_state where
  "pw_init = \<lparr>pw_data = NewHostData, pw_pending = [], pw_watchers = []\<rparr>"

fun updates :: "pw_act list \<Rightarrow> nat" where
  "updates [] = 0"
| "updates (SetLock data # as) = Suc (updates as)"
| "updates (_ # as) = updates as"

section \<open>The invariant\<close>

text \<open>
  \<open>signalled i\<close>: handler i has a signal waiting in its channel or on the way from a
  \<open>SetPolicy\<close> call.  A handler about to wait has sent the current revision or is signalled;
  one about to send has read the current document or is signalled; and what it has sent is
  strictly increasing in revisions, none above the current one.
\<close>

definition signalled :: "nat \<Rightarrow> pw_state \<Rightarrow> bool" where
  "signalled i st \<longleftrightarrow>
     hd_policyWatchers (pw_data st) ! i \<noteq> [] \<or> (\<exists>ws \<in> set (pw_pending st). i \<in> set ws)"

definition sent_ok :: "nat \<Rightarrow> bytes \<Rightarrow> watch_srv \<Rightarrow> bool" where
  "sent_ok R x w \<longleftrightarrow>
     sorted_wrt (<) (map (unat \<circ> fst) (ws_out w)) \<and>
     (if ws_out w = [] then ws_sent w = 0 else unat (ws_sent w) = Suc (unat (fst (last (ws_out w))))) \<and>
     (\<forall>p \<in> set (ws_out w). unat (fst p) \<le> R \<and> (unat (fst p) = R \<longrightarrow> snd p = x))"

definition pc_ok :: "nat \<Rightarrow> bytes \<Rightarrow> bool \<Rightarrow> watch_srv \<Rightarrow> bool" where
  "pc_ok R x sig w =
     (case ws_pc w of
        AtSend r y \<Rightarrow> unat (ws_sent w) \<le> unat r \<and> unat r \<le> R \<and> (unat r = R \<longrightarrow> y = x) \<and> (unat r = R \<or> sig)
      | AtSelect \<Rightarrow> unat (ws_sent w) = Suc R \<or> sig
      | _ \<Rightarrow> True)"

definition revision :: "pw_state \<Rightarrow> nat" where
  "revision st = unat (hd_policyRevision (pw_data st))"

definition pw_ok :: "pw_state \<Rightarrow> bool" where
  "pw_ok st \<longleftrightarrow>
     length (pw_watchers st) = length (hd_policyWatchers (pw_data st)) \<and>
     (\<forall>ws \<in> set (pw_pending st). \<forall>i \<in> set ws. i < length (pw_watchers st)) \<and>
     (\<forall>i < length (pw_watchers st).
        sent_ok (revision st) (hd_policyData (pw_data st)) (pw_watchers st ! i) \<and>
        pc_ok (revision st) (hd_policyData (pw_data st)) (signalled i st) (pw_watchers st ! i))"

lemma pw_okD:
  assumes "pw_ok st"
  shows "length (pw_watchers st) = length (hd_policyWatchers (pw_data st))"
    and "\<lbrakk>ws \<in> set (pw_pending st); i \<in> set ws\<rbrakk> \<Longrightarrow> i < length (hd_policyWatchers (pw_data st))"
    and "i < length (pw_watchers st) \<Longrightarrow>
      sent_ok (revision st) (hd_policyData (pw_data st)) (pw_watchers st ! i)"
    and "i < length (pw_watchers st) \<Longrightarrow>
      pc_ok (revision st) (hd_policyData (pw_data st)) (signalled i st) (pw_watchers st ! i)"
  using assms by (auto simp: pw_ok_def)

lemma pc_ok_mono: "\<lbrakk>pc_ok R x sig w; sig \<longrightarrow> sig'\<rbrakk> \<Longrightarrow> pc_ok R x sig' w"
  by (auto simp: pc_ok_def split: watch_pc.splits)

lemma sent_ok_bound: "sent_ok R x w \<Longrightarrow> unat (ws_sent w) \<le> Suc R"
  by (auto simp: sent_ok_def split: if_splits)

lemma sent_ok_newer: "\<lbrakk>sent_ok R x w; p \<in> set (ws_out w)\<rbrakk> \<Longrightarrow> unat (fst p) < unat (ws_sent w)"
proof -
  assume ok: "sent_ok R x w" and p: "p \<in> set (ws_out w)"
  from p obtain ps q where out: "ws_out w = ps @ [q]" by (cases "ws_out w" rule: rev_cases) auto
  from ok p show ?thesis by (auto simp: sent_ok_def out sorted_wrt_append)
qed

lemma pw_ok_init: "pw_ok pw_init"
  by (simp add: pw_ok_def pw_init_def NewHostData_def)

lemma pw_ok_set_lock:
  assumes ok: "pw_ok st" and room: "Suc (Suc (revision st)) < 2 ^ 64"
  shows "pw_ok (set_lock data st) \<and> revision (set_lock data st) = Suc (revision st)"
proof -
  have rev': "revision (set_lock data st) = Suc (revision st)"
    using room by (simp add: revision_def set_lock_def unat_word_ariths)
  have sig: "signalled i (set_lock data st)" if "i < length (pw_watchers st)" for i
    using that pw_okD(1) [OF ok] by (simp add: signalled_def set_lock_def)
  have sent: "sent_ok (Suc (revision st)) data w" if "sent_ok (revision st) x w" for x w
    using that unfolding sent_ok_def by auto
  have pc: "pc_ok (Suc (revision st)) data True w" if "pc_ok (revision st) x sig w" for x sig w
    using that by (auto simp: pc_ok_def split: watch_pc.splits)
  have each: "sent_ok (Suc (revision st)) data (pw_watchers st ! i) \<and>
      pc_ok (Suc (revision st)) data (signalled i (set_lock data st)) (pw_watchers st ! i)"
    if i: "i < length (pw_watchers st)" for i
    using sent [OF pw_okD(3) [OF ok i]] pc [OF pw_okD(4) [OF ok i]] sig [OF i] by simp
  have fields: "pw_watchers (set_lock data st) = pw_watchers st"
    "hd_policyData (pw_data (set_lock data st)) = data"
    "hd_policyWatchers (pw_data (set_lock data st)) = hd_policyWatchers (pw_data st)"
    "pw_pending (set_lock data st) = pw_pending st @ [[0 ..< length (hd_policyWatchers (pw_data st))]]"
    by (simp_all add: set_lock_def)
  have "pw_ok (set_lock data st)"
    unfolding pw_ok_def fields rev' using pw_okD(1,2) [OF ok] each by auto
  with rev' show ?thesis by simp
qed

lemma signalled_notify:
  assumes "pw_ok st" "set_notify j st = Some st'" "signalled i st"
  shows "signalled i st'"
proof -
  from assms(2) obtain w ws where j: "j < length (pw_pending st)" "pw_pending st ! j = w # ws"
    and st': "st' = st\<lparr>pw_data := notify_chan w (pw_data st), pw_pending := (pw_pending st)[j := ws]\<rparr>"
    by (auto simp: set_notify_def split: if_splits list.splits)
  have w: "w < length (hd_policyWatchers (pw_data st))"
    using pw_okD(2) [OF assms(1), of "w # ws" w] j by (metis list.set_intros(1) nth_mem)
  show ?thesis
  proof (cases "i = w \<or> hd_policyWatchers (pw_data st) ! i \<noteq> []")
    case True
    then have "hd_policyWatchers (pw_data st') ! i \<noteq> []"
      using w by (cases "i = w") (auto simp: st' notify_chan_def offer_nonempty)
    then show ?thesis by (simp add: signalled_def)
  next
    case False
    with assms(3) obtain vs where vs: "vs \<in> set (pw_pending st)" "i \<in> set vs"
      by (auto simp: signalled_def)
    then obtain l where l: "l < length (pw_pending st)" "pw_pending st ! l = vs"
      by (auto simp: in_set_conv_nth)
    show ?thesis
    proof (cases "l = j")
      case True
      with l j vs(2) False have "i \<in> set ws" by auto
      moreover have "ws \<in> set (pw_pending st')" using j by (simp add: st' set_update_memI)
      ultimately show ?thesis by (auto simp: signalled_def)
    next
      case False
      with l have "pw_pending st' ! l = vs" "l < length (pw_pending st')" by (simp_all add: st')
      then have "vs \<in> set (pw_pending st')" by (metis nth_mem)
      with vs(2) show ?thesis by (auto simp: signalled_def)
    qed
  qed
qed

lemma pw_ok_set_notify:
  assumes ok: "pw_ok st" and step: "set_notify j st = Some st'"
  shows "pw_ok st' \<and> revision st' = revision st"
proof -
  from step obtain w ws where j: "j < length (pw_pending st)" "pw_pending st ! j = w # ws"
    and st': "st' = st\<lparr>pw_data := notify_chan w (pw_data st), pw_pending := (pw_pending st)[j := ws]\<rparr>"
    by (auto simp: set_notify_def split: if_splits list.splits)
  have same: "pw_watchers st' = pw_watchers st" "revision st' = revision st"
    "hd_policyData (pw_data st') = hd_policyData (pw_data st)"
    "length (hd_policyWatchers (pw_data st')) = length (hd_policyWatchers (pw_data st))"
    by (simp_all add: st' revision_def notify_chan_def)
  have pend: "i < length (hd_policyWatchers (pw_data st))" if "vs \<in> set (pw_pending st')" "i \<in> set vs" for vs i
  proof -
    from that(1) have "vs \<in> insert ws (set (pw_pending st))"
      using set_update_subset_insert by (fastforce simp: st')
    then show ?thesis
      using that(2) pw_okD(2) [OF ok] j by (metis insert_iff list.set_intros(2) nth_mem)
  qed
  have "pw_ok st'"
    unfolding pw_ok_def same
    using pw_okD(1,3,4) [OF ok] pend signalled_notify [OF ok step] pc_ok_mono by metis
  with same show ?thesis by simp
qed

lemma pw_ok_watch_call:
  assumes ok: "pw_ok st"
  shows "pw_ok (watch_call st) \<and> revision (watch_call st) = revision st"
proof -
  have rev': "revision (watch_call st) = revision st"
    by (simp add: revision_def watch_call_def addPolicyWatcher_def)
  have sig: "signalled i st \<longrightarrow> signalled i (watch_call st)" if "i < length (pw_watchers st)" for i
    using that pw_okD(1) [OF ok] by (simp add: signalled_def watch_call_def addPolicyWatcher_def nth_append)
  have old: "sent_ok (revision st) (hd_policyData (pw_data st)) (pw_watchers st ! i) \<and>
      pc_ok (revision st) (hd_policyData (pw_data st)) (signalled i (watch_call st)) (pw_watchers st ! i)"
    if "i < length (pw_watchers st)" for i
    using pw_okD(3,4) [OF ok that] pc_ok_mono [OF _ sig [OF that]] by blast
  have new: "sent_ok R x \<lparr>ws_pc = AtRead, ws_sent = 0, ws_out = []\<rparr> \<and>
      pc_ok R x sig \<lparr>ws_pc = AtRead, ws_sent = 0, ws_out = []\<rparr>" for R x sig
    by (simp add: sent_ok_def pc_ok_def)
  have fields: "pw_watchers (watch_call st) = pw_watchers st @ [\<lparr>ws_pc = AtRead, ws_sent = 0, ws_out = []\<rparr>]"
    "pw_pending (watch_call st) = pw_pending st"
    "hd_policyData (pw_data (watch_call st)) = hd_policyData (pw_data st)"
    "length (hd_policyWatchers (pw_data (watch_call st))) = Suc (length (hd_policyWatchers (pw_data st)))"
    by (simp_all add: watch_call_def addPolicyWatcher_def)
  have "pw_ok (watch_call st)"
    unfolding pw_ok_def fields rev'
    using pw_okD(1,2) [OF ok] old new by (auto simp: nth_append less_Suc_eq)
  with rev' show ?thesis by simp
qed

lemma pw_ok_at_watcher:
  assumes ok: "pw_ok st" and step: "at_watcher i f st = Some st'"
    and f: "\<And>w w'. \<lbrakk>f w = Some w'; sent_ok (revision st) (hd_policyData (pw_data st)) w;
        pc_ok (revision st) (hd_policyData (pw_data st)) (signalled i st) w\<rbrakk> \<Longrightarrow>
      sent_ok (revision st) (hd_policyData (pw_data st)) w' \<and>
      pc_ok (revision st) (hd_policyData (pw_data st)) (signalled i st) w'"
  shows "pw_ok st' \<and> revision st' = revision st"
proof -
  from step obtain w' where i: "i < length (pw_watchers st)" and w': "f (pw_watchers st ! i) = Some w'"
    and st': "st' = st\<lparr>pw_watchers := (pw_watchers st)[i := w']\<rparr>"
    by (auto simp: at_watcher_def split: if_splits)
  have rev': "revision st' = revision st" and sig: "signalled k st' = signalled k st" for k
    by (simp_all add: st' revision_def signalled_def)
  have each: "sent_ok (revision st) (hd_policyData (pw_data st)) (pw_watchers st' ! k) \<and>
      pc_ok (revision st) (hd_policyData (pw_data st)) (signalled k st) (pw_watchers st' ! k)"
    if "k < length (pw_watchers st)" for k
    using that pw_okD(3,4) [OF ok that] f [OF w' pw_okD(3,4) [OF ok i]] i
    by (cases "k = i") (simp_all add: st')
  have fields: "pw_data st' = pw_data st" "pw_pending st' = pw_pending st"
    "length (pw_watchers st') = length (pw_watchers st)"
    by (simp_all add: st')
  have "pw_ok st'"
    unfolding pw_ok_def rev' sig fields using pw_okD(1,2) [OF ok] each by simp
  with rev' show ?thesis by simp
qed

lemma watch_read_ok:
  assumes "watch_read d w = Some w'" "R = unat (hd_policyRevision d)" "x = hd_policyData d"
    and "sent_ok R x w" "pc_ok R x sig w"
  shows "sent_ok R x w' \<and> pc_ok R x sig w'"
proof (cases "ws_sent w \<le> hd_policyRevision d")
  case True
  then show ?thesis
    using assms by (auto simp: watch_read_def Policy_def sent_ok_def pc_ok_def word_le_nat_alt split: watch_pc.splits)
next
  case False
  then have "unat (ws_sent w) = Suc R"
    using sent_ok_bound [OF assms(4)] assms(2) by (simp add: word_le_nat_alt)
  then show ?thesis
    using False assms by (auto simp: watch_read_def Policy_def sent_ok_def pc_ok_def split: watch_pc.splits)
qed

lemma watch_send_ok:
  assumes "watch_send ok w = Some w'" "Suc R < 2 ^ 64" "sent_ok R x w" "pc_ok R x sig w"
  shows "sent_ok R x w' \<and> pc_ok R x sig w'"
proof -
  from assms(1) obtain r y where pc: "ws_pc w = AtSend r y"
    and w': "w' = (if ok then \<lparr>ws_pc = AtSelect, ws_sent = r + 1, ws_out = ws_out w @ [(r, y)]\<rparr>
                   else w\<lparr>ws_pc := Returned\<rparr>)"
    by (auto simp: watch_send_def split: watch_pc.splits)
  show ?thesis
  proof (cases ok)
    case True
    have r: "unat (ws_sent w) \<le> unat r" "unat r \<le> R" "unat r = R \<longrightarrow> y = x" "unat r = R \<or> sig"
      using assms(4) by (simp_all add: pc_ok_def pc)
    have r1: "unat (r + 1) = Suc (unat r)"
      using r(2) assms(2) by (simp add: unat_word_ariths)
    have less: "unat (fst p) < unat r" if "p \<in> set (ws_out w)" for p
      using sent_ok_newer [OF assms(3) that] r(1) by linarith
    have "sent_ok R x w'"
      using assms(3) less r r1 True by (auto simp: w' sent_ok_def sorted_wrt_append)
    then show ?thesis using r r1 True by (auto simp: w' pc_ok_def)
  next
    case False
    then show ?thesis using assms(3) by (simp add: w' sent_ok_def pc_ok_def)
  qed
qed

lemma watch_done_ok:
  assumes "watch_done w = Some w'" "sent_ok R x w"
  shows "sent_ok R x w' \<and> pc_ok R x sig w'"
  using assms by (auto simp: watch_done_def sent_ok_def pc_ok_def split: if_splits)

lemma pw_ok_watch_wake:
  assumes ok: "pw_ok st" and step: "watch_wake i st = Some st'"
  shows "pw_ok st' \<and> revision st' = revision st"
proof -
  let ?w = "(pw_watchers st ! i)\<lparr>ws_pc := AtRead\<rparr>"
  from step obtain u q where i: "i < length (pw_watchers st)"
    and st': "st' = st\<lparr>pw_data := (pw_data st)\<lparr>hd_policyWatchers := (hd_policyWatchers (pw_data st))[i := q]\<rparr>,
                     pw_watchers := (pw_watchers st)[i := ?w]\<rparr>"
    by (auto simp: watch_wake_def split: if_splits list.splits)
  have same: "revision st' = revision st" "hd_policyData (pw_data st') = hd_policyData (pw_data st)"
    "pw_pending st' = pw_pending st" "length (pw_watchers st') = length (pw_watchers st)"
    "length (hd_policyWatchers (pw_data st')) = length (hd_policyWatchers (pw_data st))"
    by (simp_all add: st' revision_def)
  have others: "pw_watchers st' ! k = pw_watchers st ! k \<and> signalled k st' = signalled k st" if "k \<noteq> i" for k
    using that by (simp add: st' signalled_def)
  have at_i: "pw_watchers st' ! i = ?w" using i by (simp add: st')
  have "sent_ok R x ?w \<and> pc_ok R x sig ?w" if "sent_ok R x (pw_watchers st ! i)" for R x sig
    using that by (simp add: sent_ok_def pc_ok_def)
  with pw_okD(3) [OF ok i] have wi: "sent_ok (revision st) (hd_policyData (pw_data st)) ?w \<and>
      pc_ok (revision st) (hd_policyData (pw_data st)) sig ?w" for sig by blast
  have each: "sent_ok (revision st) (hd_policyData (pw_data st)) (pw_watchers st' ! k) \<and>
      pc_ok (revision st) (hd_policyData (pw_data st)) (signalled k st') (pw_watchers st' ! k)"
    if "k < length (pw_watchers st)" for k
    using that pw_okD(3,4) [OF ok, of k] others [of k] at_i wi by (cases "k = i") auto
  have "pw_ok st'"
    unfolding pw_ok_def same using pw_okD(1,2) [OF ok] each by simp
  with same show ?thesis by simp
qed

lemma pw_step_ok:
  assumes ok: "pw_ok st" and room: "Suc (revision st + updates [a]) < 2 ^ 64" and step: "pw_step a st = Some st'"
  shows "pw_ok st' \<and> revision st' = revision st + updates [a]"
proof (cases a)
  case (SetLock data)
  then show ?thesis using pw_ok_set_lock [OF ok, of data] room step by auto
next
  case (SetNotify j)
  then show ?thesis using pw_ok_set_notify [OF ok] step by simp
next
  case WatchCall
  then show ?thesis using pw_ok_watch_call [OF ok] step by simp
next
  case (WatchRead i)
  have "pw_ok st' \<and> revision st' = revision st"
    by (rule pw_ok_at_watcher [OF ok, of i "watch_read (pw_data st)"])
      (use step WatchRead in simp, rule watch_read_ok, auto simp: revision_def)
  then show ?thesis using WatchRead by simp
next
  case (WatchSend i s)
  have "pw_ok st' \<and> revision st' = revision st"
    by (rule pw_ok_at_watcher [OF ok, of i "watch_send s"])
      (use step room WatchSend in \<open>auto intro: watch_send_ok [THEN conjunct1] watch_send_ok [THEN conjunct2]\<close>)
  then show ?thesis using WatchSend by simp
next
  case (WatchWake i)
  then show ?thesis using pw_ok_watch_wake [OF ok] step by simp
next
  case (WatchDone i)
  have "pw_ok st' \<and> revision st' = revision st"
    by (rule pw_ok_at_watcher [OF ok, of i watch_done])
      (use step WatchDone in \<open>auto intro: watch_done_ok [THEN conjunct1] watch_done_ok [THEN conjunct2]\<close>)
  then show ?thesis using WatchDone by simp
qed

lemma updates_Cons: "updates (a # as) = updates [a] + updates as"
  by (cases a) simp_all

lemma pw_run_ok:
  "\<lbrakk>pw_ok st; Suc (revision st + updates as) < 2 ^ 64; pw_run as st = Some st'\<rbrakk> \<Longrightarrow>
   pw_ok st' \<and> revision st' = revision st + updates as"
proof (induction as arbitrary: st)
  case (Cons a as)
  from Cons.prems obtain st1 where st1: "pw_step a st = Some st1" "pw_run as st1 = Some st'"
    by (auto split: option.splits)
  note u = updates_Cons [of a as]
  from pw_step_ok [OF Cons.prems(1) _ st1(1)] Cons.prems(2) u
  have "pw_ok st1" "revision st1 = revision st + updates [a]" by simp_all
  with Cons.IH [OF _ _ st1(2)] Cons.prems(2) u show ?case by simp
qed simp

section \<open>The history of documents\<close>

text \<open>
  The documents by revision are \<open>[] # sets as\<close>: the empty one of revision 0, then what each
  \<open>SetPolicy\<close> of the run set, in order.
\<close>

fun sets :: "pw_act list \<Rightarrow> bytes list" where
  "sets [] = []"
| "sets (SetLock data # as) = data # sets as"
| "sets (_ # as) = sets as"

definition in_history :: "bytes list \<Rightarrow> u64 \<times> bytes \<Rightarrow> bool" where
  "in_history H p \<longleftrightarrow> unat (fst p) < length H \<and> snd p = H ! unat (fst p)"

definition watcher_from :: "bytes list \<Rightarrow> watch_srv \<Rightarrow> bool" where
  "watcher_from H w \<longleftrightarrow> (\<forall>p \<in> set (ws_out w). in_history H p) \<and>
     (case ws_pc w of AtSend r y \<Rightarrow> in_history H (r, y) | _ \<Rightarrow> True)"

definition history_ok :: "bytes list \<Rightarrow> pw_state \<Rightarrow> bool" where
  "history_ok H st \<longleftrightarrow> Suc (revision st) = length H \<and> in_history H (Policy (pw_data st)) \<and>
     (\<forall>w \<in> set (pw_watchers st). watcher_from H w)"

lemma length_sets: "length (sets as) = updates as"
  by (induction as rule: sets.induct) simp_all

lemma sets_Cons: "sets (a # as) = sets [a] @ sets as"
  by (cases a) simp_all

lemma in_history_append: "in_history H p \<Longrightarrow> in_history (H @ K) p"
  by (simp add: in_history_def nth_append)

lemma watcher_from_append: "watcher_from H w \<Longrightarrow> watcher_from (H @ K) w"
  by (auto simp: watcher_from_def in_history_append split: watch_pc.splits)

lemma history_init: "history_ok [[]] pw_init"
  by (simp add: history_ok_def in_history_def pw_init_def NewHostData_def revision_def Policy_def)

lemma history_at_watcher:
  assumes "history_ok H st" "at_watcher i f st = Some st'"
    and "\<And>w w'. \<lbrakk>f w = Some w'; watcher_from H w\<rbrakk> \<Longrightarrow> watcher_from H w'"
  shows "history_ok H st'"
proof -
  from assms(2) obtain w' where i: "i < length (pw_watchers st)" "f (pw_watchers st ! i) = Some w'"
    and st': "st' = st\<lparr>pw_watchers := (pw_watchers st)[i := w']\<rparr>"
    by (auto simp: at_watcher_def split: if_splits)
  have "watcher_from H w'" using assms(1,3) i by (auto simp: history_ok_def)
  then show ?thesis
    using assms(1) set_update_subset_insert [of "pw_watchers st" i w']
    by (auto simp: st' history_ok_def revision_def)
qed

lemma watcher_from_steps:
  "\<lbrakk>watch_read d w = Some w'; watcher_from H w; in_history H (Policy d)\<rbrakk> \<Longrightarrow> watcher_from H w'"
  "\<lbrakk>watch_send s w = Some w'; watcher_from H w\<rbrakk> \<Longrightarrow> watcher_from H w'"
  "\<lbrakk>watch_done w = Some w'; watcher_from H w\<rbrakk> \<Longrightarrow> watcher_from H w'"
  by (auto simp: watcher_from_def watch_read_def watch_send_def watch_done_def Policy_def
      split: watch_pc.splits if_splits)

lemma history_set_lock:
  assumes ok: "history_ok H st" and room: "Suc (Suc (revision st)) < 2 ^ 64"
  shows "history_ok (H @ [data]) (set_lock data st)"
proof -
  have "revision (set_lock data st) = Suc (revision st)"
    using room by (simp add: revision_def set_lock_def unat_word_ariths)
  moreover from this have "in_history (H @ [data]) (Policy (pw_data (set_lock data st)))"
    using ok by (simp add: history_ok_def in_history_def Policy_def revision_def set_lock_def nth_append)
  ultimately show ?thesis
    using ok by (auto simp: history_ok_def set_lock_def intro: watcher_from_append)
qed

lemma history_wake:
  assumes "history_ok H st" "watch_wake i st = Some st'"
  shows "history_ok H st'"
proof -
  let ?w = "(pw_watchers st ! i)\<lparr>ws_pc := AtRead\<rparr>"
  from assms(2) obtain q where i: "i < length (pw_watchers st)"
    and st': "st' = st\<lparr>pw_data := (pw_data st)\<lparr>hd_policyWatchers := (hd_policyWatchers (pw_data st))[i := q]\<rparr>,
                     pw_watchers := (pw_watchers st)[i := ?w]\<rparr>"
    by (auto simp: watch_wake_def split: if_splits list.splits)
  have "watcher_from H ?w" using assms(1) i by (auto simp: history_ok_def watcher_from_def)
  then show ?thesis
    using assms(1) set_update_subset_insert [of "pw_watchers st" i ?w]
    by (auto simp: st' history_ok_def revision_def Policy_def)
qed

lemma history_step:
  assumes ok: "history_ok H st" and room: "Suc (revision st + updates [a]) < 2 ^ 64" and step: "pw_step a st = Some st'"
  shows "history_ok (H @ sets [a]) st'"
proof (cases a)
  case (SetLock data)
  then show ?thesis using history_set_lock [OF ok, of data] room step by auto
next
  case (SetNotify j)
  then show ?thesis using ok step
    by (auto simp: history_ok_def set_notify_def notify_chan_def revision_def Policy_def split: if_splits list.splits)
next
  case WatchCall
  then show ?thesis using ok step
    by (auto simp: history_ok_def watch_call_def addPolicyWatcher_def revision_def Policy_def watcher_from_def)
next
  case (WatchRead i)
  then have "at_watcher i (watch_read (pw_data st)) st = Some st'" using step by simp
  then have "history_ok H st'"
    by (rule history_at_watcher [OF ok]) (use ok in \<open>auto simp: history_ok_def intro: watcher_from_steps\<close>)
  then show ?thesis using WatchRead by simp
next
  case (WatchSend i s)
  then have "at_watcher i (watch_send s) st = Some st'" using step by simp
  then have "history_ok H st'" by (rule history_at_watcher [OF ok]) (rule watcher_from_steps)
  then show ?thesis using WatchSend by simp
next
  case (WatchWake i)
  then show ?thesis using history_wake [OF ok] step by simp
next
  case (WatchDone i)
  then have "at_watcher i watch_done st = Some st'" using step by simp
  then have "history_ok H st'" by (rule history_at_watcher [OF ok]) (rule watcher_from_steps)
  then show ?thesis using WatchDone by simp
qed

lemma history_run:
  "\<lbrakk>pw_ok st; history_ok H st; Suc (revision st + updates as) < 2 ^ 64; pw_run as st = Some st'\<rbrakk> \<Longrightarrow>
   history_ok (H @ sets as) st'"
proof (induction as arbitrary: st H)
  case (Cons a as)
  from Cons.prems obtain st1 where st1: "pw_step a st = Some st1" "pw_run as st1 = Some st'"
    by (auto split: option.splits)
  note u = updates_Cons [of a as]
  have "pw_ok st1 \<and> revision st1 = revision st + updates [a]"
    using pw_step_ok [OF Cons.prems(1) _ st1(1)] Cons.prems(3) u by simp
  moreover have "history_ok (H @ sets [a]) st1"
    using history_step [OF Cons.prems(2) _ st1(1)] Cons.prems(3) u by simp
  ultimately have "history_ok ((H @ sets [a]) @ sets as) st'"
    using Cons.IH [OF _ _ _ st1(2), of "H @ sets [a]"] Cons.prems(3) u by simp
  then show ?case by (simp only: sets_Cons [of a as] append_assoc)
qed simp

lemma history_reached:
  assumes "pw_run as pw_init = Some st" "Suc (updates as) < 2 ^ 64" "w \<in> set (pw_watchers st)" "p \<in> set (ws_out w)"
  shows "unat (fst p) \<le> updates as" and "snd p = ([] # sets as) ! unat (fst p)"
proof -
  have "revision pw_init = 0" by (simp add: revision_def pw_init_def NewHostData_def)
  with history_run [OF pw_ok_init history_init _ assms(1)] assms(2) have "history_ok ([[]] @ sets as) st" by simp
  with assms(3,4) have "in_history ([] # sets as) p" by (auto simp: history_ok_def watcher_from_def)
  then show "unat (fst p) \<le> updates as" "snd p = ([] # sets as) ! unat (fst p)"
    by (simp_all add: in_history_def length_sets less_Suc_eq_le)
qed

section \<open>Properties\<close>

definition idle_setters :: "pw_state \<Rightarrow> bool" where
  "idle_setters st = (\<forall>ws \<in> set (pw_pending st). ws = [])"

lemma at_select_current:
  assumes ok: "pw_ok st" and "idle_setters st" and "i < length (pw_watchers st)"
    and "ws_pc (pw_watchers st ! i) = AtSelect" and "hd_policyWatchers (pw_data st) ! i = []"
  shows "ws_out (pw_watchers st ! i) \<noteq> [] \<and> last (ws_out (pw_watchers st ! i)) = Policy (pw_data st)"
proof -
  let ?w = "pw_watchers st ! i"
  have "\<not> signalled i st" using assms(2,5) by (auto simp: signalled_def idle_setters_def)
  with pw_okD(4) [OF ok assms(3)] assms(4) have sent: "unat (ws_sent ?w) = Suc (revision st)"
    by (simp add: pc_ok_def)
  note so = pw_okD(3) [OF ok assms(3)]
  from so sent have out: "ws_out ?w \<noteq> []" by (auto simp: sent_ok_def)
  with so sent have "unat (fst (last (ws_out ?w))) = revision st" by (simp add: sent_ok_def)
  moreover from this so out have "snd (last (ws_out ?w)) = hd_policyData (pw_data st)"
    using last_in_set [OF out] by (simp add: sent_ok_def)
  ultimately show ?thesis using out by (auto simp: Policy_def revision_def prod_eq_iff word_unat_eq_iff)
qed

text \<open>
  C13: no lost wake-up: under every interleaving of \<open>SetPolicy\<close> calls, new watchers and
  watchers' own steps, whenever no \<open>SetPolicy\<close> is still signalling and a watcher is blocked
  waiting, the last document it sent is the current one.
\<close>
theorem policy_watch_no_lost_update:
  assumes "pw_run as pw_init = Some st" and "Suc (updates as) < 2 ^ 64"
    and "idle_setters st" and "i < length (pw_watchers st)"
    and "ws_pc (pw_watchers st ! i) = AtSelect" and "hd_policyWatchers (pw_data st) ! i = []"
  shows "ws_out (pw_watchers st ! i) \<noteq> [] \<and> last (ws_out (pw_watchers st ! i)) = Policy (pw_data st)"
proof -
  have "revision pw_init = 0" by (simp add: revision_def pw_init_def NewHostData_def)
  with pw_run_ok [OF pw_ok_init _ assms(1)] assms(2) have ok: "pw_ok st" by simp
  then show ?thesis using assms(3-6) by (rule at_select_current)
qed

theorem policy_watch_no_lost_update_witness:
  "\<exists>st. pw_run [SetLock ''a'', WatchCall, WatchRead 0, SetLock ''b'', WatchSend 0 True, SetNotify 1,
       WatchWake 0, WatchRead 0, WatchSend 0 True] pw_init = Some st \<and>
     last (ws_out (pw_watchers st ! 0)) = Policy (pw_data st)"
proof -
  let ?as = "[SetLock ''a'', WatchCall, WatchRead 0, SetLock ''b'', WatchSend 0 True, SetNotify 1,
       WatchWake 0, WatchRead 0, WatchSend 0 True]"
  let ?d = "NewHostData\<lparr>hd_policyRevision := 2, hd_policyData := ''b'', hd_policyWatchers := [[]]\<rparr>"
  let ?st = "\<lparr>pw_data = ?d, pw_pending = [[], []],
      pw_watchers = [\<lparr>ws_pc = AtSelect, ws_sent = 3, ws_out = [(1, ''a''), (2, ''b'')]\<rparr>]\<rparr>"
  have run: "pw_run ?as pw_init = Some ?st"
    by (simp add: pw_init_def NewHostData_def set_lock_def watch_call_def addPolicyWatcher_def at_watcher_def
        watch_read_def Policy_def watch_send_def set_notify_def notify_chan_def offer_def watch_wake_def)
  have "last (ws_out (pw_watchers ?st ! 0)) = Policy (pw_data ?st)"
    using policy_watch_no_lost_update [OF run, of 0] by (simp add: idle_setters_def)
  with run show ?thesis by blast
qed

text \<open>
  A watcher never goes back: the revisions it is sent are strictly increasing, so it gets
  each revision at most once, and none that was never set.
\<close>
lemma policy_watch_revisions_increase:
  assumes "pw_run as pw_init = Some st" and "Suc (updates as) < 2 ^ 64" and "i < length (pw_watchers st)"
  shows "sorted_wrt (<) (map (unat \<circ> fst) (ws_out (pw_watchers st ! i))) \<and>
    (\<forall>p \<in> set (ws_out (pw_watchers st ! i)). unat (fst p) \<le> updates as)"
proof -
  have "revision pw_init = 0" by (simp add: revision_def pw_init_def NewHostData_def)
  with pw_run_ok [OF pw_ok_init _ assms(1)] assms(2) have "pw_ok st" "revision st = updates as" by simp_all
  with pw_okD(3) [OF this(1) assms(3)] show ?thesis by (simp add: sent_ok_def)
qed

lemma policy_watch_revisions_increase_witness:
  "\<exists>st. pw_run [WatchCall, WatchRead 0, WatchSend 0 True] pw_init = Some st \<and>
     sorted_wrt (<) (map (unat \<circ> fst) (ws_out (pw_watchers st ! 0)))"
proof -
  let ?st = "\<lparr>pw_data = NewHostData\<lparr>hd_policyWatchers := [[]]\<rparr>, pw_pending = [],
      pw_watchers = [\<lparr>ws_pc = AtSelect, ws_sent = 1, ws_out = [(0, [])]\<rparr>]\<rparr>"
  have run: "pw_run [WatchCall, WatchRead 0, WatchSend 0 True] pw_init = Some ?st"
    by (simp add: pw_init_def NewHostData_def watch_call_def addPolicyWatcher_def at_watcher_def
        watch_read_def Policy_def watch_send_def)
  from policy_watch_revisions_increase [OF run, of 0]
  have "sorted_wrt (<) (map (unat \<circ> fst) (ws_out (pw_watchers ?st ! 0)))" by simp
  with run show ?thesis by blast
qed

end
