(* ===== verification/PolicyLive.thy ===== *)
theory PolicyLive
  imports PolicyWatch
begin

text \<open>
  The policy watchers settle: left alone by new \<open>SetPolicy\<close> calls, new watchers and hang-ups,
  the signalling and watching goroutines can take only boundedly many steps, under any schedule,
  and come to rest with every open watcher on the current document.
\<close>

section \<open>Internal steps and their rank\<close>

fun pw_internal :: "pw_act \<Rightarrow> bool" where
  "pw_internal (SetLock data) = False"
| "pw_internal WatchCall = False"
| "pw_internal (WatchDone i) = False"
| "pw_internal _ = True"

fun pw_good :: "pw_act \<Rightarrow> bool" where
  "pw_good (WatchSend i send_ok) = send_ok"
| "pw_good a = pw_internal a"

fun pc_rank :: "watch_pc \<Rightarrow> nat" where
  "pc_rank AtRead = 2"
| "pc_rank (AtSend r x) = 1"
| "pc_rank AtSelect = 0"
| "pc_rank Returned = 0"

definition pw_rank :: "pw_state \<Rightarrow> nat" where
  "pw_rank st =
     4 * sum_list (map length (pw_pending st)) +
     3 * sum_list (map length (hd_policyWatchers (pw_data st))) +
     sum_list (map (pc_rank \<circ> ws_pc) (pw_watchers st))"

lemma length_offer_1: "length (offer 1 x q) \<le> Suc (length q)"
  by (simp add: offer_def)

lemma rank_notify:
  assumes "pw_ok st" "set_notify j st = Some st'"
  shows "pw_rank st' < pw_rank st"
proof -
  from assms(2) obtain w ws where j: "j < length (pw_pending st)" "pw_pending st ! j = w # ws"
    and st': "st' = st\<lparr>pw_data := notify_chan w (pw_data st), pw_pending := (pw_pending st)[j := ws]\<rparr>"
    by (auto simp: set_notify_def split: if_splits list.splits)
  let ?ch = "hd_policyWatchers (pw_data st)"
  have w: "w < length ?ch"
    using pw_okD(2) [OF assms(1), of "w # ws" w] j by (metis list.set_intros(1) nth_mem)
  have "sum_list (map length ((pw_pending st)[j := ws])) + 1 = sum_list (map length (pw_pending st))"
    using sum_list_update_add [of j "map length (pw_pending st)" "length ws"] j by (simp add: map_update)
  moreover have "sum_list (map length (?ch[w := offer 1 () (?ch ! w)])) \<le> Suc (sum_list (map length ?ch))"
    using sum_list_update_add [of w "map length ?ch" "length (offer 1 () (?ch ! w))"] w
      length_offer_1 [of "()" "?ch ! w"] by (simp add: map_update)
  ultimately show ?thesis by (simp add: pw_rank_def st' notify_chan_def)
qed

lemma rank_at_watcher:
  assumes "at_watcher i f st = Some st'"
    and "\<And>w w'. f w = Some w' \<Longrightarrow> pc_rank (ws_pc w') < pc_rank (ws_pc w)"
  shows "pw_rank st' < pw_rank st"
proof -
  from assms(1) obtain w' where i: "i < length (pw_watchers st)" "f (pw_watchers st ! i) = Some w'"
    and st': "st' = st\<lparr>pw_watchers := (pw_watchers st)[i := w']\<rparr>"
    by (auto simp: at_watcher_def split: if_splits)
  from assms(2) [OF i(2)] show ?thesis
    using sum_list_update_add [of i "map (pc_rank \<circ> ws_pc) (pw_watchers st)" "pc_rank (ws_pc w')"] i(1)
    by (simp add: pw_rank_def st' map_update)
qed

lemma rank_wake:
  assumes "pw_ok st" "watch_wake i st = Some st'"
  shows "pw_rank st' < pw_rank st"
proof -
  let ?ch = "hd_policyWatchers (pw_data st)" and ?w = "pw_watchers st ! i"
  from assms(2) obtain u q where i: "i < length (pw_watchers st)" "ws_pc ?w = AtSelect" "?ch ! i = u # q"
    and st': "st' = st\<lparr>pw_data := (pw_data st)\<lparr>hd_policyWatchers := ?ch[i := q]\<rparr>,
                     pw_watchers := (pw_watchers st)[i := ?w\<lparr>ws_pc := AtRead\<rparr>]\<rparr>"
    by (auto simp: watch_wake_def split: if_splits list.splits)
  have "i < length ?ch" using i(1) pw_okD(1) [OF assms(1)] by simp
  then have "sum_list (map length (?ch[i := q])) + 1 = sum_list (map length ?ch)"
    using sum_list_update_add [of i "map length ?ch" "length q"] i(3) by (simp add: map_update)
  moreover have "sum_list (map (pc_rank \<circ> ws_pc) ((pw_watchers st)[i := ?w\<lparr>ws_pc := AtRead\<rparr>])) =
      sum_list (map (pc_rank \<circ> ws_pc) (pw_watchers st)) + 2"
    using sum_list_update_add [of i "map (pc_rank \<circ> ws_pc) (pw_watchers st)" 2] i(1,2) by (simp add: map_update)
  ultimately show ?thesis by (simp add: pw_rank_def st')
qed

lemma read_rank: "watch_read d w = Some w' \<Longrightarrow> pc_rank (ws_pc w') < pc_rank (ws_pc w)"
  by (auto simp: watch_read_def Policy_def split: watch_pc.splits if_splits)

lemma send_rank: "watch_send send_ok w = Some w' \<Longrightarrow> pc_rank (ws_pc w') < pc_rank (ws_pc w)"
  by (auto simp: watch_send_def split: watch_pc.splits if_splits)

lemma pw_rank_step:
  "\<lbrakk>pw_ok st; pw_internal a; pw_step a st = Some st'\<rbrakk> \<Longrightarrow> pw_rank st' < pw_rank st"
  by (cases a) (auto intro: rank_notify rank_wake rank_at_watcher read_rank send_rank)

section \<open>What internal steps keep\<close>

definition live :: "pw_state \<Rightarrow> nat set" where
  "live st = {i. i < length (pw_watchers st) \<and> ws_pc (pw_watchers st ! i) \<noteq> Returned}"

definition settling :: "u64 \<times> bytes \<Rightarrow> nat set \<Rightarrow> pw_state \<Rightarrow> bool" where
  "settling P L st \<longleftrightarrow> pw_ok st \<and> Suc (revision st) < 2 ^ 64 \<and> Policy (pw_data st) = P \<and> live st = L"

lemma internal_updates: "pw_internal a \<Longrightarrow> updates [a] = 0"
  by (cases a) simp_all

lemma internal_Policy:
  "\<lbrakk>pw_internal a; pw_step a st = Some st'\<rbrakk> \<Longrightarrow> Policy (pw_data st') = Policy (pw_data st)"
  by (cases a)
    (auto simp: Policy_def set_notify_def notify_chan_def at_watcher_def watch_wake_def
      split: if_splits list.splits)

lemma pw_good_internal: "pw_good a \<Longrightarrow> pw_internal a"
  by (cases a) simp_all

lemma live_update:
  assumes "pw_watchers st' = (pw_watchers st)[i := w']"
    and "ws_pc (pw_watchers st ! i) \<noteq> Returned" and "ws_pc w' \<noteq> Returned"
  shows "live st' = live st"
proof (rule set_eqI)
  show "k \<in> live st' \<longleftrightarrow> k \<in> live st" for k
    using assms by (cases "k = i"; cases "i < length (pw_watchers st)") (simp_all add: live_def)
qed

lemma live_at_watcher:
  assumes "at_watcher i f st = Some st'"
    and "\<And>w w'. f w = Some w' \<Longrightarrow> ws_pc w \<noteq> Returned \<and> ws_pc w' \<noteq> Returned"
  shows "live st' = live st"
proof -
  from assms(1) obtain w' where "f (pw_watchers st ! i) = Some w'"
    and st': "st' = st\<lparr>pw_watchers := (pw_watchers st)[i := w']\<rparr>"
    by (auto simp: at_watcher_def split: if_splits)
  with assms(2) show ?thesis by (intro live_update [of _ _ i w']) (simp_all add: st')
qed

lemma pw_good_live: "\<lbrakk>pw_good a; pw_step a st = Some st'\<rbrakk> \<Longrightarrow> live st' = live st"
proof (cases a)
  case (SetNotify j)
  assume "pw_step a st = Some st'"
  with SetNotify show ?thesis by (auto simp: live_def set_notify_def split: if_splits list.splits)
next
  case (WatchRead i)
  assume "pw_step a st = Some st'"
  with WatchRead show ?thesis
    by (intro live_at_watcher [of i "watch_read (pw_data st)"])
      (auto simp: watch_read_def Policy_def split: if_splits watch_pc.splits)
next
  case (WatchSend i s)
  assume "pw_good a" "pw_step a st = Some st'"
  with WatchSend show ?thesis
    by (intro live_at_watcher [of i "watch_send True"]) (auto simp: watch_send_def split: watch_pc.splits)
next
  case (WatchWake i)
  assume "pw_step a st = Some st'"
  with WatchWake obtain w' where "pw_watchers st' = (pw_watchers st)[i := w']"
    "ws_pc (pw_watchers st ! i) \<noteq> Returned" "ws_pc w' \<noteq> Returned"
    by (auto simp: watch_wake_def split: if_splits list.splits)
  then show ?thesis by (rule live_update)
qed auto

lemma settling_step:
  "\<lbrakk>settling P L st; pw_good a; pw_step a st = Some st'\<rbrakk> \<Longrightarrow> settling P L st'"
  using pw_step_ok [of st a st'] internal_updates [OF pw_good_internal] internal_Policy [OF pw_good_internal]
    pw_good_live [of a st st'] unfolding settling_def by simp

definition room :: "pw_state \<Rightarrow> bool" where
  "room st \<longleftrightarrow> pw_ok st \<and> Suc (revision st) < 2 ^ 64"

lemma room_step: "\<lbrakk>room st; pw_internal a; pw_step a st = Some st'\<rbrakk> \<Longrightarrow> room st'"
  using pw_step_ok [of st a st'] internal_updates [of a] by (simp add: room_def)

lemma settling_room: "settling P L st \<Longrightarrow> room st"
  by (simp add: settling_def room_def)

lemma room_ok: "room st \<Longrightarrow> pw_ok st"
  by (simp add: room_def)

interpretation pw_any: quiescing pw_step pw_internal room pw_rank
  by unfold_locales (auto intro: room_step pw_rank_step [OF room_ok])

interpretation pw_sent: quiescing pw_step pw_good "settling P L" pw_rank for P L
  by unfold_locales (auto intro: settling_step pw_rank_step [OF room_ok [OF settling_room]] pw_good_internal)

lemma reached_room:
  assumes "pw_run as pw_init = Some st" "Suc (updates as) < 2 ^ 64"
  shows "room st"
proof -
  have "revision pw_init = 0" by (simp add: revision_def pw_init_def NewHostData_def)
  with pw_run_ok [OF pw_ok_init _ assms(1)] assms(2) show ?thesis by (simp add: room_def)
qed

text \<open>At rest, every open watcher is in its select with nothing to take, and nobody is signalling.\<close>

lemma at_rest:
  assumes "quiescent pw_step pw_good st" "i \<in> live st" "room st"
  shows "ws_pc (pw_watchers st ! i) = AtSelect" and "hd_policyWatchers (pw_data st) ! i = []"
    and "idle_setters st"
proof -
  have i: "i < length (pw_watchers st)" "ws_pc (pw_watchers st ! i) \<noteq> Returned"
    using assms(2) by (auto simp: live_def)
  have "pw_step (WatchRead i) st = None" "pw_step (WatchSend i True) st = None"
    using quiescentD [OF assms(1)] by (simp_all del: pw_step.simps)
  then show sel: "ws_pc (pw_watchers st ! i) = AtSelect"
    using i by (cases "ws_pc (pw_watchers st ! i)") (auto simp: at_watcher_def watch_read_def watch_send_def Policy_def)
  have "pw_step (WatchWake i) st = None"
    using quiescentD [OF assms(1)] by (simp del: pw_step.simps)
  then show "hd_policyWatchers (pw_data st) ! i = []"
    using i sel by (auto simp: watch_wake_def split: list.splits)
  have "ws = []" if "ws \<in> set (pw_pending st)" for ws
  proof -
    from that obtain j where j: "j < length (pw_pending st)" "pw_pending st ! j = ws"
      by (auto simp: in_set_conv_nth)
    have "pw_step (SetNotify j) st = None" using quiescentD [OF assms(1)] by (simp del: pw_step.simps)
    with j show ?thesis by (auto simp: set_notify_def split: list.splits)
  qed
  then show "idle_setters st" by (simp add: idle_setters_def)
qed

section \<open>Properties\<close>

text \<open>
  The watchers' and signallers' own steps cannot go on for ever: from any reachable state
  every schedule of them has at most \<open>pw_rank\<close> steps, four for a signal yet to be sent, three for
  one waiting in a channel and up to two for a handler on its way to the select.
\<close>
lemma policy_watch_bounded:
  assumes "pw_run as pw_init = Some st" and "Suc (updates as) < 2 ^ 64"
    and "\<forall>a \<in> set bs. pw_internal a" and "pw_run bs st = Some st'"
  shows "length bs \<le> pw_rank st"
  using pw_any.run_bounded [OF reached_room [OF assms(1,2)] assms(3,4)] by simp

lemma policy_watch_bounded_witness:
  "length [WatchRead 0, WatchSend 0 True, SetNotify 0, WatchWake 0, WatchRead 0] \<le>
     pw_rank (the (pw_run [WatchCall, SetLock ''a''] pw_init))"
proof -
  let ?st = "the (pw_run [WatchCall, SetLock ''a''] pw_init)"
  let ?bs = "[WatchRead 0, WatchSend 0 True, SetNotify 0, WatchWake 0, WatchRead 0]"
  have "pw_run ?bs ?st \<noteq> None"
    by (simp add: pw_init_def NewHostData_def set_lock_def watch_call_def addPolicyWatcher_def at_watcher_def
        watch_read_def Policy_def watch_send_def set_notify_def notify_chan_def offer_def watch_wake_def)
  then obtain st' where "pw_run ?bs ?st = Some st'" by auto
  with policy_watch_bounded [of "[WatchCall, SetLock ''a'']" ?st ?bs st'] show ?thesis by simp
qed

text \<open>
  Every open watcher gets the current document in the end: from any reachable state, however
  many \<open>SetPolicy\<close> calls and watchers are under way, the goroutines' own steps (with sends that
  succeed) can run to a state in which none of them can move, within \<open>pw_rank\<close> steps; and there
  each watcher that was open is open still, waiting, and the last document sent on it is the
  current one, which is the one the run started from.
\<close>
lemma policy_watch_settles:
  assumes "pw_run as pw_init = Some st" and "Suc (updates as) < 2 ^ 64"
  shows "\<exists>bs st'. pw_run bs st = Some st' \<and> length bs \<le> pw_rank st \<and>
    quiescent pw_step pw_good st' \<and> live st' = live st \<and> Policy (pw_data st') = Policy (pw_data st) \<and>
    (\<forall>i \<in> live st. ws_out (pw_watchers st' ! i) \<noteq> [] \<and>
      last (ws_out (pw_watchers st' ! i)) = Policy (pw_data st))"
proof -
  have ok: "settling (Policy (pw_data st)) (live st) st"
    using reached_room [OF assms] by (simp add: settling_def room_def)
  from pw_sent.settles [OF ok] obtain bs st' where run: "\<forall>a \<in> set bs. pw_good a"
      "pw_run bs st = Some st'" "quiescent pw_step pw_good st'" by blast
  from pw_sent.run_bounded [OF ok run(1,2)]
  have st': "settling (Policy (pw_data st)) (live st) st'" "length bs \<le> pw_rank st" by simp_all
  then have same: "live st' = live st" "Policy (pw_data st') = Policy (pw_data st)" "pw_ok st'"
    by (simp_all add: settling_def)
  have "ws_out (pw_watchers st' ! i) \<noteq> [] \<and> last (ws_out (pw_watchers st' ! i)) = Policy (pw_data st)"
    if "i \<in> live st" for i
  proof -
    from that same have i: "i \<in> live st'" "i < length (pw_watchers st')" by (auto simp: live_def)
    note rest = at_rest [OF run(3) i(1) settling_room [OF st'(1)]]
    from at_select_current [OF same(3) rest(3) i(2) rest(1,2)] same(2) show ?thesis by simp
  qed
  with run(2,3) st'(2) same(1,2) show ?thesis by blast
qed

lemma policy_watch_settles_witness:
  "\<exists>st bs st'. pw_run [WatchCall, WatchCall, SetLock ''a'', SetLock ''b''] pw_init = Some st \<and>
     pw_run bs st = Some st' \<and> length bs \<le> pw_rank st \<and>
     last (ws_out (pw_watchers st' ! 1)) = (2, ''b'')"
proof -
  let ?as = "[WatchCall, WatchCall, SetLock ''a'', SetLock ''b'']"
  obtain st where run: "pw_run ?as pw_init = Some st" and pol: "Policy (pw_data st) = (2, ''b'')" and "1 \<in> live st"
    by (simp add: pw_init_def NewHostData_def set_lock_def watch_call_def addPolicyWatcher_def Policy_def live_def)
  from policy_watch_settles [OF run] obtain bs st' where "pw_run bs st = Some st'" "length bs \<le> pw_rank st"
    "\<forall>i \<in> live st. last (ws_out (pw_watchers st' ! i)) = Policy (pw_data st)" by auto
  moreover from this(3) \<open>1 \<in> live st\<close> pol have "last (ws_out (pw_watchers st' ! 1)) = (2, ''b'')" by auto
  ultimately show ?thesis using run by blast
qed

end
