(* ===== verification/EventWatch.thy ===== *)
theory EventWatch
  imports HostServer Quiesce
begin

text \<open>
  The event bus under concurrency (\<open>modulesdk/testkit/hostdata.go\<close>, \<open>hostserver.go\<close>).

  \<open>Publish\<close> logs the event and takes the list of subscribers under the lock, then offers the
  event to the matching ones one by one without it; each \<open>Subscribe\<close> handler registers a
  channel of 64, then loops: take an event, send it.  Any number of \<open>Publish\<close> calls and
  handlers interleave; one action of \<open>ev_step\<close> is one lock section or one channel operation of
  one goroutine.
\<close>

section \<open>State and steps\<close>

datatype sub_pc = SubSelect | SubSend PublishedEvent | SubReturned

text \<open>
  Two fields are history that no step reads: \<open>ss_since\<close>, the length of the event log when the
  handler registered, and \<open>ss_lost\<close>, the events its full channel refused or whose send failed.
\<close>

record sub_srv =
  ss_pc :: sub_pc
  ss_out :: "(string \<times> bytes \<times> int \<times> u64) list"
  ss_since :: nat
  ss_lost :: "PublishedEvent list"

text \<open>
  \<open>es_pending\<close> has one entry per \<open>Publish\<close> call that has left its lock section: its event and
  the subscribers it has yet to look at.  The i-th handler reads the i-th channel.
\<close>

record ev_state =
  es_data :: HostData
  es_pending :: "(PublishedEvent \<times> nat list) list"
  es_subs :: "sub_srv list"

datatype ev_act =
    PubLock int string bytes
  | PubOffer nat
  | SubCall "string list"
  | SubTake nat
  | SubSent nat bool
  | SubDone nat

definition pub_lock :: "int \<Rightarrow> string \<Rightarrow> bytes \<Rightarrow> ev_state \<Rightarrow> ev_state" where
  "pub_lock now topic data st =
     (let ev = \<lparr>ev_Topic = topic, ev_Data = data, ev_At = now\<rparr> in
      st\<lparr>es_data := (es_data st)\<lparr>hd_events := hd_events (es_data st) @ [ev]\<rparr>,
         es_pending := es_pending st @ [(ev, [0 ..< length (hd_subscribers (es_data st))])]\<rparr>)"

definition offer_sub :: "PublishedEvent \<Rightarrow> nat \<Rightarrow> HostData \<Rightarrow> HostData" where
  "offer_sub ev k d = d\<lparr>hd_subscribers := (hd_subscribers d)[k := deliver ev (hd_subscribers d ! k)]\<rparr>"

text \<open>The history of an offer: the event is lost when it matches and the channel is full.\<close>

definition note_lost :: "PublishedEvent \<Rightarrow> subscriber \<Rightarrow> sub_srv \<Rightarrow> sub_srv" where
  "note_lost ev s w =
     (if topicMatches (sub_topics s) (ev_Topic ev) \<and> \<not> length (sub_ch s) < 64
      then w\<lparr>ss_lost := ss_lost w @ [ev]\<rparr> else w)"

definition pub_offer :: "nat \<Rightarrow> ev_state \<Rightarrow> ev_state option" where
  "pub_offer j st =
     (if j < length (es_pending st)
      then (case es_pending st ! j of
              (ev, []) \<Rightarrow> None
            | (ev, k # ks) \<Rightarrow>
                Some (st\<lparr>es_data := offer_sub ev k (es_data st), es_pending := (es_pending st)[j := (ev, ks)],
                         es_subs := (es_subs st)[k := note_lost ev (hd_subscribers (es_data st) ! k) (es_subs st ! k)]\<rparr>))
      else None)"

definition sub_call :: "string list \<Rightarrow> ev_state \<Rightarrow> ev_state" where
  "sub_call ts st =
     (case subscribe ts (es_data st) of (d, _) \<Rightarrow>
        st\<lparr>es_data := d,
           es_subs := es_subs st @ [\<lparr>ss_pc = SubSelect, ss_out = [], ss_since = length (hd_events d), ss_lost = []\<rparr>]\<rparr>)"

definition sub_take :: "nat \<Rightarrow> ev_state \<Rightarrow> ev_state option" where
  "sub_take i st =
     (if i < length (es_subs st) \<and> ss_pc (es_subs st ! i) = SubSelect
      then (let s = hd_subscribers (es_data st) ! i in
            case sub_ch s of
              [] \<Rightarrow> None
            | ev # q \<Rightarrow> Some (st\<lparr>es_data := (es_data st)\<lparr>hd_subscribers :=
                                   (hd_subscribers (es_data st))[i := s\<lparr>sub_ch := q\<rparr>]\<rparr>,
                               es_subs := (es_subs st)[i := (es_subs st ! i)\<lparr>ss_pc := SubSend ev\<rparr>]\<rparr>))
      else None)"

definition sub_send :: "bool \<Rightarrow> sub_srv \<Rightarrow> sub_srv option" where
  "sub_send send_ok w =
     (case ss_pc w of
        SubSend ev \<Rightarrow>
          Some (if send_ok
                then w\<lparr>ss_pc := SubSelect, ss_out := ss_out w @ [stub_event ev]\<rparr>
                else w\<lparr>ss_pc := SubReturned, ss_lost := ss_lost w @ [ev]\<rparr>)
      | _ \<Rightarrow> None)"

definition sub_done :: "sub_srv \<Rightarrow> sub_srv option" where
  "sub_done w = (if ss_pc w = SubSelect then Some (w\<lparr>ss_pc := SubReturned\<rparr>) else None)"

definition at_sub :: "nat \<Rightarrow> (sub_srv \<Rightarrow> sub_srv option) \<Rightarrow> ev_state \<Rightarrow> ev_state option" where
  "at_sub i f st =
     (if i < length (es_subs st)
      then map_option (\<lambda>w. st\<lparr>es_subs := (es_subs st)[i := w]\<rparr>) (f (es_subs st ! i))
      else None)"

fun ev_step :: "ev_act \<Rightarrow> ev_state \<Rightarrow> ev_state option" where
  "ev_step (PubLock now topic data) st = Some (pub_lock now topic data st)"
| "ev_step (PubOffer j) st = pub_offer j st"
| "ev_step (SubCall ts) st = Some (sub_call ts st)"
| "ev_step (SubTake i) st = sub_take i st"
| "ev_step (SubSent i send_ok) st = at_sub i (sub_send send_ok) st"
| "ev_step (SubDone i) st = at_sub i sub_done st"

abbreviation ev_run :: "ev_act list \<Rightarrow> ev_state \<Rightarrow> ev_state option" where
  "ev_run \<equiv> opt_run ev_step"

definition ev_init :: ev_state where
  "ev_init = \<lparr>es_data = NewHostData, es_pending = [], es_subs = []\<rparr>"

section \<open>Where a matching event is\<close>

definition matching :: "PublishedEvent list \<Rightarrow> string list \<Rightarrow> nat \<Rightarrow> PublishedEvent list" where
  "matching evs ts since = filter (\<lambda>e. topicMatches ts (ev_Topic e)) (drop since evs)"

definition inflight :: "sub_srv \<Rightarrow> PublishedEvent list" where
  "inflight w = (case ss_pc w of SubSend ev \<Rightarrow> [ev] | _ \<Rightarrow> [])"

definition due1 :: "nat \<Rightarrow> string list \<Rightarrow> PublishedEvent \<times> nat list \<Rightarrow> PublishedEvent multiset" where
  "due1 i ts = (\<lambda>(ev, ks). if i \<in> set ks \<and> topicMatches ts (ev_Topic ev) then {#ev#} else {#})"

definition due :: "nat \<Rightarrow> string list \<Rightarrow> (PublishedEvent \<times> nat list) list \<Rightarrow> PublishedEvent multiset" where
  "due i ts pending = sum_list (map (due1 i ts) pending)"

definition sub_ok ::
  "PublishedEvent list \<Rightarrow> subscriber \<Rightarrow> sub_srv \<Rightarrow> PublishedEvent multiset \<Rightarrow> bool" where
  "sub_ok evs s w P \<longleftrightarrow>
     (let ms = matching evs (sub_topics s) (ss_since w) in
      ss_since w \<le> length evs \<and> length (sub_ch s) \<le> 64 \<and>
      mset (map stub_event ms) =
        mset (ss_out w) + image_mset stub_event (mset (inflight w @ sub_ch s @ ss_lost w) + P) \<and>
      (ss_pc w \<noteq> SubReturned \<and> ss_lost w \<noteq> [] \<longrightarrow> 64 < length ms))"

definition sub_at :: "nat \<Rightarrow> ev_state \<Rightarrow> bool" where
  "sub_at i st =
     (let s = hd_subscribers (es_data st) ! i in
      sub_ok (hd_events (es_data st)) s (es_subs st ! i) (due i (sub_topics s) (es_pending st)))"

definition ev_ok :: "ev_state \<Rightarrow> bool" where
  "ev_ok st \<longleftrightarrow>
     length (es_subs st) = length (hd_subscribers (es_data st)) \<and>
     (\<forall>(ev, ks) \<in> set (es_pending st). distinct ks \<and> (\<forall>k \<in> set ks. k < length (es_subs st))) \<and>
     (\<forall>i < length (es_subs st). sub_at i st)"

lemma ev_okD:
  assumes "ev_ok st"
  shows "length (es_subs st) = length (hd_subscribers (es_data st))"
    and "(ev, ks) \<in> set (es_pending st) \<Longrightarrow> distinct ks \<and> (\<forall>k \<in> set ks. k < length (es_subs st))"
    and "i < length (es_subs st) \<Longrightarrow> sub_at i st"
  using assms by (auto simp: ev_ok_def)

lemma due_Nil [simp]: "due i ts [] = {#}"
  by (simp add: due_def)

lemma due_append [simp]: "due i ts (ps @ qs) = due i ts ps + due i ts qs"
  by (simp add: due_def)

lemma due_single: "due i ts [p] = due1 i ts p"
  by (simp add: due_def)

lemma due_update:
  "j < length ps \<Longrightarrow> due i ts (ps[j := p]) + due1 i ts (ps ! j) = due i ts ps + due1 i ts p"
  using sum_list_update_add [of j "map (due1 i ts) ps" "due1 i ts p"] by (simp add: due_def map_update)

lemma due_fresh: "\<forall>(ev, ks) \<in> set ps. i \<notin> set ks \<Longrightarrow> due i ts ps = {#}"
  by (induction ps) (auto simp: due_def due1_def)

lemma matching_log:
  "since \<le> length evs \<Longrightarrow> matching (evs @ [ev]) ts since =
     matching evs ts since @ (if topicMatches ts (ev_Topic ev) then [ev] else [])"
  by (simp add: matching_def)

lemma ev_ok_init: "ev_ok ev_init"
  by (simp add: ev_ok_def ev_init_def NewHostData_def)

section \<open>Each step moves an event and loses none unseen\<close>

lemma sub_ok_log:
  "sub_ok evs s w P \<Longrightarrow>
   sub_ok (evs @ [ev]) s w (P + (if topicMatches (sub_topics s) (ev_Topic ev) then {#ev#} else {#}))"
  by (simp add: sub_ok_def Let_def matching_log del: topicMatches.simps) auto

lemma sub_ok_count:
  assumes "sub_ok evs s w P"
  shows "length (ss_out w) + length (inflight w) + length (sub_ch s) + length (ss_lost w) + size P =
    length (matching evs (sub_topics s) (ss_since w))"
proof -
  from assms have "mset (map stub_event (matching evs (sub_topics s) (ss_since w))) =
      mset (ss_out w) + image_mset stub_event (mset (inflight w @ sub_ch s @ ss_lost w) + P)"
    by (simp add: sub_ok_def Let_def)
  from arg_cong [OF this, of size] show ?thesis by simp
qed

lemma sub_ok_deliver:
  assumes "sub_ok evs s w (P + (if topicMatches (sub_topics s) (ev_Topic ev) then {#ev#} else {#}))"
  shows "sub_ok evs (deliver ev s) (note_lost ev s w) P"
proof (cases "topicMatches (sub_topics s) (ev_Topic ev)")
  case True
  then have "64 < length (matching evs (sub_topics s) (ss_since w))" if "\<not> length (sub_ch s) < 64"
    using sub_ok_count [OF assms] that by simp
  with True assms show ?thesis
    by (auto simp: sub_ok_def Let_def deliver_def note_lost_def offer_def inflight_def simp del: topicMatches.simps)
next
  case False
  with assms show ?thesis by (simp add: deliver_def note_lost_def)
qed

lemma sub_ok_take:
  "\<lbrakk>sub_ok evs s w P; ss_pc w = SubSelect; sub_ch s = ev # q\<rbrakk> \<Longrightarrow>
   sub_ok evs (s\<lparr>sub_ch := q\<rparr>) (w\<lparr>ss_pc := SubSend ev\<rparr>) P"
  by (simp add: sub_ok_def Let_def inflight_def)

lemma sub_ok_send: "\<lbrakk>sub_ok evs s w P; sub_send b w = Some w'\<rbrakk> \<Longrightarrow> sub_ok evs s w' P"
  by (auto simp: sub_ok_def Let_def sub_send_def inflight_def split: sub_pc.splits if_splits)

lemma sub_ok_done: "\<lbrakk>sub_ok evs s w P; sub_done w = Some w'\<rbrakk> \<Longrightarrow> sub_ok evs s w' P"
  by (auto simp: sub_ok_def Let_def sub_done_def inflight_def split: if_splits)

lemma ev_ok_pub_lock:
  assumes ok: "ev_ok st"
  shows "ev_ok (pub_lock now topic data st)"
proof -
  let ?st = "pub_lock now topic data st" and ?ev = "\<lparr>ev_Topic = topic, ev_Data = data, ev_At = now\<rparr>"
  have fields: "es_subs ?st = es_subs st" "hd_subscribers (es_data ?st) = hd_subscribers (es_data st)"
    "hd_events (es_data ?st) = hd_events (es_data st) @ [?ev]"
    "es_pending ?st = es_pending st @ [(?ev, [0 ..< length (es_subs st)])]"
    using ev_okD(1) [OF ok] by (simp_all add: pub_lock_def Let_def)
  have "sub_at i ?st" if i: "i < length (es_subs st)" for i
    using sub_ok_log [of "hd_events (es_data st)" "hd_subscribers (es_data st) ! i" "es_subs st ! i" _ ?ev]
      ev_okD(3) [OF ok i] i by (simp add: sub_at_def Let_def fields due_single due1_def)
  then show ?thesis
    unfolding ev_ok_def fields using ev_okD(1,2) [OF ok] by auto
qed

text \<open>One offer: the subscriber \<open>k\<close> it goes to gets the event that was due to it, the others nothing.\<close>

lemma pub_offer_elim:
  assumes "ev_ok st" "pub_offer j st = Some st'"
  obtains ev k ks where "j < length (es_pending st)" "es_pending st ! j = (ev, k # ks)"
    "k < length (es_subs st)" "k < length (hd_subscribers (es_data st))" "k \<notin> set ks" "distinct ks"
    "\<forall>k \<in> set ks. k < length (es_subs st)"
    "st' = st\<lparr>es_data := offer_sub ev k (es_data st), es_pending := (es_pending st)[j := (ev, ks)],
              es_subs := (es_subs st)[k := note_lost ev (hd_subscribers (es_data st) ! k) (es_subs st ! k)]\<rparr>"
proof -
  from assms(2) obtain ev k ks where j: "j < length (es_pending st)" "es_pending st ! j = (ev, k # ks)"
    and st': "st' = st\<lparr>es_data := offer_sub ev k (es_data st), es_pending := (es_pending st)[j := (ev, ks)],
              es_subs := (es_subs st)[k := note_lost ev (hd_subscribers (es_data st) ! k) (es_subs st ! k)]\<rparr>"
    by (cases "es_pending st ! j") (auto simp: pub_offer_def split: if_splits list.splits)
  have "(ev, k # ks) \<in> set (es_pending st)" using j by (metis nth_mem)
  from ev_okD(2) [OF assms(1) this] j st' ev_okD(1) [OF assms(1)] show thesis by (intro that [of ev k ks]) auto
qed

lemma pub_offer_at_k:
  assumes ok: "ev_ok st" and k: "k < length (es_subs st)" "k < length (hd_subscribers (es_data st))"
    and log: "hd_events (es_data st') = hd_events (es_data st)"
    and sub: "hd_subscribers (es_data st') ! k = deliver ev (hd_subscribers (es_data st) ! k)"
      "es_subs st' ! k = note_lost ev (hd_subscribers (es_data st) ! k) (es_subs st ! k)"
    and due: "\<And>ts. due k ts (es_pending st) =
      due k ts (es_pending st') + (if topicMatches ts (ev_Topic ev) then {#ev#} else {#})"
  shows "sub_at k st'"
proof -
  let ?sub = "hd_subscribers (es_data st) ! k"
  from ev_okD(3) [OF ok k(1)] sub_ok_deliver [of "hd_events (es_data st)" ?sub "es_subs st ! k" _ ev] due
  have "sub_ok (hd_events (es_data st)) (deliver ev ?sub) (note_lost ev ?sub (es_subs st ! k))
      (due k (sub_topics ?sub) (es_pending st'))"
    by (simp add: sub_at_def Let_def)
  with log sub show ?thesis by (simp add: sub_at_def Let_def)
qed

lemma ev_ok_pub_offer:
  assumes ok: "ev_ok st" and step: "pub_offer j st = Some st'"
  shows "ev_ok st'"
proof -
  let ?subs = "hd_subscribers (es_data st)"
  from ok step obtain ev k ks where j: "j < length (es_pending st)" "es_pending st ! j = (ev, k # ks)"
    and k: "k < length (es_subs st)" "k < length ?subs" "k \<notin> set ks" "distinct ks"
      "\<forall>k \<in> set ks. k < length (es_subs st)"
    and st': "st' = st\<lparr>es_data := offer_sub ev k (es_data st), es_pending := (es_pending st)[j := (ev, ks)],
                     es_subs := (es_subs st)[k := note_lost ev (?subs ! k) (es_subs st ! k)]\<rparr>"
    by (rule pub_offer_elim)
  have due: "due i ts (es_pending st') + due1 i ts (ev, k # ks) = due i ts (es_pending st) + due1 i ts (ev, ks)"
    for i ts using due_update [OF j(1), of i ts "(ev, ks)"] by (simp add: st' j(2))
  have log: "hd_events (es_data st') = hd_events (es_data st)" by (simp add: st' offer_sub_def)
  have at_k: "sub_at k st'"
  proof (rule pub_offer_at_k [OF ok k(1,2) log])
    show "due k ts (es_pending st) =
      due k ts (es_pending st') + (if topicMatches ts (ev_Topic ev) then {#ev#} else {#})" for ts
      using due [of k ts] k(3) by (simp add: due1_def)
  qed (use k in \<open>simp_all add: st' offer_sub_def\<close>)
  have others: "sub_at i st'" if "i < length (es_subs st)" "i \<noteq> k" for i
  proof -
    let ?ts = "sub_topics (?subs ! i)"
    have "due i ?ts (es_pending st') = due i ?ts (es_pending st)"
      using due [of i ?ts] that(2) by (simp add: due1_def)
    moreover have "hd_subscribers (es_data st') ! i = ?subs ! i" "es_subs st' ! i = es_subs st ! i"
      using that by (simp_all add: st' offer_sub_def)
    ultimately show ?thesis using ev_okD(3) [OF ok that(1)] by (simp add: sub_at_def Let_def log)
  qed
  have "set (es_pending st') \<subseteq> insert (ev, ks) (set (es_pending st))"
    using set_update_subset_insert by (fastforce simp: st')
  then have pend: "distinct vs \<and> (\<forall>k \<in> set vs. k < length (es_subs st))" if "(e, vs) \<in> set (es_pending st')" for e vs
    using that ev_okD(2) [OF ok] k(4,5) by auto
  have len: "length (es_subs st') = length (es_subs st)" "length (hd_subscribers (es_data st')) = length ?subs"
    by (simp_all add: st' offer_sub_def)
  show ?thesis unfolding ev_ok_def len using ev_okD(1) [OF ok] pend at_k others by blast
qed

lemma ev_ok_sub_call:
  assumes ok: "ev_ok st"
  shows "ev_ok (sub_call ts st)"
proof -
  let ?st = "sub_call ts st"
  have fields: "es_pending ?st = es_pending st" "hd_events (es_data ?st) = hd_events (es_data st)"
    "hd_subscribers (es_data ?st) = hd_subscribers (es_data st) @ [\<lparr>sub_topics = ts, sub_ch = []\<rparr>]"
    "es_subs ?st = es_subs st @
       [\<lparr>ss_pc = SubSelect, ss_out = [], ss_since = length (hd_events (es_data st)), ss_lost = []\<rparr>]"
    by (simp_all add: sub_call_def subscribe_def)
  have "sub_at i ?st" if "i < length (es_subs st)" for i
    using ev_okD(3) [OF ok that] that ev_okD(1) [OF ok] by (simp add: sub_at_def Let_def fields nth_append)
  moreover have "due (length (es_subs st)) ts (es_pending st) = {#}"
    by (rule due_fresh) (use ev_okD(2) [OF ok] in auto)
  then have "sub_at (length (es_subs st)) ?st"
    using ev_okD(1) [OF ok] by (simp add: sub_at_def Let_def fields nth_append sub_ok_def matching_def inflight_def)
  ultimately show ?thesis
    unfolding ev_ok_def using ev_okD(1,2) [OF ok] by (auto simp: fields less_Suc_eq)
qed

lemma ev_ok_one:
  assumes ok: "ev_ok st" and i: "i < length (es_subs st)"
    and same: "hd_events (es_data st') = hd_events (es_data st)" "es_pending st' = es_pending st"
    and subs: "hd_subscribers (es_data st') = (hd_subscribers (es_data st))[i := s']"
      "es_subs st' = (es_subs st)[i := w']" and topics: "sub_topics s' = sub_topics (hd_subscribers (es_data st) ! i)"
    and keep: "\<And>P. sub_ok (hd_events (es_data st)) (hd_subscribers (es_data st) ! i) (es_subs st ! i) P \<Longrightarrow>
      sub_ok (hd_events (es_data st)) s' w' P"
  shows "ev_ok st'"
proof -
  have "sub_at k st'" if k: "k < length (es_subs st)" for k
    using ev_okD(3) [OF ok k] keep topics i ev_okD(1) [OF ok]
    by (cases "k = i") (simp_all add: sub_at_def Let_def same subs)
  then show ?thesis
    unfolding ev_ok_def using ev_okD(1,2) [OF ok] by (auto simp: same subs)
qed

lemma ev_ok_sub_take:
  assumes ok: "ev_ok st" and step: "sub_take i st = Some st'"
  shows "ev_ok st'"
proof -
  let ?s = "hd_subscribers (es_data st) ! i"
  from step obtain ev q where i: "i < length (es_subs st)" "ss_pc (es_subs st ! i) = SubSelect" "sub_ch ?s = ev # q"
    and st': "st' = st\<lparr>es_data := (es_data st)\<lparr>hd_subscribers := (hd_subscribers (es_data st))[i := ?s\<lparr>sub_ch := q\<rparr>]\<rparr>,
                     es_subs := (es_subs st)[i := (es_subs st ! i)\<lparr>ss_pc := SubSend ev\<rparr>]\<rparr>"
    by (auto simp: sub_take_def Let_def split: if_splits list.splits)
  show ?thesis
    by (rule ev_ok_one [OF ok i(1), where s' = "?s\<lparr>sub_ch := q\<rparr>" and w' = "(es_subs st ! i)\<lparr>ss_pc := SubSend ev\<rparr>"])
      (simp_all add: st' sub_ok_take i(2,3))
qed

lemma ev_ok_at_sub:
  assumes ok: "ev_ok st" and step: "at_sub i f st = Some st'"
    and f: "\<And>evs s w w' P. \<lbrakk>sub_ok evs s w P; f w = Some w'\<rbrakk> \<Longrightarrow> sub_ok evs s w' P"
  shows "ev_ok st'"
proof -
  from step obtain w' where i: "i < length (es_subs st)" "f (es_subs st ! i) = Some w'"
    and st': "st' = st\<lparr>es_subs := (es_subs st)[i := w']\<rparr>"
    by (auto simp: at_sub_def split: if_splits)
  show ?thesis
    by (rule ev_ok_one [OF ok i(1), where s' = "hd_subscribers (es_data st) ! i" and w' = w'])
      (simp_all add: st' f [OF _ i(2)])
qed

lemma ev_step_ok: "\<lbrakk>ev_ok st; ev_step a st = Some st'\<rbrakk> \<Longrightarrow> ev_ok st'"
  by (cases a)
    (auto intro: ev_ok_pub_lock ev_ok_pub_offer ev_ok_sub_call ev_ok_sub_take ev_ok_at_sub sub_ok_send sub_ok_done)

lemma ev_run_ok: "\<lbrakk>ev_ok st; ev_run as st = Some st'\<rbrakk> \<Longrightarrow> ev_ok st'"
  by (induction as arbitrary: st) (auto split: option.splits dest: ev_step_ok)

lemmas reached_ev_ok = ev_run_ok [OF ev_ok_init]

end
