(* ===== verification/EventLive.thy ===== *)
theory EventLive
  imports EventWatch PolicyWatch
begin

text \<open>
  The event bus settles: the publishing and subscribing goroutines can take only boundedly many
  steps of their own, and come to rest with every queued event sent.  Also here: the atomic
  \<open>Publish\<close> and \<open>SetPolicy\<close> of theory \<open>HostData\<close> are the interleaved ones run alone.
\<close>

section \<open>Internal steps and their rank\<close>

fun ev_internal :: "ev_act \<Rightarrow> bool" where
  "ev_internal (PubOffer j) = True"
| "ev_internal (SubTake i) = True"
| "ev_internal (SubSent i send_ok) = True"
| "ev_internal _ = False"

fun ev_good :: "ev_act \<Rightarrow> bool" where
  "ev_good (SubSent i send_ok) = send_ok"
| "ev_good a = ev_internal a"

definition ev_rank :: "ev_state \<Rightarrow> nat" where
  "ev_rank st =
     3 * sum_list (map (length \<circ> snd) (es_pending st)) +
     2 * sum_list (map (length \<circ> sub_ch) (hd_subscribers (es_data st))) +
     sum_list (map (length \<circ> inflight) (es_subs st))"

lemma ev_good_internal: "ev_good a \<Longrightarrow> ev_internal a"
  by (cases a) simp_all

lemma inflight_note_lost [simp]: "inflight (note_lost ev s w) = inflight w"
  by (simp add: inflight_def note_lost_def)

lemma rank_pub_offer:
  assumes "ev_ok st" "pub_offer j st = Some st'"
  shows "ev_rank st' < ev_rank st"
proof -
  let ?subs = "hd_subscribers (es_data st)"
  from assms(2) obtain ev k ks where j: "j < length (es_pending st)" "es_pending st ! j = (ev, k # ks)"
    and st': "st' = st\<lparr>es_data := offer_sub ev k (es_data st), es_pending := (es_pending st)[j := (ev, ks)],
                     es_subs := (es_subs st)[k := note_lost ev (?subs ! k) (es_subs st ! k)]\<rparr>"
    by (cases "es_pending st ! j") (auto simp: pub_offer_def split: if_splits list.splits)
  have "(ev, k # ks) \<in> set (es_pending st)" using j by (metis nth_mem)
  from ev_okD(2) [OF assms(1) this] have k: "k < length (es_subs st)" "k < length ?subs"
    using ev_okD(1) [OF assms(1)] by auto
  have "sum_list (map (length \<circ> snd) ((es_pending st)[j := (ev, ks)])) + 1 =
      sum_list (map (length \<circ> snd) (es_pending st))"
    using sum_list_update_add [of j "map (length \<circ> snd) (es_pending st)" "length ks"] j by (simp add: map_update)
  moreover have "sum_list (map (length \<circ> sub_ch) (?subs[k := deliver ev (?subs ! k)])) \<le>
      Suc (sum_list (map (length \<circ> sub_ch) ?subs))"
    using sum_list_update_add [of k "map (length \<circ> sub_ch) ?subs" "length (sub_ch (deliver ev (?subs ! k)))"] k(2)
    by (auto simp: map_update deliver_def offer_def split: if_splits)
  moreover have "map (length \<circ> inflight) (es_subs st') = map (length \<circ> inflight) (es_subs st)"
    using k by (auto simp: st' list_eq_iff_nth_eq nth_list_update)
  ultimately show ?thesis by (simp add: ev_rank_def st' offer_sub_def)
qed

lemma rank_sub_take:
  assumes "ev_ok st" "sub_take i st = Some st'"
  shows "ev_rank st' < ev_rank st"
proof -
  let ?subs = "hd_subscribers (es_data st)" and ?w = "es_subs st ! i"
  from assms(2) obtain ev q where i: "i < length (es_subs st)" "ss_pc ?w = SubSelect" "sub_ch (?subs ! i) = ev # q"
    and st': "st' = st\<lparr>es_data := (es_data st)\<lparr>hd_subscribers := ?subs[i := (?subs ! i)\<lparr>sub_ch := q\<rparr>]\<rparr>,
                     es_subs := (es_subs st)[i := ?w\<lparr>ss_pc := SubSend ev\<rparr>]\<rparr>"
    by (auto simp: sub_take_def Let_def split: if_splits list.splits)
  have "sum_list (map (length \<circ> sub_ch) (?subs[i := (?subs ! i)\<lparr>sub_ch := q\<rparr>])) + 1 =
      sum_list (map (length \<circ> sub_ch) ?subs)"
    using sum_list_update_add [of i "map (length \<circ> sub_ch) ?subs" "length q"] i ev_okD(1) [OF assms(1)]
    by (simp add: map_update)
  moreover have "sum_list (map (length \<circ> inflight) ((es_subs st)[i := ?w\<lparr>ss_pc := SubSend ev\<rparr>])) =
      sum_list (map (length \<circ> inflight) (es_subs st)) + 1"
    using sum_list_update_add [of i "map (length \<circ> inflight) (es_subs st)" 1] i
    by (simp add: map_update inflight_def)
  ultimately show ?thesis by (simp add: ev_rank_def st')
qed

lemma rank_sub_send:
  assumes "at_sub i (sub_send b) st = Some st'"
  shows "ev_rank st' < ev_rank st"
proof -
  from assms obtain w' where i: "i < length (es_subs st)" "sub_send b (es_subs st ! i) = Some w'"
    and st': "st' = st\<lparr>es_subs := (es_subs st)[i := w']\<rparr>"
    by (auto simp: at_sub_def split: if_splits)
  from i(2) have "length (inflight w') = 0" "length (inflight (es_subs st ! i)) = 1"
    by (auto simp: sub_send_def inflight_def split: sub_pc.splits if_splits)
  then show ?thesis
    using sum_list_update_add [of i "map (length \<circ> inflight) (es_subs st)" 0] i(1)
    by (simp add: ev_rank_def st' map_update)
qed

lemma ev_rank_step: "\<lbrakk>ev_ok st; ev_internal a; ev_step a st = Some st'\<rbrakk> \<Longrightarrow> ev_rank st' < ev_rank st"
  by (cases a) (auto intro: rank_pub_offer rank_sub_take rank_sub_send)

section \<open>What internal steps keep\<close>

definition open_subs :: "ev_state \<Rightarrow> nat set" where
  "open_subs st = {i. i < length (es_subs st) \<and> ss_pc (es_subs st ! i) \<noteq> SubReturned}"

text \<open>The events a handler is to be sent: those logged since it registered that match.\<close>

definition wanted :: "ev_state \<Rightarrow> nat \<Rightarrow> PublishedEvent list" where
  "wanted st i =
     matching (hd_events (es_data st)) (sub_topics (hd_subscribers (es_data st) ! i)) (ss_since (es_subs st ! i))"

definition bus_settling :: "nat set \<Rightarrow> (nat \<Rightarrow> PublishedEvent list) \<Rightarrow> ev_state \<Rightarrow> bool" where
  "bus_settling L W st \<longleftrightarrow> ev_ok st \<and> open_subs st = L \<and> (\<forall>i. wanted st i = W i)"

lemma note_lost_simps [simp]:
  "ss_pc (note_lost ev s w) = ss_pc w" "ss_since (note_lost ev s w) = ss_since w"
  by (simp_all add: note_lost_def)

lemma open_subs_cong:
  "\<lbrakk>length (es_subs st') = length (es_subs st);
    \<And>i. (ss_pc (es_subs st' ! i) = SubReturned) = (ss_pc (es_subs st ! i) = SubReturned)\<rbrakk> \<Longrightarrow>
   open_subs st' = open_subs st"
  by (simp add: open_subs_def)

lemma nth_update_field: "(f x = f (xs ! i)) \<Longrightarrow> f (xs[i := x] ! k) = f (xs ! k)"
  by (cases "i < length xs"; cases "k = i") (simp_all add: list_update_beyond)

lemma good_step_keeps:
  assumes "ev_good a" "ev_step a st = Some st'"
  shows "open_subs st' = open_subs st" and "wanted st' i = wanted st i"
proof -
  let ?ret = "\<lambda>w. ss_pc w = SubReturned" and ?subs = "hd_subscribers (es_data st)"
  have "\<exists>k s' w'. es_subs st' = (es_subs st)[k := w'] \<and> hd_subscribers (es_data st') = ?subs[k := s'] \<and>
      hd_events (es_data st') = hd_events (es_data st) \<and> sub_topics s' = sub_topics (?subs ! k) \<and>
      ?ret w' = ?ret (es_subs st ! k) \<and> ss_since w' = ss_since (es_subs st ! k)"
  proof (cases a)
    case (PubOffer j)
    with assms(2) obtain ev k ks where
      "st' = st\<lparr>es_data := offer_sub ev k (es_data st), es_pending := (es_pending st)[j := (ev, ks)],
               es_subs := (es_subs st)[k := note_lost ev (?subs ! k) (es_subs st ! k)]\<rparr>"
      by (cases "es_pending st ! j") (auto simp: pub_offer_def split: if_splits list.splits)
    then show ?thesis
      by (intro exI [of _ k] exI [of _ "deliver ev (?subs ! k)"]
          exI [of _ "note_lost ev (?subs ! k) (es_subs st ! k)"]) (simp add: offer_sub_def)
  next
    case (SubTake k)
    with assms(2) obtain ev q where "ss_pc (es_subs st ! k) = SubSelect"
      "st' = st\<lparr>es_data := (es_data st)\<lparr>hd_subscribers := ?subs[k := (?subs ! k)\<lparr>sub_ch := q\<rparr>]\<rparr>,
               es_subs := (es_subs st)[k := (es_subs st ! k)\<lparr>ss_pc := SubSend ev\<rparr>]\<rparr>"
      by (auto simp: sub_take_def Let_def split: if_splits list.splits)
    then show ?thesis
      by (intro exI [of _ k] exI [of _ "(?subs ! k)\<lparr>sub_ch := q\<rparr>"]
          exI [of _ "(es_subs st ! k)\<lparr>ss_pc := SubSend ev\<rparr>"]) simp
  next
    case (SubSent k b)
    with assms obtain w' where "sub_send True (es_subs st ! k) = Some w'"
      "st' = st\<lparr>es_subs := (es_subs st)[k := w']\<rparr>"
      by (auto simp: at_sub_def split: if_splits)
    then show ?thesis
      by (intro exI [of _ k] exI [of _ "?subs ! k"] exI [of _ w'])
        (auto simp: sub_send_def split: sub_pc.splits)
  qed (use assms(1) in simp_all)
  then obtain k s' w' where new: "es_subs st' = (es_subs st)[k := w']" "hd_subscribers (es_data st') = ?subs[k := s']"
      "hd_events (es_data st') = hd_events (es_data st)" "sub_topics s' = sub_topics (?subs ! k)"
      "?ret w' = ?ret (es_subs st ! k)" "ss_since w' = ss_since (es_subs st ! k)" by blast
  show "open_subs st' = open_subs st"
    by (rule open_subs_cong) (simp_all only: new(1) length_list_update nth_update_field [of ?ret, OF new(5)])
  show "wanted st' i = wanted st i"
    by (simp only: wanted_def new(1-3) nth_update_field [of sub_topics, OF new(4)] nth_update_field [of ss_since, OF new(6)])
qed

lemma bus_settling_step:
  "\<lbrakk>bus_settling L W st; ev_good a; ev_step a st = Some st'\<rbrakk> \<Longrightarrow> bus_settling L W st'"
  using ev_step_ok [of st a st'] good_step_keeps [of a st st'] by (simp add: bus_settling_def)

interpretation ev_any: quiescing ev_step ev_internal ev_ok ev_rank
  by unfold_locales (auto intro: ev_step_ok ev_rank_step)

interpretation ev_sent: quiescing ev_step ev_good "bus_settling L W" ev_rank for L W
  by unfold_locales
    (blast intro: bus_settling_step, auto simp: bus_settling_def intro: ev_rank_step ev_good_internal)

text \<open>At rest, an open subscriber's channel is empty and no event is on its way to it.\<close>

lemma bus_at_rest:
  assumes "quiescent ev_step ev_good st" "i \<in> open_subs st"
  shows "sub_ch (hd_subscribers (es_data st) ! i) = []" and "inflight (es_subs st ! i) = []"
    and "due i ts (es_pending st) = {#}"
proof -
  have i: "i < length (es_subs st)" "ss_pc (es_subs st ! i) \<noteq> SubReturned"
    using assms(2) by (auto simp: open_subs_def)
  have "at_sub i (sub_send True) st = None" "sub_take i st = None"
    using quiescentD [OF assms(1), of "SubSent i True"] quiescentD [OF assms(1), of "SubTake i"] by simp_all
  with i have sel: "ss_pc (es_subs st ! i) = SubSelect" and q: "sub_ch (hd_subscribers (es_data st) ! i) = []"
    by (cases "ss_pc (es_subs st ! i)";
        auto simp: at_sub_def sub_send_def sub_take_def Let_def split: list.splits)+
  then show "sub_ch (hd_subscribers (es_data st) ! i) = []" "inflight (es_subs st ! i) = []"
    by (simp_all add: inflight_def)
  have "ks = []" if "(ev, ks) \<in> set (es_pending st)" for ev ks
  proof -
    from that obtain j where j: "j < length (es_pending st)" "es_pending st ! j = (ev, ks)"
      by (auto simp: in_set_conv_nth)
    have "pub_offer j st = None" using quiescentD [OF assms(1), of "PubOffer j"] by simp
    with j show ?thesis by (auto simp: pub_offer_def split: list.splits)
  qed
  then show "due i ts (es_pending st) = {#}" by (intro due_fresh) fastforce
qed

lemma bus_rest_all:
  assumes "quiescent ev_step ev_good st" "ev_ok st" "i \<in> open_subs st" "length (wanted st i) \<le> 64"
  shows "mset (ss_out (es_subs st ! i)) = mset (map stub_event (wanted st i))"
proof -
  have "i < length (es_subs st)" "ss_pc (es_subs st ! i) \<noteq> SubReturned"
    using assms(3) by (auto simp: open_subs_def)
  from ev_okD(3) [OF assms(2) this(1)] bus_at_rest [OF assms(1,3)] this(2) assms(4)
  show ?thesis by (auto simp: sub_at_def sub_ok_def wanted_def Let_def)
qed

section \<open>The atomic bodies\<close>

lemma fold_update_all:
  "m \<le> length xs \<Longrightarrow> fold (\<lambda>k ys. ys[k := f (ys ! k)]) [0 ..< m] xs = map f (take m xs) @ drop m xs"
proof (induction m)
  case (Suc m)
  then have "drop m xs = xs ! m # drop (Suc m) xs" by (simp add: Cons_nth_drop_Suc)
  with Suc show ?case by (simp add: take_Suc_conv_app_nth nth_append list_update_append)
qed simp

lemma pub_offers_run:
  "\<lbrakk>j < length (es_pending st); es_pending st ! j = (ev, ks)\<rbrakk> \<Longrightarrow>
   \<exists>st'. ev_run (replicate (length ks) (PubOffer j)) st = Some st' \<and>
     es_data st' = (es_data st)\<lparr>hd_subscribers :=
       fold (\<lambda>k ss. ss[k := deliver ev (ss ! k)]) ks (hd_subscribers (es_data st))\<rparr>"
proof (induction ks arbitrary: st)
  case (Cons k ks)
  then obtain st1 where step: "pub_offer j st = Some st1" "es_data st1 = offer_sub ev k (es_data st)"
    "j < length (es_pending st1)" "es_pending st1 ! j = (ev, ks)"
    by (simp add: pub_offer_def)
  from Cons.IH [OF step(3,4)] obtain st' where "ev_run (replicate (length ks) (PubOffer j)) st1 = Some st'"
    "es_data st' = (es_data st1)\<lparr>hd_subscribers :=
       fold (\<lambda>k ss. ss[k := deliver ev (ss ! k)]) ks (hd_subscribers (es_data st1))\<rparr>" by blast
  then show ?case by (intro exI [of _ st']) (simp add: step(1,2) offer_sub_def)
qed simp

lemma set_notifies_run:
  "\<lbrakk>j < length (pw_pending st); pw_pending st ! j = ws\<rbrakk> \<Longrightarrow>
   \<exists>st'. pw_run (replicate (length ws) (SetNotify j)) st = Some st' \<and>
     pw_data st' = (pw_data st)\<lparr>hd_policyWatchers :=
       fold (\<lambda>w chs. chs[w := offer 1 () (chs ! w)]) ws (hd_policyWatchers (pw_data st))\<rparr>"
proof (induction ws arbitrary: st)
  case (Cons w ws)
  then obtain st1 where step: "set_notify j st = Some st1" "pw_data st1 = notify_chan w (pw_data st)"
    "j < length (pw_pending st1)" "pw_pending st1 ! j = ws"
    by (simp add: set_notify_def)
  from Cons.IH [OF step(3,4)] obtain st' where "pw_run (replicate (length ws) (SetNotify j)) st1 = Some st'"
    "pw_data st' = (pw_data st1)\<lparr>hd_policyWatchers :=
       fold (\<lambda>w chs. chs[w := offer 1 () (chs ! w)]) ws (hd_policyWatchers (pw_data st1))\<rparr>" by blast
  then show ?case by (intro exI [of _ st']) (simp add: step(1,2) notify_chan_def)
qed simp

section \<open>Properties\<close>

text \<open>
  The one-step \<open>Publish\<close> and \<open>SetPolicy\<close> are the real ones run without interruption: the
  lock section followed by that call's channel operations, one per subscriber or watcher, is
  always enabled and ends in exactly the state the one-step method gives.
\<close>
lemma atomic_is_serial_run:
  "(\<exists>st'. ev_run (PubLock now topic data #
        replicate (length (hd_subscribers (es_data st))) (PubOffer (length (es_pending st)))) st = Some st' \<and>
      es_data st' = Publish now topic data (es_data st)) \<and>
   (\<exists>st'. pw_run (SetLock doc #
        replicate (length (hd_policyWatchers (pw_data ps))) (SetNotify (length (pw_pending ps)))) ps = Some st' \<and>
      pw_data st' = SetPolicy doc (pw_data ps))"
proof
  let ?ev = "\<lparr>ev_Topic = topic, ev_Data = data, ev_At = now\<rparr>" and ?subs = "hd_subscribers (es_data st)"
  let ?st = "pub_lock now topic data st" and ?ps = "set_lock doc ps"
  have "\<exists>st'. ev_run (replicate (length [0 ..< length ?subs]) (PubOffer (length (es_pending st)))) ?st = Some st' \<and>
      es_data st' = (es_data ?st)\<lparr>hd_subscribers :=
        fold (\<lambda>k ss. ss[k := deliver ?ev (ss ! k)]) [0 ..< length ?subs] (hd_subscribers (es_data ?st))\<rparr>"
    by (rule pub_offers_run) (simp_all add: pub_lock_def Let_def)
  then show "\<exists>st'. ev_run (PubLock now topic data # replicate (length ?subs) (PubOffer (length (es_pending st)))) st =
      Some st' \<and> es_data st' = Publish now topic data (es_data st)"
    by (simp add: pub_lock_def Publish_def Let_def fold_update_all)
  have "\<exists>st'. pw_run (replicate (length [0 ..< length (hd_policyWatchers (pw_data ps))]) (SetNotify (length (pw_pending ps)))) ?ps = Some st' \<and>
      pw_data st' = (pw_data ?ps)\<lparr>hd_policyWatchers :=
        fold (\<lambda>w chs. chs[w := offer 1 () (chs ! w)]) [0 ..< length (hd_policyWatchers (pw_data ps))]
          (hd_policyWatchers (pw_data ?ps))\<rparr>"
    by (rule set_notifies_run) (simp_all add: set_lock_def)
  then show "\<exists>st'. pw_run (SetLock doc #
        replicate (length (hd_policyWatchers (pw_data ps))) (SetNotify (length (pw_pending ps)))) ps = Some st' \<and>
      pw_data st' = SetPolicy doc (pw_data ps)"
    by (simp add: set_lock_def SetPolicy_def fold_update_all)
qed

text \<open>
  C16: no event is lost silently or doubled: under every interleaving of publishers and
  subscribers, each event that was logged since a subscriber registered and matches its
  patterns is in exactly one place: sent on its stream, about to be sent, in its channel (of
  at most 64), still to be offered by its publisher, or lost; and an open subscriber
  has lost one only if more than 64 matched.
\<close>
theorem events_conserved:
  assumes "ev_run as ev_init = Some st" and "i < length (es_subs st)"
  shows "mset (map stub_event (wanted st i)) = mset (ss_out (es_subs st ! i)) +
      image_mset stub_event (mset (inflight (es_subs st ! i)) + mset (sub_ch (hd_subscribers (es_data st) ! i)) +
        mset (ss_lost (es_subs st ! i)) + due i (sub_topics (hd_subscribers (es_data st) ! i)) (es_pending st)) \<and>
    length (sub_ch (hd_subscribers (es_data st) ! i)) \<le> 64 \<and>
    (ss_lost (es_subs st ! i) = [] \<or> ss_pc (es_subs st ! i) = SubReturned \<or> 64 < length (wanted st i))"
proof -
  from ev_okD(3) [OF reached_ev_ok [OF assms(1)] assms(2)]
  have "sub_ok (hd_events (es_data st)) (hd_subscribers (es_data st) ! i) (es_subs st ! i)
      (due i (sub_topics (hd_subscribers (es_data st) ! i)) (es_pending st))"
    by (simp add: sub_at_def Let_def)
  then show ?thesis by (auto simp: sub_ok_def Let_def wanted_def [symmetric] add_ac)
qed

theorem events_conserved_witness:
  "\<exists>st. ev_run [SubCall [''m.*''], PubLock 0 ''m.a'' ''x'', PubLock 0 ''m.b'' ''y'', PubOffer 1, SubTake 0] ev_init = Some st \<and>
     length (sub_ch (hd_subscribers (es_data st) ! 0)) \<le> 64"
proof -
  let ?as = "[SubCall [''m.*''], PubLock 0 ''m.a'' ''x'', PubLock 0 ''m.b'' ''y'', PubOffer 1, SubTake 0]"
  have "ev_run ?as ev_init \<noteq> None \<and> length (es_subs (the (ev_run ?as ev_init))) = 1"
    by (simp add: ev_init_def NewHostData_def sub_call_def subscribe_def pub_lock_def Let_def pub_offer_def
        offer_sub_def note_lost_def deliver_def offer_def sub_take_def)
  then obtain st where "ev_run ?as ev_init = Some st" "length (es_subs st) = 1" by auto
  with events_conserved [of ?as st 0] show ?thesis by (intro exI [of _ st]) simp
qed

text \<open>
  Every event arrives: from any reachable state, however many publishers and subscribers
  are under way, their own steps (with sends that succeed) can run to a state where none of them can move, within
  \<open>ev_rank\<close> steps; and there each subscriber that was open, and for which at most 64 events
  matched, has been sent exactly those events, each as often as it was published.
\<close>
lemma events_all_delivered:
  assumes "ev_run as ev_init = Some st"
  shows "\<exists>bs st'. ev_run bs st = Some st' \<and> length bs \<le> ev_rank st \<and> quiescent ev_step ev_good st' \<and>
    open_subs st' = open_subs st \<and>
    (\<forall>i \<in> open_subs st. length (wanted st i) \<le> 64 \<longrightarrow>
      mset (ss_out (es_subs st' ! i)) = mset (map stub_event (wanted st i)))"
proof -
  have ok: "bus_settling (open_subs st) (wanted st) st"
    using reached_ev_ok [OF assms] by (simp add: bus_settling_def)
  from ev_sent.settles [OF ok] obtain bs st' where run: "\<forall>a \<in> set bs. ev_good a"
      "ev_run bs st = Some st'" "quiescent ev_step ev_good st'" by blast
  from ev_sent.run_bounded [OF ok run(1,2)]
  have st': "ev_ok st'" "open_subs st' = open_subs st" "\<And>i. wanted st' i = wanted st i" "length bs \<le> ev_rank st"
    by (simp_all add: bus_settling_def)
  have "mset (ss_out (es_subs st' ! i)) = mset (map stub_event (wanted st i))"
    if i: "i \<in> open_subs st" "length (wanted st i) \<le> 64" for i
    using bus_rest_all [OF run(3) st'(1), of i] i st'(2,3) by simp
  with run(2,3) st'(2,4) show ?thesis by blast
qed

lemma events_all_delivered_witness:
  "\<exists>st bs st'. ev_run [SubCall [''m.a''], PubLock 5000000 ''m.a'' ''x'', PubLock 0 ''m.b'' ''y''] ev_init = Some st \<and>
     ev_run bs st = Some st' \<and> length bs \<le> ev_rank st \<and>
     mset (ss_out (es_subs st' ! 0)) = {#(''m.a'', ''x'', 5, 0)#}"
proof -
  let ?as = "[SubCall [''m.a''], PubLock 5000000 ''m.a'' ''x'', PubLock 0 ''m.b'' ''y'']"
  obtain st where run: "ev_run ?as ev_init = Some st" and "0 \<in> open_subs st"
    and "wanted st 0 = [\<lparr>ev_Topic = ''m.a'', ev_Data = ''x'', ev_At = 5000000\<rparr>]"
    by (simp add: ev_init_def NewHostData_def sub_call_def subscribe_def pub_lock_def Let_def open_subs_def
        wanted_def matching_def)
  moreover from events_all_delivered [OF run] obtain bs st' where bs: "ev_run bs st = Some st'" "length bs \<le> ev_rank st"
    and all: "\<forall>i \<in> open_subs st. length (wanted st i) \<le> 64 \<longrightarrow>
      mset (ss_out (es_subs st' ! i)) = mset (map stub_event (wanted st i))" by blast
  ultimately have "mset (ss_out (es_subs st' ! 0)) = {#(''m.a'', ''x'', 5, 0)#}"
    by (simp add: stub_event_def)
  with run bs show ?thesis by blast
qed

text \<open>
  Two publishers may be overtaken between the log and the channel: a subscriber can be sent
  events in another order than they were logged, and nothing tells it, as the stub leaves
  every \<open>Sequence\<close> at 0.
\<close>

lemma publish_overtaken:
  "\<exists>st. ev_run [SubCall [''m.*''], PubLock 0 ''m.a'' ''x'', PubLock 0 ''m.a'' ''y'', PubOffer 1, PubOffer 0,
      SubTake 0, SubSent 0 True, SubTake 0, SubSent 0 True] ev_init = Some st \<and>
    map ev_Data (Events (es_data st)) = [''x'', ''y''] \<and>
    ss_out (es_subs st ! 0) = [(''m.a'', ''y'', 0, 0), (''m.a'', ''x'', 0, 0)]"
  by (simp add: ev_init_def NewHostData_def sub_call_def subscribe_def pub_lock_def Let_def pub_offer_def
      offer_sub_def note_lost_def deliver_def offer_def sub_take_def at_sub_def sub_send_def stub_event_def Events_def)

lemma stub_never_numbers:
  assumes "ev_run as ev_init = Some st" "i < length (es_subs st)" "(topic, data, at, sequence) \<in> set (ss_out (es_subs st ! i))"
  shows "sequence = 0"
proof -
  from ev_okD(3) [OF reached_ev_ok [OF assms(1)] assms(2)]
  have "set_mset (mset (ss_out (es_subs st ! i))) \<subseteq> set_mset (mset (map stub_event (wanted st i)))"
    by (auto simp: sub_at_def sub_ok_def wanted_def Let_def)
  with assms(3) show ?thesis by (auto simp: stub_event_def)
qed

end
