(* ===== verification/Delivery.thy ===== *)
theory Delivery
  imports Relay PolicyLive EventLive
begin

text \<open>
  Policy documents and events all the way to the module: the stub's \<open>Watch\<close> and \<open>Subscribe\<close>
  handlers (theories \<open>PolicyWatch\<close>, \<open>EventWatch\<close>) with the client's pumps on the other end of
  their streams (theory \<open>Relay\<close>), and what \<open>PolicyReader.Watch\<close> and \<open>Events.Subscribe\<close> hand the
  module on their channels.
\<close>

section \<open>Streams as lists\<close>

definition stream_of :: "'w list list \<Rightarrow> nat \<Rightarrow> 'w list" where
  "stream_of xss i = (if i < length xss then xss ! i else [])"

text \<open>A step of the sending side puts at most one message on one stream.\<close>

definition sends_one :: "'w list list \<Rightarrow> 'w list list \<Rightarrow> bool" where
  "sends_one xss yss \<longleftrightarrow> yss = xss \<or> (\<exists>i x. i < length xss \<and> yss = xss[i := xss ! i @ [x]])"

lemma sends_one_length: "sends_one xss yss \<Longrightarrow> length yss = length xss"
  by (auto simp: sends_one_def)

lemma sends_one_grows: "sends_one xss yss \<or> yss = xss @ [[]] \<Longrightarrow> prefix (stream_of xss i) (stream_of yss i)"
  by (auto simp: sends_one_def stream_of_def nth_append nth_list_update)

lemma sum_streams: "(\<Sum>i<length xss. length (stream_of xss i)) = sum_list (map length xss)"
  by (simp add: sum_list_sum_nth stream_of_def atLeast0LessThan)

lemma sends_one_sum:
  assumes "sends_one xss yss"
  shows "(\<Sum>i<length xss. length (stream_of yss i)) \<le> Suc (\<Sum>i<length xss. length (stream_of xss i))"
proof -
  have "sum_list (map length yss) \<le> Suc (sum_list (map length xss))"
    using assms unfolding sends_one_def
  proof (elim disjE exE conjE)
    fix i x assume "i < length xss" "yss = xss[i := xss ! i @ [x]]"
    then show ?thesis
      using sum_list_update_add [of i "map length xss" "Suc (length (xss ! i))"] by (simp add: map_update)
  qed simp
  then show ?thesis using sends_one_length [OF assms] sum_streams [of xss] sum_streams [of yss] by simp
qed

lemma sends_one_map: "sends_one xss yss \<Longrightarrow> sends_one (map (map f) xss) (map (map f) yss)"
  unfolding sends_one_def
proof (elim disjE exE conjE)
  fix i x assume "i < length xss" "yss = xss[i := xss ! i @ [x]]"
  then show "map (map f) yss = map (map f) xss \<or>
      (\<exists>i x. i < length (map (map f) xss) \<and> map (map f) yss = (map (map f) xss)[i := map (map f) xss ! i @ [x]])"
    by (intro disjI2 exI [of _ i] exI [of _ "f x"]) (simp add: map_update)
qed simp

lemma sends_one_update:
  "\<lbrakk>i < length ws; g w' = g (ws ! i) \<or> (\<exists>x. g w' = g (ws ! i) @ [x])\<rbrakk> \<Longrightarrow> sends_one (map g ws) (map g (ws[i := w']))"
  unfolding sends_one_def map_update by (metis length_map list_update_id nth_map)

section \<open>Policy documents\<close>

definition watch_streams :: "pw_state \<Rightarrow> (u64 \<times> bytes \<times> u32 \<times> string) list list" where
  "watch_streams st = map (map policy_msg \<circ> ws_out) (pw_watchers st)"

lemma at_watcher_sends:
  assumes "at_watcher i f st = Some st'" "\<And>w w'. f w = Some w' \<Longrightarrow> ws_out w' = ws_out w \<or> (\<exists>x. ws_out w' = ws_out w @ [x])"
  shows "sends_one (map ws_out (pw_watchers st)) (map ws_out (pw_watchers st'))"
proof -
  from assms(1) obtain w' where i: "i < length (pw_watchers st)" "f (pw_watchers st ! i) = Some w'"
    and st': "st' = st\<lparr>pw_watchers := (pw_watchers st)[i := w']\<rparr>"
    by (auto simp: at_watcher_def split: if_splits)
  from sends_one_update [OF i(1) assms(2) [OF i(2)]] show ?thesis by (simp add: st')
qed

lemma ws_out_steps:
  "watch_read d w = Some w' \<Longrightarrow> ws_out w' = ws_out w"
  "watch_done w = Some w' \<Longrightarrow> ws_out w' = ws_out w"
  "watch_send s w = Some w' \<Longrightarrow> ws_out w' = ws_out w \<or> (\<exists>x. ws_out w' = ws_out w @ [x])"
  by (auto simp: watch_read_def watch_done_def watch_send_def Policy_def split: watch_pc.splits if_splits)

lemma pw_sends:
  assumes "pw_step a st = Some st'"
  shows "sends_one (map ws_out (pw_watchers st)) (map ws_out (pw_watchers st')) \<or>
    a = WatchCall \<and> map ws_out (pw_watchers st') = map ws_out (pw_watchers st) @ [[]]"
proof (cases a)
  case (WatchRead i)
  then have "at_watcher i (watch_read (pw_data st)) st = Some st'" using assms by simp
  then show ?thesis by (intro disjI1, elim at_watcher_sends) (simp add: ws_out_steps)
next
  case (WatchSend i s)
  then have "at_watcher i (watch_send s) st = Some st'" using assms by simp
  then show ?thesis by (intro disjI1, elim at_watcher_sends) (rule ws_out_steps)
next
  case (WatchDone i)
  then have "at_watcher i watch_done st = Some st'" using assms by simp
  then show ?thesis by (intro disjI1, elim at_watcher_sends) (simp add: ws_out_steps)
next
  case (WatchWake i)
  with assms show ?thesis
    by (auto simp: watch_wake_def split: if_splits list.splits intro!: sends_one_update)
qed (use assms in \<open>auto simp: sends_one_def set_lock_def watch_call_def addPolicyWatcher_def set_notify_def
      split: if_splits list.splits\<close>)

lemma watch_streams_step:
  assumes "pw_step a st = Some st'"
  shows "sends_one (watch_streams st) (watch_streams st') \<or>
    a = WatchCall \<and> watch_streams st' = watch_streams st @ [[]]"
proof -
  have eq: "watch_streams s = map (map policy_msg) (map ws_out (pw_watchers s))" for s by (simp add: watch_streams_def)
  from pw_sends [OF assms] show ?thesis
  proof (elim disjE conjE)
    assume "sends_one (map ws_out (pw_watchers st)) (map ws_out (pw_watchers st'))"
    then show ?thesis unfolding eq by (intro disjI1 sends_one_map)
  next
    assume "a = WatchCall" and new: "map ws_out (pw_watchers st') = map ws_out (pw_watchers st) @ [[]]"
    then show ?thesis unfolding eq new by simp
  qed
qed

lemma watch_streams_good:
  "\<lbrakk>pw_good a; pw_step a st = Some st'\<rbrakk> \<Longrightarrow> sends_one (watch_streams st) (watch_streams st')"
  using watch_streams_step [of a st st'] by auto

abbreviation policy_out :: "pw_state \<Rightarrow> nat \<Rightarrow> (u64 \<times> bytes \<times> u32 \<times> string) list" where
  "policy_out \<equiv> \<lambda>st. stream_of (watch_streams st)"

abbreviation policy_n :: "pw_state \<Rightarrow> nat" where
  "policy_n \<equiv> \<lambda>st. length (watch_streams st)"

interpretation docs: relayed pw_step pw_good "settling P L" pw_rank policy_n policy_out for P L
proof unfold_locales
  show "prefix (policy_out s i) (policy_out s' i)" if "pw_step a s = Some s'" for a s s' i
    using watch_streams_step [OF that] by (intro sends_one_grows) auto
qed (auto simp: sends_one_length [OF watch_streams_good] intro: sends_one_sum [OF watch_streams_good])

abbreviation docs_run where "docs_run \<equiv> opt_run (relay_step pw_step policy_n policy_out)"

text \<open>
  What the module's i-th \<open>Watch\<close> channel has carried: \<open>Watch\<close> of a client to which the relay hands
  its i-th stream.
\<close>

definition watch_channel :: "('c, (pw_state, u64 \<times> bytes \<times> u32 \<times> string) relay) hostClient \<Rightarrow> 'c \<Rightarrow>
    (pw_state, u64 \<times> bytes \<times> u32 \<times> string) relay \<Rightarrow> nat \<Rightarrow> go_error + PolicyDocument list \<times> bool" where
  "watch_channel h ctx st i = fst (Watch (with_watch (\<lambda>_ st. (Inr (rl_ins st i), st)) h) ctx st)"

lemma watch_channel_pump: "watch_channel h ctx st i = Inr (pump policyDoc (rl_ins st i))"
  by (simp add: watch_channel_def Watch_with)

lemma watch_channel_map:
  "rl_ins st i = map RecvTaken ms \<Longrightarrow> watch_channel h ctx st i = Inr (map policyDoc ms, False)"
  by (simp add: watch_channel_pump pump_taken)

lemma policyDoc_msg: "policyDoc (policy_msg (r, x)) =
    \<lparr>pol_Revision = r, pol_Data = x, pol_SchemaVersion = 0, pol_ContentType = []\<rparr>"
  by (simp add: policyDoc_def policy_msg_def)

section \<open>Events\<close>

definition event_streams :: "ev_state \<Rightarrow> (string \<times> bytes \<times> int \<times> u64) list list" where
  "event_streams st = map ss_out (es_subs st)"

lemma ss_out_note_lost [simp]: "ss_out (note_lost ev s w) = ss_out w"
  by (simp add: note_lost_def)

lemma ss_out_steps:
  "sub_done w = Some w' \<Longrightarrow> ss_out w' = ss_out w"
  "sub_send s w = Some w' \<Longrightarrow> ss_out w' = ss_out w \<or> (\<exists>x. ss_out w' = ss_out w @ [x])"
  by (auto simp: sub_done_def sub_send_def stub_event_def split: sub_pc.splits if_splits)

lemma ev_sends:
  assumes "ev_step a st = Some st'"
  shows "sends_one (event_streams st) (event_streams st') \<or>
    (\<exists>ts. a = SubCall ts) \<and> event_streams st' = event_streams st @ [[]]"
proof -
  have at: "sends_one (event_streams st) (event_streams st')"
    if "at_sub i f st = Some st'" "\<And>w w'. f w = Some w' \<Longrightarrow> ss_out w' = ss_out w \<or> (\<exists>x. ss_out w' = ss_out w @ [x])" for i f
  proof -
    from that(1) obtain w' where i: "i < length (es_subs st)" "f (es_subs st ! i) = Some w'"
      and st': "st' = st\<lparr>es_subs := (es_subs st)[i := w']\<rparr>"
      by (auto simp: at_sub_def split: if_splits)
    from sends_one_update [OF i(1) that(2) [OF i(2)]] show ?thesis by (simp add: event_streams_def st')
  qed
  show ?thesis
  proof (cases a)
    case (SubSent i s)
    then have "at_sub i (sub_send s) st = Some st'" using assms by simp
    then show ?thesis by (intro disjI1, elim at) (rule ss_out_steps)
  next
    case (SubDone i)
    then have "at_sub i sub_done st = Some st'" using assms by simp
    then show ?thesis by (intro disjI1, elim at) (simp add: ss_out_steps)
  next
    case (SubTake i)
    with assms show ?thesis
      by (auto simp: event_streams_def sub_take_def Let_def split: if_splits list.splits intro!: sends_one_update)
  next
    case (PubOffer j)
    have "map ss_out ((es_subs st)[k := note_lost ev s (es_subs st ! k)]) = map ss_out (es_subs st)" for k ev s
      by (rule nth_equalityI) (auto intro!: nth_update_field)
    with PubOffer assms show ?thesis
      by (auto simp: event_streams_def pub_offer_def sends_one_def split: if_splits prod.splits list.splits)
  qed (use assms in \<open>auto simp: event_streams_def sends_one_def pub_lock_def Let_def sub_call_def subscribe_def\<close>)
qed

lemma event_streams_good:
  "\<lbrakk>ev_good a; ev_step a st = Some st'\<rbrakk> \<Longrightarrow> sends_one (event_streams st) (event_streams st')"
  using ev_sends [of a st st'] by auto

abbreviation event_out :: "ev_state \<Rightarrow> nat \<Rightarrow> (string \<times> bytes \<times> int \<times> u64) list" where
  "event_out \<equiv> \<lambda>st. stream_of (event_streams st)"

abbreviation event_n :: "ev_state \<Rightarrow> nat" where
  "event_n \<equiv> \<lambda>st. length (event_streams st)"

interpretation evs: relayed ev_step ev_good "bus_settling L W" ev_rank event_n event_out for L W
proof unfold_locales
  show "prefix (event_out s i) (event_out s' i)" if "ev_step a s = Some s'" for a s s' i
    using ev_sends [OF that] by (intro sends_one_grows) auto
qed (auto simp: sends_one_length [OF event_streams_good] intro: sends_one_sum [OF event_streams_good])

abbreviation evs_run where "evs_run \<equiv> opt_run (relay_step ev_step event_n event_out)"

definition event_channel :: "('c, (ev_state, string \<times> bytes \<times> int \<times> u64) relay) hostClient \<Rightarrow> 'c \<Rightarrow>
    (ev_state, string \<times> bytes \<times> int \<times> u64) relay \<Rightarrow> nat \<Rightarrow> go_error + Event list \<times> bool" where
  "event_channel h ctx st i =
     fst (Subscribe (with_subscribe (\<lambda>_ _ st. (Inr (rl_ins st i), st)) h) ctx
       (sub_topics (hd_subscribers (es_data (rl_core st)) ! i)) st)"

lemma event_channel_map:
  "rl_ins st i = map RecvTaken ms \<Longrightarrow> event_channel h ctx st i = Inr (map recvEvent ms, False)"
  by (simp add: event_channel_def Subscribe_with pump_taken)

lemma pumps_init: "pumps (relay_init s) = UNIV"
  by (simp add: pumps_def relay_init_def)

lemma core_only: "opt_run step as s = Some s' \<Longrightarrow>
  opt_run (relay_step step n out) (map Core as) (relay_init s) = Some (relay_init s') \<and> core_acts (map Core as) = as"
proof (induction as arbitrary: s)
  case (Cons a as)
  then obtain s1 where "step a s = Some s1" "opt_run step as s1 = Some s'" by (auto split: option.splits)
  with Cons.IH show ?case by (simp add: relay_init_def)
qed simp

section \<open>The states at rest\<close>

abbreviation docs_rest where
  "docs_rest \<equiv> quiescent (relay_step pw_step policy_n policy_out) (relay_good pw_good)"

abbreviation evs_rest where
  "evs_rest \<equiv> quiescent (relay_step ev_step event_n event_out) (relay_good ev_good)"

lemma docs_settled:
  assumes ok: "relay_ok (settling P L) policy_out E st" and rest: "docs_rest st"
  shows "Policy (pw_data (rl_core st)) = P \<and> (\<forall>i \<in> L \<inter> E. \<exists>ds. watch_channel h ctx st i = Inr (ds, False) \<and>
    ds \<noteq> [] \<and> last ds = policyDoc (policy_msg P))"
proof (intro conjI ballI)
  from ok have inv: "relay_inv policy_out st" "settling P L (rl_core st)" "pumps st = E" by (simp_all add: relay_ok_def)
  then show pol: "Policy (pw_data (rl_core st)) = P" by (simp add: settling_def)
  note rest = docs.relay_at_rest [OF rest inv(1)]
  fix i assume i: "i \<in> L \<inter> E"
  let ?w = "pw_watchers (rl_core st) ! i"
  from i inv have l: "i \<in> live (rl_core st)" "i < policy_n (rl_core st)" "i \<in> pumps st"
    by (auto simp: settling_def live_def watch_streams_def)
  have "ws_out ?w \<noteq> [] \<and> last (ws_out ?w) = P"
    using at_rest [OF rest(1) l(1) settling_room [OF inv(2)]] l(1) pol
      at_select_current [OF room_ok [OF settling_room [OF inv(2)]]] by (auto simp: live_def)
  moreover have "rl_ins st i = map RecvTaken (map policy_msg (ws_out ?w))"
    using rest(2) [OF l(2,3)] l(2) by (simp add: stream_of_def watch_streams_def)
  from watch_channel_map [OF this, of h ctx]
  have "watch_channel h ctx st i = Inr (map policyDoc (map policy_msg (ws_out ?w)), False)" .
  ultimately show "\<exists>ds. watch_channel h ctx st i = Inr (ds, False) \<and> ds \<noteq> [] \<and> last ds = policyDoc (policy_msg P)"
    by (auto simp: last_map)
qed

lemma evs_settled:
  assumes ok: "relay_ok (bus_settling L W) event_out E st" and rest: "evs_rest st"
    and i: "i \<in> L \<inter> E" "length (W i) \<le> 64"
  shows "\<exists>es. event_channel h ctx st i = Inr (es, False) \<and> mset es = mset (map (recvEvent \<circ> stub_event) (W i))"
proof -
  from ok have inv: "relay_inv event_out st" "bus_settling L W (rl_core st)" "pumps st = E" by (simp_all add: relay_ok_def)
  note rest = evs.relay_at_rest [OF rest inv(1)]
  let ?s = "es_subs (rl_core st) ! i"
  from i inv have l: "i \<in> open_subs (rl_core st)" "i < event_n (rl_core st)" "i \<in> pumps st"
    by (auto simp: bus_settling_def open_subs_def event_streams_def)
  have "mset (ss_out ?s) = mset (map stub_event (W i))"
    using bus_rest_all [OF rest(1) _ l(1)] inv(2) i(2) by (simp add: bus_settling_def)
  moreover have "rl_ins st i = map RecvTaken (ss_out ?s)"
    using rest(2) [OF l(2,3)] l(2) by (simp add: stream_of_def event_streams_def)
  from event_channel_map [OF this, of h ctx]
  have "event_channel h ctx st i = Inr (map recvEvent (ss_out ?s), False)" .
  ultimately show ?thesis by (auto simp: multiset.map_comp)
qed

section \<open>Properties\<close>

text \<open>
  C4: The current policy reaches the module.  From any reachable state of setters, watchers and
  pumps, let only their own steps run: no new \<open>SetPolicy\<close> or \<open>Watch\<close> call, no hang-up, and
  stream sends that succeed.  Then some run of them comes to rest, every run of them is bounded by
  a number computed from the state, and wherever one rests, under any schedule, the policy is the
  one it started from and every \<open>PolicyReader.Watch\<close> channel whose handler was open and whose
  pump goes on has carried that document last, and is still open.
\<close>
theorem policy_reaches_module:
  assumes "docs_run as (relay_init pw_init) = Some st" and "Suc (updates (core_acts as)) < 2 ^ 64"
  shows "(\<exists>bs st'. (\<forall>b \<in> set bs. relay_good pw_good b) \<and> docs_run bs st = Some st' \<and> docs_rest st') \<and>
    (\<forall>bs st'. (\<forall>b \<in> set bs. relay_good pw_good b) \<and> docs_run bs st = Some st' \<longrightarrow>
      length bs \<le> relay_rank pw_rank policy_n policy_out st \<and>
      (docs_rest st' \<longrightarrow> Policy (pw_data (rl_core st')) = Policy (pw_data (rl_core st)) \<and>
        (\<forall>i \<in> live (rl_core st) \<inter> pumps st. \<exists>ds. watch_channel h ctx st' i = Inr (ds, False) \<and> ds \<noteq> [] \<and>
          last ds = \<lparr>pol_Revision = fst (Policy (pw_data (rl_core st))), pol_Data = snd (Policy (pw_data (rl_core st))),
            pol_SchemaVersion = 0, pol_ContentType = []\<rparr>)))"
proof -
  let ?P = "Policy (pw_data (rl_core st))" and ?L = "live (rl_core st)"
  have core: "pw_run (core_acts as) pw_init = Some (rl_core st)"
    using core_run [OF assms(1)] by (simp add: relay_init_def)
  have "settling ?P ?L (rl_core st)" using reached_room [OF core assms(2)] by (simp add: settling_def room_def)
  then have ok: "relay_ok (settling ?P ?L) policy_out (pumps st) st"
    using docs.relay_inv_run [OF relay_inv_init assms(1)] by (simp add: relay_ok_def)
  have doc: "policyDoc (policy_msg ?P) =
      \<lparr>pol_Revision = fst ?P, pol_Data = snd ?P, pol_SchemaVersion = 0, pol_ContentType = []\<rparr>"
    using policyDoc_msg [of "fst ?P" "snd ?P"] by simp
  show ?thesis
  proof (intro conjI allI impI)
    show "\<exists>bs st'. (\<forall>b \<in> set bs. relay_good pw_good b) \<and> docs_run bs st = Some st' \<and> docs_rest st'"
      by (rule docs.relay.settles [OF ok])
    fix bs st' assume run: "(\<forall>b \<in> set bs. relay_good pw_good b) \<and> docs_run bs st = Some st'"
    note bounded = docs.relay.run_bounded [OF ok conjunct1 [OF run] conjunct2 [OF run]]
    from bounded show "length bs \<le> relay_rank pw_rank policy_n policy_out st" by linarith
    assume "docs_rest st'"
    note settled = docs_settled [OF conjunct1 [OF bounded] this, of h ctx, unfolded doc]
    show "Policy (pw_data (rl_core st')) = ?P" by (rule conjunct1 [OF settled])
    show "\<forall>i \<in> ?L \<inter> pumps st. \<exists>ds. watch_channel h ctx st' i = Inr (ds, False) \<and> ds \<noteq> [] \<and>
        last ds = \<lparr>pol_Revision = fst ?P, pol_Data = snd ?P, pol_SchemaVersion = 0, pol_ContentType = []\<rparr>"
      by (rule conjunct2 [OF settled])
  qed
qed

theorem policy_reaches_module_witness:
  "\<exists>st bs st' ds. docs_run (map Core [WatchCall, SetLock ''a'', SetLock ''b'']) (relay_init pw_init) = Some st \<and>
     (\<forall>b \<in> set bs. relay_good pw_good b) \<and> docs_run bs st = Some st' \<and> docs_rest st' \<and>
     watch_channel stream_host () st' 0 = Inr (ds, False) \<and>
     last ds = \<lparr>pol_Revision = 2, pol_Data = ''b'', pol_SchemaVersion = 0, pol_ContentType = []\<rparr>"
proof -
  let ?as = "[WatchCall, SetLock ''a'', SetLock ''b'']"
  obtain s where s: "pw_run ?as pw_init = Some s" and pol: "Policy (pw_data s) = (2, ''b'')" and "0 \<in> live s"
    by (simp add: pw_init_def NewHostData_def set_lock_def watch_call_def addPolicyWatcher_def Policy_def live_def)
  from core_only [OF s] have run: "docs_run (map Core ?as) (relay_init pw_init) = Some (relay_init s)"
    "Suc (updates (core_acts (map Core ?as))) < 2 ^ 64" by simp_all
  have core: "rl_core (relay_init s) = s" for s :: pw_state by (simp add: relay_init_def)
  have "0 \<in> live s \<inter> pumps (relay_init s)" using \<open>0 \<in> live s\<close> by (simp add: pumps_init)
  note reach = policy_reaches_module [OF run, of stream_host "()", unfolded core pol fst_conv snd_conv]
  from conjunct1 [OF reach] obtain bs st' where bs: "(\<forall>b \<in> set bs. relay_good pw_good b) \<and>
    docs_run bs (relay_init s) = Some st'" "docs_rest st'" by blast
  from conjunct2 [OF reach, rule_format, OF bs(1)] bs(2) \<open>0 \<in> live s \<inter> pumps (relay_init s)\<close>
  obtain ds where "watch_channel stream_host () st' 0 = Inr (ds, False)"
    "last ds = \<lparr>pol_Revision = 2, pol_Data = ''b'', pol_SchemaVersion = 0, pol_ContentType = []\<rparr>" by blast
  with bs run(1) show ?thesis by blast
qed

text \<open>
  C14: A module never sees policy go back or a document nobody set: in every reachable state,
  whatever has failed or been cancelled on the way, a \<open>PolicyReader.Watch\<close> channel has carried
  documents of strictly increasing revisions; the one of revision n is what the n-th \<open>SetPolicy\<close>
  set, or the empty one of revision 0 that was there before; and the channel is closed exactly when
  its pump has ended.
\<close>
theorem policy_channel_increases:
  assumes "docs_run as (relay_init pw_init) = Some st" and "Suc (updates (core_acts as)) < 2 ^ 64"
    and "i < length (pw_watchers (rl_core st))"
  shows "\<exists>ds closed. watch_channel h ctx st i = Inr (ds, closed) \<and> (closed \<longleftrightarrow> i \<notin> pumps st) \<and>
    sorted_wrt (<) (map (unat \<circ> pol_Revision) ds) \<and>
    (\<forall>d \<in> set ds. unat (pol_Revision d) \<le> updates (core_acts as) \<and>
      d = \<lparr>pol_Revision = pol_Revision d, pol_Data = ([] # sets (core_acts as)) ! unat (pol_Revision d),
        pol_SchemaVersion = 0, pol_ContentType = []\<rparr>)"
proof -
  let ?out = "ws_out (pw_watchers (rl_core st) ! i)"
  have core: "pw_run (core_acts as) pw_init = Some (rl_core st)"
    using core_run [OF assms(1)] by (simp add: relay_init_def)
  have "revision pw_init = 0" by (simp add: revision_def pw_init_def NewHostData_def)
  with pw_run_ok [OF pw_ok_init _ core] assms(2) have ok: "pw_ok (rl_core st)" by simp
  from pw_okD(3) [OF ok assms(3)] have sent: "sorted_wrt (<) (map (unat \<circ> fst) ?out)" by (simp add: sent_ok_def)
  note docs = history_reached [OF core assms(2) nth_mem [OF assms(3)]]
  have "policy_out (rl_core st) i = map policy_msg ?out" using assms(3) by (simp add: stream_of_def watch_streams_def)
  with docs.relay_inv_run [OF relay_inv_init assms(1)] obtain ms where ms: "prefix ms (map policy_msg ?out)"
    "rl_ins st i = map RecvTaken ms \<or> rl_ins st i = map RecvTaken ms @ [RecvFailed]"
    unfolding relay_inv_def by metis
  from ms(1) obtain ps qs where ps: "?out = ps @ qs" "ms = map policy_msg ps"
    by (auto simp: prefix_def map_eq_append_conv)
  have carried: "map policyDoc ms = map (\<lambda>(r, x). \<lparr>pol_Revision = r, pol_Data = x, pol_SchemaVersion = 0,
      pol_ContentType = []\<rparr>) ps"
    by (auto simp: ps(2) policyDoc_msg)
  then have "map (unat \<circ> pol_Revision) (map policyDoc ms) = map (unat \<circ> fst) ps" by auto
  then have "sorted_wrt (<) (map (unat \<circ> pol_Revision) (map policyDoc ms))"
    using sent ps(1) by (simp add: sorted_wrt_append)
  moreover have "watch_channel h ctx st i = Inr (map policyDoc ms, i \<notin> pumps st)"
    using ms(2) by (auto simp: watch_channel_pump pump_taken pump_taken_end pumps_def pumping_map)
  moreover have "unat (pol_Revision d) \<le> updates (core_acts as) \<and>
      d = \<lparr>pol_Revision = pol_Revision d, pol_Data = ([] # sets (core_acts as)) ! unat (pol_Revision d),
        pol_SchemaVersion = 0, pol_ContentType = []\<rparr>" if "d \<in> set (map policyDoc ms)" for d
  proof -
    from that obtain r x where p: "(r, x) \<in> set ?out" and
      d: "d = \<lparr>pol_Revision = r, pol_Data = x, pol_SchemaVersion = 0, pol_ContentType = []\<rparr>"
      unfolding carried by (auto simp: ps(1))
    show ?thesis using docs [OF p] by (simp add: d)
  qed
  ultimately show ?thesis by blast
qed

theorem policy_channel_increases_witness:
  "\<exists>st ds. docs_run [Core WatchCall, Core (SetLock ''a''), Core (WatchRead 0), Core (WatchSend 0 True), RelayTake 0, RelayEnd 0]
      (relay_init pw_init) = Some st \<and> watch_channel stream_host () st 0 = Inr (ds, True) \<and>
     sorted_wrt (<) (map (unat \<circ> pol_Revision) ds) \<and>
     (\<forall>d \<in> set ds. d = \<lparr>pol_Revision = pol_Revision d, pol_Data = [[], ''a''] ! unat (pol_Revision d),
        pol_SchemaVersion = 0, pol_ContentType = []\<rparr>)"
proof -
  let ?as = "[Core WatchCall, Core (SetLock ''a''), Core (WatchRead 0), Core (WatchSend 0 True), RelayTake 0, RelayEnd 0]"
  have "\<exists>st. docs_run ?as (relay_init pw_init) = Some st \<and> 0 < length (pw_watchers (rl_core st)) \<and> 0 \<notin> pumps st"
    by (simp add: relay_init_def pw_init_def NewHostData_def set_lock_def watch_call_def addPolicyWatcher_def at_watcher_def
        watch_read_def Policy_def watch_send_def watch_streams_def stream_of_def pumps_def Let_def)
  then obtain st where st: "docs_run ?as (relay_init pw_init) = Some st" "0 < length (pw_watchers (rl_core st))" "0 \<notin> pumps st"
    by blast
  have "Suc (updates (core_acts ?as)) < 2 ^ 64" by simp
  from policy_channel_increases [OF st(1) this st(2), of stream_host "()"] obtain ds closed where
    "watch_channel stream_host () st 0 = Inr (ds, closed)" "closed \<longleftrightarrow> 0 \<notin> pumps st"
    "sorted_wrt (<) (map (unat \<circ> pol_Revision) ds)"
    "\<forall>d \<in> set ds. d = \<lparr>pol_Revision = pol_Revision d, pol_Data = ([] # sets (core_acts ?as)) ! unat (pol_Revision d),
        pol_SchemaVersion = 0, pol_ContentType = []\<rparr>" by blast
  with st(1,3) show ?thesis by (intro exI [of _ st] exI [of _ ds]) simp
qed

text \<open>
  C8: Every event reaches the module.  From any reachable state of publishers, subscribers and
  pumps, let only their own steps run: no new \<open>Publish\<close> or \<open>Subscribe\<close> call, no hang-up, and
  stream sends that succeed.  Then some run of them comes to rest, every run of them is bounded by
  a number computed from the state, and wherever one rests, under any schedule, each
  \<open>Events.Subscribe\<close> channel whose handler was open and whose pump goes on, and which at most 64
  events matched, has carried exactly those, each as often as it was published, and is still open.
\<close>
theorem events_reach_module:
  assumes "evs_run as (relay_init ev_init) = Some st"
  shows "(\<exists>bs st'. (\<forall>b \<in> set bs. relay_good ev_good b) \<and> evs_run bs st = Some st' \<and> evs_rest st') \<and>
    (\<forall>bs st'. (\<forall>b \<in> set bs. relay_good ev_good b) \<and> evs_run bs st = Some st' \<longrightarrow>
      length bs \<le> relay_rank ev_rank event_n event_out st \<and>
      (evs_rest st' \<longrightarrow> (\<forall>i \<in> open_subs (rl_core st) \<inter> pumps st. length (wanted (rl_core st) i) \<le> 64 \<longrightarrow>
        (\<exists>es. event_channel h ctx st' i = Inr (es, False) \<and>
          mset es = mset (map (\<lambda>ev. \<lparr>e_Topic = ev_Topic ev, e_Data = ev_Data ev, e_PublishedAt = ev_At ev div 1000000,
            e_Sequence = 0\<rparr>) (wanted (rl_core st) i))))))"
proof -
  let ?L = "open_subs (rl_core st)" and ?W = "wanted (rl_core st)"
  have core: "ev_run (core_acts as) ev_init = Some (rl_core st)"
    using core_run [OF assms] by (simp add: relay_init_def)
  have "bus_settling ?L ?W (rl_core st)" using reached_ev_ok [OF core] by (simp add: bus_settling_def)
  then have ok: "relay_ok (bus_settling ?L ?W) event_out (pumps st) st"
    using evs.relay_inv_run [OF relay_inv_init assms] by (simp add: relay_ok_def)
  have conv: "recvEvent \<circ> stub_event = (\<lambda>ev. \<lparr>e_Topic = ev_Topic ev, e_Data = ev_Data ev,
      e_PublishedAt = ev_At ev div 1000000, e_Sequence = 0\<rparr>)"
    by (simp add: fun_eq_iff recvEvent_def stub_event_def)
  show ?thesis
  proof (intro conjI allI impI ballI)
    show "\<exists>bs st'. (\<forall>b \<in> set bs. relay_good ev_good b) \<and> evs_run bs st = Some st' \<and> evs_rest st'"
      by (rule evs.relay.settles [OF ok])
    fix bs st' assume run: "(\<forall>b \<in> set bs. relay_good ev_good b) \<and> evs_run bs st = Some st'"
    note bounded = evs.relay.run_bounded [OF ok conjunct1 [OF run] conjunct2 [OF run]]
    from bounded show "length bs \<le> relay_rank ev_rank event_n event_out st" by linarith
    fix i assume "evs_rest st'" "i \<in> ?L \<inter> pumps st" "length (?W i) \<le> 64"
    from evs_settled [OF conjunct1 [OF bounded] this, of h ctx, unfolded conv]
    show "\<exists>es. event_channel h ctx st' i = Inr (es, False) \<and>
        mset es = mset (map (\<lambda>ev. \<lparr>e_Topic = ev_Topic ev, e_Data = ev_Data ev,
          e_PublishedAt = ev_At ev div 1000000, e_Sequence = 0\<rparr>) (?W i))" .
  qed
qed

theorem events_reach_module_witness:
  "\<exists>st bs st' es. evs_run (map Core [SubCall [''m.a''], PubLock 5000000 ''m.a'' ''x'', PubLock 0 ''m.b'' ''y'']) (relay_init ev_init) = Some st \<and>
     (\<forall>b \<in> set bs. relay_good ev_good b) \<and> evs_run bs st = Some st' \<and> evs_rest st' \<and>
     event_channel stream_host () st' 0 = Inr (es, False) \<and>
     mset es = {#\<lparr>e_Topic = ''m.a'', e_Data = ''x'', e_PublishedAt = 5, e_Sequence = 0\<rparr>#}"
proof -
  let ?as = "[SubCall [''m.a''], PubLock 5000000 ''m.a'' ''x'', PubLock 0 ''m.b'' ''y'']"
  obtain s where s: "ev_run ?as ev_init = Some s" and "0 \<in> open_subs s"
    and want: "wanted s 0 = [\<lparr>ev_Topic = ''m.a'', ev_Data = ''x'', ev_At = 5000000\<rparr>]"
    by (simp add: ev_init_def NewHostData_def sub_call_def subscribe_def pub_lock_def Let_def open_subs_def
        wanted_def matching_def)
  from core_only [OF s] have run: "evs_run (map Core ?as) (relay_init ev_init) = Some (relay_init s)" by simp
  have core: "rl_core (relay_init s) = s" for s :: ev_state by (simp add: relay_init_def)
  have i: "0 \<in> open_subs s \<inter> pumps (relay_init s)" using \<open>0 \<in> open_subs s\<close> by (simp add: pumps_init)
  note reach = events_reach_module [OF run, of stream_host "()", unfolded core]
  from conjunct1 [OF reach] obtain bs st' where bs: "(\<forall>b \<in> set bs. relay_good ev_good b) \<and>
    evs_run bs (relay_init s) = Some st'" "evs_rest st'" by blast
  from conjunct2 [OF reach, rule_format, OF bs(1)] bs(2) i have "length (wanted s 0) \<le> 64 \<longrightarrow>
    (\<exists>es. event_channel stream_host () st' 0 = Inr (es, False) \<and>
      mset es = mset (map (\<lambda>ev. \<lparr>e_Topic = ev_Topic ev, e_Data = ev_Data ev, e_PublishedAt = ev_At ev div 1000000,
        e_Sequence = 0\<rparr>) (wanted s 0)))" by blast
  then obtain es where "event_channel stream_host () st' 0 = Inr (es, False)"
    "mset es = {#\<lparr>e_Topic = ''m.a'', e_Data = ''x'', e_PublishedAt = 5, e_Sequence = 0\<rparr>#}" by (auto simp: want)
  with bs run show ?thesis by blast
qed

end
