(* ===== verification/Retry.thy ===== *)
theory Retry
  imports SdkTypes Complex_Main "HOL-Library.Log_Nat"
begin

text \<open>
  Exponential backoff with jitter (\<open>retry/retry.go\<close>), over \<open>float64\<close> arithmetic.

  A finite \<open>float64\<close> is a rational, and every operation rounds its exact result to 53
  significant bits, ties to even: that is \<open>fl\<close>.  The exponent is unbounded.  For the loop of
  \<open>Delay\<close> this changes nothing: a product too large for \<open>float64\<close> is \<open>+Inf\<close> there, and both
  are past the cap, and one too small yields a duration of zero either way.  The draw of
  \<open>rand.Float64\<close> is an argument, and a conversion outside the range of \<open>time.Duration\<close> is
  \<open>None\<close>: Go leaves its value to the implementation.
\<close>

section \<open>Rounding to 53 bits\<close>

definition log2_floor :: "rat \<Rightarrow> int" where
  "log2_floor x =
     (case quotient_of x of (n, d) \<Rightarrow>
        let e = bitlen n - bitlen d in if x < 2 powi e then e - 1 else e)"

definition round_even :: "rat \<Rightarrow> int" where
  "round_even x =
     (let f = \<lfloor>x\<rfloor>; r = x - of_int f in if r < 1 / 2 \<or> (r = 1 / 2 \<and> even f) then f else f + 1)"

definition fl_pos :: "rat \<Rightarrow> rat" where
  "fl_pos x = (let u = 2 powi (log2_floor x - 52) in of_int (round_even (x / u)) * u)"

definition fl :: "rat \<Rightarrow> rat" where
  "fl x = (if x = 0 then 0 else if x > 0 then fl_pos x else - fl_pos (- x))"

lemma log2_floor_bounds:
  assumes "0 < x"
  shows "2 powi (log2_floor x) \<le> x" and "x < 2 powi (log2_floor x + 1)"
proof -
  obtain n d where q: "quotient_of x = (n, d)" by (cases "quotient_of x")
  then have d: "0 < d" and x: "x = of_int n / of_int d"
    using quotient_of_denom_pos quotient_of_div by blast+
  with assms have n: "0 < n" by (simp add: zero_less_divide_iff)
  have pw: "(2::rat) powi (bitlen k - 1) \<le> of_int k \<and> of_int k < (2::rat) powi (bitlen k)" if "0 < k" for k
  proof -
    have bounds: "(2::int) ^ nat (bitlen k - 1) \<le> k" "k < 2 ^ nat (bitlen k)"
      using that bitlen_bounds [of k] by auto
    have pos: "0 < bitlen k"
    proof (rule ccontr)
      assume "\<not> 0 < bitlen k"
      with bounds(2) that show False by simp
    qed
    from bounds(1) have "(of_int (2 ^ nat (bitlen k - 1)) :: rat) \<le> of_int k"
      by (simp only: of_int_le_iff)
    moreover from bounds(2) have "(of_int k :: rat) < of_int (2 ^ nat (bitlen k))"
      by (simp only: of_int_less_iff)
    ultimately show ?thesis using pos by (simp add: power_int_def)
  qed
  let ?e = "bitlen n - bitlen d"
  have "x < 2 powi (?e + 1)"
  proof -
    have "x < 2 powi (bitlen n) / 2 powi (bitlen d - 1)"
      unfolding x using pw [OF n] pw [OF d] d n by (intro frac_less) auto
    then show ?thesis by (simp add: power_int_diff power_int_add)
  qed
  moreover have "2 powi (?e - 1) \<le> x"
  proof -
    have "2 powi (bitlen n - 1) / 2 powi (bitlen d) \<le> x"
      unfolding x using pw [OF n] pw [OF d] d n by (intro frac_le) auto
    then show ?thesis by (simp add: power_int_diff power_int_add)
  qed
  ultimately show "2 powi (log2_floor x) \<le> x" and "x < 2 powi (log2_floor x + 1)"
    by (auto simp: log2_floor_def q Let_def)
qed

lemma powi_mono: "i \<le> j \<Longrightarrow> (2::rat) powi i \<le> 2 powi j"
  by (rule power_int_increasing) simp_all

lemma powi_less_imp: "(2::rat) powi i < 2 powi j \<Longrightarrow> i < j"
  using powi_mono [of j i] by (meson leD not_le)

lemma log2_floor_unique: "\<lbrakk>2 powi e \<le> x; x < 2 powi (e + 1)\<rbrakk> \<Longrightarrow> log2_floor x = e"
proof -
  assume e: "2 powi e \<le> x" "x < 2 powi (e + 1)"
  then have "0 < x" by (meson less_le_trans zero_less_numeral zero_less_power_int)
  note b = log2_floor_bounds [OF this]
  have "log2_floor x < e + 1" by (rule powi_less_imp) (use e b in linarith)
  moreover have "e < log2_floor x + 1" by (rule powi_less_imp) (use e b in linarith)
  ultimately show ?thesis by simp
qed

lemma log2_floor_mono: "\<lbrakk>0 < x; x \<le> y\<rbrakk> \<Longrightarrow> log2_floor x \<le> log2_floor y"
proof -
  assume "0 < x" "x \<le> y"
  then have "(2::rat) powi (log2_floor x) < 2 powi (log2_floor y + 1)"
    using log2_floor_bounds(1) [of x] log2_floor_bounds(2) [of y] by linarith
  from powi_less_imp [OF this] show ?thesis by simp
qed

lemma round_even_int [simp]: "round_even (of_int k) = k"
  by (simp add: round_even_def)

lemma round_even_mono: "x \<le> y \<Longrightarrow> round_even x \<le> round_even y"
proof -
  assume le: "x \<le> y"
  then have "\<lfloor>x\<rfloor> \<le> \<lfloor>y\<rfloor>" by (rule floor_mono)
  then consider "\<lfloor>x\<rfloor> = \<lfloor>y\<rfloor>" | "\<lfloor>x\<rfloor> + 1 \<le> \<lfloor>y\<rfloor>" by linarith
  then show ?thesis
    using le by cases (auto simp: round_even_def Let_def)
qed

lemma fl_pos_scaled:
  assumes "0 < x"
  shows "2 ^ 52 \<le> x / 2 powi (log2_floor x - 52)" and "x / 2 powi (log2_floor x - 52) < 2 ^ 53"
proof -
  have "(2::rat) powi (log2_floor x) = 2 ^ 52 * 2 powi (log2_floor x - 52)"
    "(2::rat) powi (log2_floor x + 1) = 2 ^ 53 * 2 powi (log2_floor x - 52)"
    by (simp_all add: power_int_diff power_int_add)
  with log2_floor_bounds [OF assms]
  show "2 ^ 52 \<le> x / 2 powi (log2_floor x - 52)" and "x / 2 powi (log2_floor x - 52) < 2 ^ 53"
    by (simp_all add: pos_le_divide_eq pos_divide_less_eq)
qed

text \<open>A rounded value is an integer of at most 53 bits times a power of two, and keeps its binade.\<close>

lemma fl_pos_form:
  assumes "0 < x"
  obtains m where "fl_pos x = of_int m * 2 powi (log2_floor x - 52)" "2 ^ 52 \<le> m" "m \<le> 2 ^ 53"
proof
  let ?y = "x / 2 powi (log2_floor x - 52)"
  show "fl_pos x = of_int (round_even ?y) * 2 powi (log2_floor x - 52)"
    by (simp add: fl_pos_def Let_def)
  have "round_even (of_int (2 ^ 52)) \<le> round_even ?y" "round_even ?y \<le> round_even (of_int (2 ^ 53))"
    using fl_pos_scaled [OF assms] by (intro round_even_mono; simp)+
  then show "2 ^ 52 \<le> round_even ?y" "round_even ?y \<le> 2 ^ 53"
    by (simp_all only: round_even_int)
qed

lemma fl_pos_binade:
  assumes "0 < x"
  shows "2 powi (log2_floor x) \<le> fl_pos x" and "fl_pos x \<le> 2 powi (log2_floor x + 1)"
proof -
  obtain m where m: "fl_pos x = of_int m * 2 powi (log2_floor x - 52)" "2 ^ 52 \<le> m" "m \<le> 2 ^ 53"
    using fl_pos_form [OF assms] .
  have "(2::rat) ^ 52 \<le> of_int m" "of_int m \<le> (2::rat) ^ 53"
    using m(2,3) by (metis of_int_le_iff of_int_numeral of_int_power)+
  moreover have "(2::rat) powi (log2_floor x) = 2 ^ 52 * 2 powi (log2_floor x - 52)"
    "(2::rat) powi (log2_floor x + 1) = 2 ^ 53 * 2 powi (log2_floor x - 52)"
    by (simp_all add: power_int_diff power_int_add)
  ultimately show "2 powi (log2_floor x) \<le> fl_pos x" and "fl_pos x \<le> 2 powi (log2_floor x + 1)"
    unfolding m(1) by (simp_all only: mult_right_mono zero_le_power_int zero_le_numeral)
qed

lemma fl_pos_positive: "0 < x \<Longrightarrow> 0 < fl_pos x"
  using fl_pos_binade(1) [of x] by (meson less_le_trans zero_less_numeral zero_less_power_int)

lemma fl_pos_mono:
  assumes "0 < x" "x \<le> y"
  shows "fl_pos x \<le> fl_pos y"
proof (cases "log2_floor x = log2_floor y")
  case True
  have "x / 2 powi (log2_floor y - 52) \<le> y / 2 powi (log2_floor y - 52)"
    using assms(2) by (intro divide_right_mono) simp_all
  then have "round_even (x / 2 powi (log2_floor y - 52)) \<le> round_even (y / 2 powi (log2_floor y - 52))"
    by (rule round_even_mono)
  then show ?thesis unfolding fl_pos_def Let_def True by (intro mult_right_mono) simp_all
next
  case False
  with log2_floor_mono [OF assms] have "log2_floor x + 1 \<le> log2_floor y" by simp
  from powi_mono [OF this] fl_pos_binade(2) [OF assms(1)] fl_pos_binade(1) [of y] assms
  show ?thesis by linarith
qed

lemma fl_pos_representable:
  assumes "0 < m" "m \<le> 2 ^ 53"
  shows "fl_pos (of_int m * 2 powi e) = of_int m * 2 powi e"
proof -
  let ?x = "of_int m * 2 powi e :: rat"
  let ?k = "log2_floor ?x - 52"
  have x: "0 < ?x" using assms(1) by simp
  have "\<exists>i. ?x / 2 powi ?k = of_int i"
  proof (cases "?k \<le> e")
    case True
    have "?x / 2 powi ?k = of_int m * 2 powi (e - ?k)" by (simp add: power_int_diff)
    also have "\<dots> = of_int (m * 2 ^ nat (e - ?k))" using True by (simp add: power_int_def)
    finally show ?thesis ..
  next
    case False
    have m53: "(of_int m :: rat) \<le> 2 ^ 53" using assms(2) by (metis of_int_le_iff of_int_numeral of_int_power)
    have "2 powi (?k + 52) \<le> ?x" using log2_floor_bounds(1) [OF x] by simp
    also have "\<dots> \<le> 2 ^ 53 * 2 powi e" using m53 by (intro mult_right_mono) simp_all
    also have "\<dots> = 2 powi (e + 53)" by (simp add: power_int_add)
    also have "\<dots> < 2 powi (e + 54)" by (simp add: power_int_add)
    finally have "(2::rat) powi (?k + 52) < 2 powi (e + 54)" .
    then have "?k + 52 < e + 54" by (rule powi_less_imp)
    with False have k: "?k = e + 1" by simp
    have "2 powi (e + 53) \<le> ?x" using log2_floor_bounds(1) [OF x] k by (simp add: algebra_simps)
    then have "(2::rat) ^ 53 \<le> of_int m" by (simp add: power_int_add)
    with m53 have "of_int m = (2::rat) ^ 53" by simp
    then have "?x / 2 powi ?k = of_int (2 ^ 52)" unfolding k by (simp add: power_int_add)
    then show ?thesis ..
  qed
  then obtain i where i: "?x / 2 powi ?k = of_int i" ..
  then have "fl_pos ?x = of_int i * 2 powi ?k" by (simp only: fl_pos_def Let_def round_even_int)
  also have "\<dots> = ?x" unfolding i [symmetric] by simp
  finally show ?thesis .
qed

section \<open>What the backoff relies on\<close>

locale rounding =
  fixes rnd :: "rat \<Rightarrow> rat"
  assumes mono: "x \<le> y \<Longrightarrow> rnd x \<le> rnd y"
    and idem: "rnd (rnd x) = rnd x"
    and zero: "rnd 0 = 0"
begin

lemma nonneg: "0 \<le> x \<Longrightarrow> 0 \<le> rnd x"
  using mono [of 0 x] by (simp add: zero)

text \<open>Scaling a value of the format by a draw below one does not raise it, rounded or not.\<close>

lemma scaled_below:
  assumes "0 \<le> r" "r < 1" "0 \<le> d" "rnd d = d"
  shows "0 \<le> rnd (r * d)" and "rnd (r * d) \<le> d"
proof -
  show "0 \<le> rnd (r * d)" using assms(1,3) by (intro nonneg) simp
  have "r * d \<le> d" using assms(2,3) by (simp add: mult_left_le_one_le assms(1))
  then show "rnd (r * d) \<le> d" using mono assms(4) by metis
qed

end

lemma fl_int: "\<bar>k\<bar> \<le> 2 ^ 53 \<Longrightarrow> fl (of_int k) = of_int k"
  using fl_pos_representable [of k 0] fl_pos_representable [of "- k" 0]
  by (cases k "0::int" rule: linorder_cases) (simp_all add: fl_def)

lemma fl_pos_idem: "0 < x \<Longrightarrow> fl_pos (fl_pos x) = fl_pos x"
proof -
  assume "0 < x"
  then obtain m where m: "fl_pos x = of_int m * 2 powi (log2_floor x - 52)" "2 ^ 52 \<le> m" "m \<le> 2 ^ 53"
    by (rule fl_pos_form)
  have "0 < m" using m(2) by simp
  with m(3) show ?thesis unfolding m(1) by (intro fl_pos_representable)
qed

interpretation fl: rounding fl
proof
  fix x y :: rat
  assume "x \<le> y"
  then show "fl x \<le> fl y"
    using fl_pos_mono [of x y] fl_pos_mono [of "- y" "- x"] fl_pos_positive [of "- x"] fl_pos_positive [of y]
    by (auto simp: fl_def)
next
  fix x :: rat
  show "fl (fl x) = fl x"
    using fl_pos_positive [of x] fl_pos_positive [of "- x"] fl_pos_idem [of x] fl_pos_idem [of "- x"]
    by (auto simp: fl_def)
qed (simp add: fl_def)

section \<open>Backoff\<close>

record Backoff =
  b_Initial :: duration
  b_Max :: duration
  b_Factor :: rat

definition New :: Backoff where
  "New = \<lparr>b_Initial = 1000000000, b_Max = 120000000000, b_Factor = 2\<rparr>"

definition float64_of :: "duration \<Rightarrow> rat" where
  "float64_of d = fl (of_int (sint d))"

definition duration_of :: "rat \<Rightarrow> duration option" where
  "duration_of x =
     (let t = (if x < 0 then - \<lfloor>- x\<rfloor> else \<lfloor>x\<rfloor>) in
      if - (2 ^ 63) \<le> t \<and> t < 2 ^ 63 then Some (word_of_int t) else None)"

fun grow :: "rat \<Rightarrow> rat \<Rightarrow> nat \<Rightarrow> rat \<Rightarrow> rat" where
  "grow factor cap 0 d = d"
| "grow factor cap (Suc n) d =
     (let d' = fl (d * factor) in if d' \<ge> cap then cap else grow factor cap n d')"

definition computed :: "Backoff \<Rightarrow> go_int \<Rightarrow> rat" where
  "computed b attempt =
     grow (b_Factor b) (float64_of (b_Max b)) (nat (sint attempt)) (float64_of (b_Initial b))"

definition Delay :: "Backoff \<Rightarrow> go_int \<Rightarrow> rat \<Rightarrow> duration option" where
  "Delay b attempt draw = duration_of (fl (draw * computed b attempt))"

lemma grow_format: "\<lbrakk>fl d = d; fl cap = cap\<rbrakk> \<Longrightarrow> fl (grow factor cap n d) = grow factor cap n d"
  by (induction n arbitrary: d) (simp_all add: Let_def fl.idem)

lemma grow_nonneg: "\<lbrakk>0 \<le> d; 0 \<le> factor; 0 \<le> cap\<rbrakk> \<Longrightarrow> 0 \<le> grow factor cap n d"
  by (induction n arbitrary: d) (simp_all add: Let_def fl.nonneg)

lemma grow_capped: "d \<le> cap \<Longrightarrow> grow factor cap n d \<le> cap"
  by (induction n arbitrary: d) (simp_all add: Let_def)

lemma grow_capped_Suc: "grow factor cap (Suc n) d \<le> cap"
  by (simp add: Let_def grow_capped)

lemma float64_of_exact: "\<bar>sint d\<bar> \<le> 2 ^ 53 \<Longrightarrow> float64_of d = of_int (sint d)"
  by (simp only: float64_of_def fl_int)

lemma float64_of_format: "fl (float64_of d) = float64_of d"
  by (simp add: float64_of_def fl.idem)

lemma computed_format: "fl (computed b attempt) = computed b attempt"
  by (simp add: computed_def grow_format float64_of_format)

lemma duration_of_bounds:
  assumes "0 \<le> x" "x \<le> of_int k" "k < 2 ^ 63"
  shows "\<exists>d. duration_of x = Some d \<and> 0 \<le> sint d \<and> sint d \<le> k \<and> sint d = \<lfloor>x\<rfloor>"
proof -
  have fl: "0 \<le> \<lfloor>x\<rfloor>" "\<lfloor>x\<rfloor> \<le> k" using assms(1,2) by (simp_all add: floor_le_iff le_less_trans)
  then have range: "- (2 ^ 63) \<le> \<lfloor>x\<rfloor>" "\<lfloor>x\<rfloor> < 2 ^ 63" using assms(3) by linarith+
  then have "duration_of x = Some (word_of_int \<lfloor>x\<rfloor>)"
    using assms(1) by (simp add: duration_of_def Let_def)
  moreover have "sint (word_of_int \<lfloor>x\<rfloor> :: duration) = \<lfloor>x\<rfloor>"
    using range by (simp add: signed_of_int signed_take_bit_int_eq_self)
  ultimately show ?thesis using fl by simp
qed

lemma Delay_bound:
  assumes "0 \<le> b_Factor b" "0 \<le> draw" "draw < 1" "0 \<le> sint (b_Initial b)" "0 \<le> sint (b_Max b)"
    and "computed b attempt \<le> of_int k" "k < 2 ^ 63"
  shows "\<exists>d. Delay b attempt draw = Some d \<and> 0 \<le> sint d \<and> sint d \<le> k"
proof -
  have "0 \<le> computed b attempt"
    unfolding computed_def float64_of_def
    using assms(1,4,5) by (intro grow_nonneg fl.nonneg) (simp_all only: of_int_0_le_iff)
  note sb = fl.scaled_below [OF assms(2,3) this computed_format]
  from duration_of_bounds [OF sb(1) order_trans [OF sb(2) assms(6)] assms(7)]
  show ?thesis by (auto simp: Delay_def)
qed

lemma grow_New:
  "grow 2 120000000000 n (1000000000 * 2 ^ k) =
     (if n = 0 then 1000000000 * 2 ^ k else min (1000000000 * 2 ^ (k + n)) 120000000000)"
  if "k < 7"
  using that
proof (induction n arbitrary: k)
  case (Suc n)
  have f: "fl (1000000000 * 2 ^ k * 2) = 1000000000 * 2 ^ Suc k"
  proof -
    have "(2::int) ^ k \<le> 2 ^ 7" using Suc.prems by (intro power_increasing) simp_all
    then have "\<bar>1000000000 * 2 ^ Suc k :: int\<bar> \<le> 2 ^ 53" by simp
    from fl_int [OF this] show ?thesis by (simp add: mult.commute mult.left_commute)
  qed
  show ?case
  proof (cases "k = 6")
    case True
    have "(1::rat) \<le> 2 ^ n" by simp
    then have "\<not> 16 * 2 ^ n \<le> (15::rat)" by linarith
    then show ?thesis using f True by (simp add: power_add min_def)
  next
    case False
    with Suc.prems have k: "Suc k < 7" by simp
    then have "(2::rat) ^ Suc k \<le> 2 ^ 6" by (intro power_increasing) simp_all
    then have "1000000000 * 2 ^ Suc k < (120000000000 :: rat)" by simp
    with f Suc.IH [OF k] show ?thesis by (simp add: Let_def)
  qed
qed simp

section \<open>Properties\<close>

text \<open>
  C39: with a non-negative factor and durations a \<open>float64\<close> holds exactly, \<open>Delay\<close> is always
  defined, never negative and never above \<open>Max\<close>, provided \<open>Initial\<close> is not above \<open>Max\<close> or the
  attempt is not the first; so no wait overflows however many attempts there were.
\<close>
theorem Delay_within_cap:
  assumes "0 \<le> b_Factor b" "0 \<le> draw" "draw < 1"
    and "0 \<le> sint (b_Initial b)" "sint (b_Initial b) \<le> 2 ^ 53"
    and "0 \<le> sint (b_Max b)" "sint (b_Max b) \<le> 2 ^ 53"
    and "sint (b_Initial b) \<le> sint (b_Max b) \<or> 0 < sint attempt"
  shows "\<exists>d. Delay b attempt draw = Some d \<and> 0 \<le> sint d \<and> sint d \<le> sint (b_Max b)"
proof (rule Delay_bound [OF assms(1-4,6)])
  have exact: "float64_of (b_Initial b) = of_int (sint (b_Initial b))"
    "float64_of (b_Max b) = of_int (sint (b_Max b))"
    using assms(4-7) by (simp_all only: float64_of_exact abs_of_nonneg)
  show "computed b attempt \<le> of_int (sint (b_Max b))"
  proof (cases "0 < sint attempt")
    case True
    then obtain n where "nat (sint attempt) = Suc n" by (cases "nat (sint attempt)") auto
    then show ?thesis unfolding computed_def exact by (simp only: grow_capped_Suc)
  next
    case False
    with assms(8) have "(of_int (sint (b_Initial b)) :: rat) \<le> of_int (sint (b_Max b))"
      by (simp only: of_int_le_iff simp_thms)
    then show ?thesis unfolding computed_def exact by (rule grow_capped)
  qed
  show "sint (b_Max b) < 2 ^ 63" using assms(7) by simp
qed

theorem Delay_within_cap_witness:
  "\<exists>d. Delay New 40 (1 / 2) = Some d \<and> 0 \<le> sint d \<and> sint d \<le> sint (b_Max New)"
  by (rule Delay_within_cap) (simp_all add: New_def)

text \<open>
  The conventional curve of \<open>New\<close> is exact: before the draw, attempt \<open>n\<close> waits \<open>2^n\<close>
  seconds up to attempt 6, and two minutes from then on.
\<close>
lemma New_curve:
  assumes "0 \<le> sint attempt"
  shows "computed New attempt = min (1000000000 * 2 ^ nat (sint attempt)) 120000000000"
proof -
  have "float64_of 1000000000 = 1000000000" "float64_of 120000000000 = 120000000000"
    by (simp_all add: float64_of_exact)
  then show ?thesis
    using grow_New [of 0 "nat (sint attempt)"] by (simp add: computed_def New_def min_def)
qed

lemma New_curve_witness: "computed New 6 = 64000000000 \<and> computed New 7 = 120000000000"
  using New_curve [of 6] New_curve [of 7] by simp

text \<open>
  The first wait escapes the cap: \<open>Max\<close> is only applied after a multiplication, so for
  attempt 0 the computed delay is \<open>Initial\<close> even when that is above \<open>Max\<close>; and the draw of 0
  gives a wait of zero at any attempt.
\<close>
lemma first_delay_uncapped:
  assumes "sint attempt \<le> 0"
  shows "computed b attempt = float64_of (b_Initial b) \<and> Delay b attempt' 0 = Some 0"
proof -
  have "fl (0 * computed b attempt') = 0" by (simp add: fl.zero)
  then show ?thesis using assms by (simp add: computed_def Delay_def duration_of_def)
qed

lemma first_delay_uncapped_witness:
  "computed \<lparr>b_Initial = 10, b_Max = 5, b_Factor = 2\<rparr> 0 = 10"
  using first_delay_uncapped [of 0 "\<lparr>b_Initial = 10, b_Max = 5, b_Factor = 2\<rparr>"]
  by (simp add: float64_of_exact)

end
