(* ===== verification/LogHandler.thy ===== *)
theory LogHandler
  imports Weave_Prelude
begin

text \<open>
  The log handler behind \<open>Host.Log\<close> (\<open>modulesdk/loghandler.go\<close>): records go to core's
  LogService over a lazily opened stream, and to the local fallback handler when the stream is
  not there.

  Handlers live in a list, because \<open>WithAttrs\<close> and \<open>WithGroup\<close> make new ones that keep the
  parent's stream: a handler is its index.  A stream is a number; how opening it and sending on
  it go are the inputs of a \<open>Handle\<close> step.  The fallback is a \<open>slog.Handler\<close> of the standard
  library, known by the \<open>With\<close> calls that derived it.  A \<open>slog.Value\<close> is its \<open>String()\<close>.
\<close>

section \<open>State\<close>

type_synonym attr = "string \<times> string"

record slog_record =
  r_Level :: "64 word"
  r_Message :: string
  r_TimeMs :: int
  r_Attrs :: "attr list"

record LogRecord =
  lr_Level :: "32 word"
  lr_Message :: string
  lr_TimeMs :: int
  lr_Attrs :: "string \<rightharpoonup> string"

datatype fallback_op = FbAttrs "attr list" | FbGroup string

record streamHandler =
  sh_fallback :: "fallback_op list"
  sh_client :: bool
  sh_stream :: "nat option"
  sh_broken :: bool
  sh_attrs :: "attr list"
  sh_group :: string

definition newStreamHandler :: "fallback_op list \<Rightarrow> bool \<Rightarrow> streamHandler" where
  "newStreamHandler fallback client =
     \<lparr>sh_fallback = fallback, sh_client = client, sh_stream = None, sh_broken = False,
      sh_attrs = [], sh_group = []\<rparr>"

datatype delivery = ToStream nat LogRecord | ToFallback "fallback_op list" slog_record

record log_world =
  lw_handlers :: "streamHandler list"
  lw_nextStream :: nat
  lw_out :: "delivery list"

section \<open>Operations\<close>

definition qualify :: "string \<Rightarrow> string \<Rightarrow> string" where
  "qualify grp key = (if grp \<noteq> [] then grp @ ''.'' @ key else key)"

definition put_attrs :: "attr list \<Rightarrow> (string \<rightharpoonup> string) \<Rightarrow> string \<rightharpoonup> string" where
  "put_attrs as m = fold (\<lambda>(k, v) m. m(k \<mapsto> v)) as m"

definition log_record :: "streamHandler \<Rightarrow> slog_record \<Rightarrow> LogRecord" where
  "log_record h r =
     \<lparr>lr_Level = ucast (r_Level r), lr_Message = r_Message r, lr_TimeMs = r_TimeMs r,
      lr_Attrs = put_attrs (map (\<lambda>(k, v). (qualify (sh_group h) k, v)) (r_Attrs r))
                   (put_attrs (sh_attrs h) Map.empty)\<rparr>"

text \<open>The stream the record went out on, if it did, the handler after, and the next stream number.\<close>

definition send :: "bool \<Rightarrow> bool \<Rightarrow> nat \<Rightarrow> streamHandler \<Rightarrow> nat option \<times> streamHandler \<times> nat" where
  "send open_ok send_ok next_id h =
     (if sh_broken h \<or> \<not> sh_client h then (None, h, next_id)
      else
        let on_stream = (\<lambda>s h1 n1.
              if send_ok then (Some s, h1, n1)
              else (None, h1\<lparr>sh_broken := True, sh_stream := None\<rparr>, n1))
        in case sh_stream h of
          Some s \<Rightarrow> on_stream s h next_id
        | None \<Rightarrow>
            if open_ok then on_stream next_id (h\<lparr>sh_stream := Some next_id\<rparr>) (Suc next_id)
            else (None, h\<lparr>sh_broken := True\<rparr>, next_id))"

definition Handle :: "nat \<Rightarrow> slog_record \<Rightarrow> bool \<Rightarrow> bool \<Rightarrow> log_world \<Rightarrow> log_world" where
  "Handle i r open_ok send_ok w =
     (let h = lw_handlers w ! i in
      case send open_ok send_ok (lw_nextStream w) h of
        (sent, h', n) \<Rightarrow>
          w\<lparr>lw_handlers := (lw_handlers w)[i := h'], lw_nextStream := n,
            lw_out := lw_out w @ [case sent of Some s \<Rightarrow> ToStream s (log_record h r)
                                  | None \<Rightarrow> ToFallback (sh_fallback h) r]\<rparr>)"

definition WithAttrs :: "attr list \<Rightarrow> streamHandler \<Rightarrow> streamHandler" where
  "WithAttrs attrs h =
     \<lparr>sh_fallback = sh_fallback h @ [FbAttrs attrs], sh_client = sh_client h, sh_stream = sh_stream h,
      sh_broken = False, sh_attrs = sh_attrs h @ attrs, sh_group = sh_group h\<rparr>"

definition WithGroup :: "string \<Rightarrow> streamHandler \<Rightarrow> streamHandler" where
  "WithGroup name h =
     \<lparr>sh_fallback = sh_fallback h @ [FbGroup name], sh_client = sh_client h, sh_stream = sh_stream h,
      sh_broken = False, sh_attrs = sh_attrs h, sh_group = qualify (sh_group h) name\<rparr>"

datatype log_op =
    OpHandle nat slog_record bool bool
  | OpWithAttrs nat "attr list"
  | OpWithGroup nat string

text \<open>A call on a handler that does not exist has no counterpart in the code and does nothing.\<close>

fun log_step :: "log_op \<Rightarrow> log_world \<Rightarrow> log_world" where
  "log_step (OpHandle i r open_ok send_ok) w =
     (if i < length (lw_handlers w) then Handle i r open_ok send_ok w else w)"
| "log_step (OpWithAttrs i attrs) w =
     (if i < length (lw_handlers w)
      then w\<lparr>lw_handlers := lw_handlers w @ [WithAttrs attrs (lw_handlers w ! i)]\<rparr> else w)"
| "log_step (OpWithGroup i name) w =
     (if i < length (lw_handlers w)
      then w\<lparr>lw_handlers := lw_handlers w @ [WithGroup name (lw_handlers w ! i)]\<rparr> else w)"

definition log_init :: "fallback_op list \<Rightarrow> bool \<Rightarrow> log_world" where
  "log_init fallback client =
     \<lparr>lw_handlers = [newStreamHandler fallback client], lw_nextStream = 0, lw_out = []\<rparr>"

definition log_run :: "log_op list \<Rightarrow> log_world \<Rightarrow> log_world" where
  "log_run ops w = fold log_step ops w"

section \<open>Lemmas\<close>

lemma put_attrs_map: "put_attrs as m = m ++ map_of (rev as)"
  unfolding put_attrs_def by (induction as arbitrary: m) (auto simp: map_add_def fun_eq_iff split: option.splits)

text \<open>What a delivery says of the record it came from.\<close>

fun delivered :: "delivery \<Rightarrow> string \<times> int" where
  "delivered (ToStream s r) = (lr_Message r, lr_TimeMs r)"
| "delivered (ToFallback f r) = (r_Message r, r_TimeMs r)"

text \<open>The records handled by a run: an operation names a handler that exists by then.\<close>

fun handled :: "log_op list \<Rightarrow> nat \<Rightarrow> (string \<times> int) list" where
  "handled [] n = []"
| "handled (OpHandle i r open_ok send_ok # ops) n =
     (if i < n then [(r_Message r, r_TimeMs r)] else []) @ handled ops n"
| "handled (OpWithAttrs i attrs # ops) n = handled ops (if i < n then Suc n else n)"
| "handled (OpWithGroup i name # ops) n = handled ops (if i < n then Suc n else n)"

lemma Handle_out:
  "map delivered (lw_out (Handle i r open_ok send_ok w)) = map delivered (lw_out w) @ [(r_Message r, r_TimeMs r)]"
  "length (lw_handlers (Handle i r open_ok send_ok w)) = length (lw_handlers w)"
  by (simp_all add: Handle_def Let_def log_record_def case_prod_beta split: option.split)

lemma log_run_out:
  "map delivered (lw_out (log_run ops w)) = map delivered (lw_out w) @ handled ops (length (lw_handlers w))"
  unfolding log_run_def
proof (induction ops arbitrary: w)
  case (Cons op ops)
  show ?case by (cases op) (simp_all add: Cons.IH Handle_out)
qed simp

text \<open>Streams are numbered afresh, and no handler is both broken and on a stream.\<close>

definition handler_ok :: "nat \<Rightarrow> streamHandler \<Rightarrow> bool" where
  "handler_ok n h \<longleftrightarrow> (case sh_stream h of None \<Rightarrow> True | Some s \<Rightarrow> s < n \<and> \<not> sh_broken h \<and> sh_client h)"

definition handlers_ok :: "log_world \<Rightarrow> bool" where
  "handlers_ok w = (\<forall>h \<in> set (lw_handlers w). handler_ok (lw_nextStream w) h)"

lemma send_handler_ok:
  "\<lbrakk>send open_ok send_ok n h = (sent, h', n'); handler_ok n h\<rbrakk> \<Longrightarrow> handler_ok n' h' \<and> n \<le> n'"
  by (auto simp: send_def handler_ok_def Let_def split: if_splits option.splits)

lemma handler_ok_mono: "\<lbrakk>handler_ok n h; n \<le> n'\<rbrakk> \<Longrightarrow> handler_ok n' h"
  by (auto simp: handler_ok_def split: option.splits)

lemma handler_ok_With: "handler_ok n h \<Longrightarrow> handler_ok n (WithAttrs as h) \<and> handler_ok n (WithGroup g h)"
  by (auto simp: handler_ok_def WithAttrs_def WithGroup_def split: option.splits)

lemma handlers_ok_Handle:
  assumes "handlers_ok w" "i < length (lw_handlers w)"
  shows "handlers_ok (Handle i r open_ok send_ok w)"
proof -
  obtain sent h' n where snd: "send open_ok send_ok (lw_nextStream w) (lw_handlers w ! i) = (sent, h', n)"
    by (cases "send open_ok send_ok (lw_nextStream w) (lw_handlers w ! i)") auto
  have "handler_ok n h' \<and> lw_nextStream w \<le> n"
    using send_handler_ok [OF snd] assms by (simp add: handlers_ok_def)
  moreover have "set ((lw_handlers w)[i := h']) \<subseteq> insert h' (set (lw_handlers w))"
    by (rule set_update_subset_insert)
  ultimately have "\<forall>h \<in> set ((lw_handlers w)[i := h']). handler_ok n h"
    using assms(1) handler_ok_mono unfolding handlers_ok_def by blast
  then show ?thesis by (simp add: handlers_ok_def Handle_def Let_def snd)
qed

lemma handlers_ok_step: "handlers_ok w \<Longrightarrow> handlers_ok (log_step op w)"
proof (cases op)
  case (OpHandle i r open_ok send_ok)
  assume "handlers_ok w"
  then show ?thesis using handlers_ok_Handle OpHandle by simp
qed (auto simp: handlers_ok_def handler_ok_With)

lemma handlers_ok_run: "handlers_ok w \<Longrightarrow> handlers_ok (log_run ops w)"
  unfolding log_run_def by (induction ops arbitrary: w) (simp_all add: handlers_ok_step)

lemma handlers_ok_init: "handlers_ok (log_init fallback client)"
  by (simp add: handlers_ok_def log_init_def newStreamHandler_def handler_ok_def)

lemma send_broken: "sh_broken h \<Longrightarrow> send open_ok send_ok n h = (None, h, n)"
  by (simp add: send_def)

lemma log_step_broken:
  "\<lbrakk>i < length (lw_handlers w); sh_broken (lw_handlers w ! i)\<rbrakk> \<Longrightarrow>
   i < length (lw_handlers (log_step op w)) \<and> sh_broken (lw_handlers (log_step op w) ! i)"
  by (cases op)
    (auto simp: Handle_def Let_def nth_append nth_list_update send_broken case_prod_beta)

lemma log_run_broken:
  "\<lbrakk>i < length (lw_handlers w); sh_broken (lw_handlers w ! i)\<rbrakk> \<Longrightarrow>
   i < length (lw_handlers (log_run ops w)) \<and> sh_broken (lw_handlers (log_run ops w) ! i)"
  unfolding log_run_def
proof (induction ops arbitrary: w)
  case (Cons op ops)
  from Cons.IH [of "log_step op w"] log_step_broken [OF Cons.prems, of op] show ?case by simp
qed simp

text \<open>
  A key of a record reads the last record attribute with that qualified name, and failing that
  the last handler attribute with that name: handler attributes are never qualified.
\<close>

lemma log_record_lookup:
  "lr_Attrs (log_record h r) key =
     (case map_of (rev (map (\<lambda>(k, v). (qualify (sh_group h) k, v)) (r_Attrs r))) key of
        Some v \<Rightarrow> Some v
      | None \<Rightarrow> map_of (rev (sh_attrs h)) key)"
  by (simp add: log_record_def put_attrs_map map_add_def split: option.split)

section \<open>Properties\<close>

text \<open>
  No log record is lost or doubled: over any sequence of logging calls and derivations,
  with any failures of the wire, the records handled come out once each and in order, on a
  stream or on the fallback.
\<close>
lemma log_exactly_once:
  "map delivered (lw_out (log_run ops (log_init fallback client))) = handled ops 1"
  by (simp add: log_run_out) (simp add: log_init_def)

text \<open>
  Once a handler's stream has failed, to open or to send, that handler stays with the
  fallback for good: whatever runs in between, its next record goes there, as it is.
\<close>
lemma broken_handler_falls_back:
  assumes "i < length (lw_handlers w)"
    and "fst (send o1 s1 (lw_nextStream w) (lw_handlers w ! i)) = None"
    and "sh_client (lw_handlers w ! i)"
    and "w' = log_run ops (log_step (OpHandle i r o1 s1) w)"
  shows "last (lw_out (log_step (OpHandle i r' o2 s2) w')) = ToFallback (sh_fallback (lw_handlers w' ! i)) r'"
proof -
  let ?w1 = "log_step (OpHandle i r o1 s1) w"
  have "i < length (lw_handlers ?w1) \<and> sh_broken (lw_handlers ?w1 ! i)"
    using assms(1-3) by (auto simp: Handle_def send_def Let_def split: if_splits option.splits)
  then have "i < length (lw_handlers w') \<and> sh_broken (lw_handlers w' ! i)"
    unfolding assms(4) by (intro log_run_broken) simp_all
  then show ?thesis by (simp add: Handle_def Let_def send_broken)
qed

lemma broken_handler_falls_back_witness:
  "last (lw_out (log_step (OpHandle 0 \<lparr>r_Level = 0, r_Message = ''b'', r_TimeMs = 2, r_Attrs = []\<rparr> True True)
     (log_run [OpWithGroup 0 ''g'']
       (log_step (OpHandle 0 \<lparr>r_Level = 0, r_Message = ''a'', r_TimeMs = 1, r_Attrs = []\<rparr> True False)
         (log_init [] True))))) =
   ToFallback [] \<lparr>r_Level = 0, r_Message = ''b'', r_TimeMs = 2, r_Attrs = []\<rparr>"
  by (subst broken_handler_falls_back [OF _ _ _ refl])
    (simp_all add: log_init_def newStreamHandler_def send_def Let_def log_run_def Handle_def WithGroup_def)

text \<open>
  Handler attributes lose their group: of an attribute added after \<open>WithGroup g\<close>, the
  record shipped to core has the bare key and no \<open>g.k\<close>, though the same key on the record
  itself is shipped as \<open>g.k\<close>.
\<close>
lemma attrs_after_group_unqualified:
  assumes "g \<noteq> []" and "sh_attrs h = []" and "sh_group h = []"
  shows "lr_Attrs (log_record (WithAttrs [(k, v)] (WithGroup g h)) (r\<lparr>r_Attrs := []\<rparr>)) = [k \<mapsto> v] \<and>
    lr_Attrs (log_record (WithGroup g h) (r\<lparr>r_Attrs := [(k, v)]\<rparr>)) = [g @ ''.'' @ k \<mapsto> v]"
  using assms
  by (simp add: log_record_def put_attrs_map WithAttrs_def WithGroup_def qualify_def)

lemma attrs_after_group_unqualified_witness:
  "lr_Attrs (log_record (WithAttrs [(''k'', ''v'')] (WithGroup ''g'' (newStreamHandler [] True)))
     \<lparr>r_Level = 0, r_Message = [], r_TimeMs = 0, r_Attrs = []\<rparr>) = [''k'' \<mapsto> ''v'']"
  using attrs_after_group_unqualified [of "''g''" "newStreamHandler [] True" "''k''" "''v''"
      "\<lparr>r_Level = 0, r_Message = [], r_TimeMs = 0, r_Attrs = []\<rparr>"]
  by (simp add: newStreamHandler_def)

text \<open>
  A derived handler shares its parent's open stream: in every reachable state where a
  handler is on a stream, the next record of it and the next of a handler derived from it go
  out on that same stream, though each of the two serialises its sends with its own mutex.
\<close>
lemma derived_handler_shares_stream:
  assumes "w = log_run ops (log_init fallback client)" and "i < length (lw_handlers w)"
    and "sh_stream (lw_handlers w ! i) = Some s"
  shows "\<exists>lr1 lr2. lw_out (log_run [OpWithAttrs i attrs, OpHandle i r1 o1 True,
      OpHandle (length (lw_handlers w)) r2 o2 True] w) = lw_out w @ [ToStream s lr1, ToStream s lr2]"
proof -
  have "handlers_ok w" unfolding assms(1) by (rule handlers_ok_run [OF handlers_ok_init])
  then have "handler_ok (lw_nextStream w) (lw_handlers w ! i)"
    using assms(2) by (simp add: handlers_ok_def)
  with assms(2,3) show ?thesis
    by (simp add: handler_ok_def log_run_def Handle_def Let_def send_def nth_append WithAttrs_def)
qed

lemma derived_handler_shares_stream_witness:
  "let r = \<lparr>r_Level = 0, r_Message = ''a'', r_TimeMs = 1, r_Attrs = []\<rparr>;
       w = log_run [OpHandle 0 r True True] (log_init [] True)
   in \<exists>lr1 lr2. lw_out (log_run [OpWithAttrs 0 [], OpHandle 0 r True True, OpHandle 1 r True True] w) =
        lw_out w @ [ToStream 0 lr1, ToStream 0 lr2]"
  using derived_handler_shares_stream [OF refl, of 0
      "[OpHandle 0 \<lparr>r_Level = 0, r_Message = ''a'', r_TimeMs = 1, r_Attrs = []\<rparr> True True]" "[]" True 0]
  by (simp add: Let_def log_run_def log_init_def newStreamHandler_def Handle_def send_def)

end
