(* ===== verification/GoPath.thy ===== *)
theory GoPath
  imports GoStrings
begin

text \<open>
  Three more pieces of Go's standard library the SDK's code calls: \<open>filepath.Clean\<close> and
  \<open>filepath.Join\<close> with the Unix separator, the lines a default \<open>bufio.Scanner\<close> yields, and the
  process environment.
\<close>

section \<open>filepath\<close>

fun clean_parts :: "bool \<Rightarrow> string list \<Rightarrow> string list \<Rightarrow> string list" where
  "clean_parts rooted acc [] = rev acc"
| "clean_parts rooted acc (p # ps) =
     (if p = [] \<or> p = ''.'' then clean_parts rooted acc ps
      else if p = ''..'' then
        (case acc of
           [] \<Rightarrow> clean_parts rooted (if rooted then [] else [''..'']) ps
         | q # qs \<Rightarrow> if q = ''..'' then clean_parts rooted (p # acc) ps else clean_parts rooted qs ps)
      else clean_parts rooted (p # acc) ps)"

definition clean_path :: "string \<Rightarrow> string" where
  "clean_path path =
     (if path = [] then ''.''
      else
        let rooted = (hd path = CHR ''/'');
            body = join_on (CHR ''/'') (clean_parts rooted [] (split_on (CHR ''/'') path))
        in if rooted then CHR ''/'' # body else if body = [] then ''.'' else body)"

definition join_path :: "string list \<Rightarrow> string" where
  "join_path elems =
     (let es = dropWhile (\<lambda>e. e = []) elems in
      if es = [] then [] else clean_path (join_on (CHR ''/'') es))"

definition plain_name :: "string \<Rightarrow> bool" where
  "plain_name p = (p \<noteq> [] \<and> p \<noteq> ''.'' \<and> p \<noteq> ''..'' \<and> CHR ''/'' \<notin> set p)"

lemma clean_parts_snoc:
  "plain_name p \<Longrightarrow> clean_parts rooted acc (ps @ [p]) = clean_parts rooted acc ps @ [p]"
  by (induction rooted acc ps rule: clean_parts.induct) (auto simp: plain_name_def split: list.splits)

lemma split_on_snoc:
  "c \<notin> set p \<Longrightarrow> split_on c (s @ c # p) = split_on c s @ [p]"
  by (induction s) (auto simp: split_on_no_occ split: list.splits)

lemma join_on_snoc:
  "join_on c (ps @ [p]) = (if ps = [] then p else join_on c ps @ c # p)"
  by (induction c ps rule: join_on.induct) auto

lemma join_on_Nil_iff: "[] \<notin> set ps \<Longrightarrow> join_on c ps = [] \<longleftrightarrow> ps = []"
  by (induction c ps rule: join_on.induct) auto

lemma join_on_dot: "join_on (CHR ''/'') ps = ''.'' \<Longrightarrow> ''.'' \<in> set ps"
  by (cases "(CHR ''/'', ps)" rule: join_on.cases) (auto simp: append_eq_Cons_conv)

lemma join_on_slash: "\<lbrakk>join_on (CHR ''/'') ps = ''/''; [] \<notin> set ps\<rbrakk> \<Longrightarrow> ''/'' \<in> set ps"
  by (cases "(CHR ''/'', ps)" rule: join_on.cases) (auto simp: append_eq_Cons_conv)

lemma clean_parts_elems:
  "\<lbrakk>\<forall>p \<in> set acc. P p; \<forall>p \<in> set ps. p \<noteq> [] \<longrightarrow> p \<noteq> ''.'' \<longrightarrow> P p; P ''..''\<rbrakk> \<Longrightarrow>
   \<forall>p \<in> set (clean_parts rooted acc ps). P p"
  by (induction rooted acc ps rule: clean_parts.induct) (auto split: list.splits if_splits)

text \<open>A plain name joined to a directory names an entry of the cleaned directory.\<close>

lemma join_path_name:
  assumes "dir \<noteq> []" "plain_name p"
  shows "join_path [dir, p] =
    (if clean_path dir = ''/'' then CHR ''/'' # p
     else if clean_path dir = ''.'' then p
     else clean_path dir @ CHR ''/'' # p)"
proof -
  let ?r = "hd dir = CHR ''/''"
  let ?cs = "clean_parts ?r [] (split_on (CHR ''/'') dir)"
  have "CHR ''/'' \<notin> set p" "p \<noteq> []" using assms(2) by (simp_all add: plain_name_def)
  then have j: "join_path [dir, p] =
      (let body = join_on (CHR ''/'') (?cs @ [p]) in if ?r then CHR ''/'' # body else body)"
    using assms by (simp add: join_path_def clean_path_def split_on_snoc clean_parts_snoc join_on_snoc Let_def)
  have "\<forall>p \<in> set ?cs. p \<noteq> [] \<and> p \<noteq> ''.'' \<and> p \<noteq> ''/''"
    by (rule clean_parts_elems) (fastforce dest: split_on_no_sep)+
  then have elems: "[] \<notin> set ?cs" "''.'' \<notin> set ?cs" "''/'' \<notin> set ?cs" by auto
  have body: "join_on (CHR ''/'') ?cs = [] \<longleftrightarrow> ?cs = []" "join_on (CHR ''/'') ?cs \<noteq> ''.''"
    "join_on (CHR ''/'') ?cs \<noteq> ''/''"
    using elems(1) by (rule join_on_Nil_iff)
      (use elems(2) join_on_dot in metis, use elems(1,3) join_on_slash in metis)
  have "clean_path dir = (let body = join_on (CHR ''/'') ?cs in
      if ?r then CHR ''/'' # body else if body = [] then ''.'' else body)"
    using assms(1) by (simp add: clean_path_def Let_def)
  then have clean: "clean_path dir = (if ?r then CHR ''/'' # join_on (CHR ''/'') ?cs
      else if ?cs = [] then ''.'' else join_on (CHR ''/'') ?cs)"
    by (simp only: Let_def body(1))
  have j': "join_path [dir, p] = (if ?r then CHR ''/'' # (if ?cs = [] then p else join_on (CHR ''/'') ?cs @ CHR ''/'' # p)
      else if ?cs = [] then p else join_on (CHR ''/'') ?cs @ CHR ''/'' # p)"
    unfolding j by (simp only: Let_def join_on_snoc)
  have generic: "(if r then CHR ''/'' # (if e then p else B @ CHR ''/'' # p) else if e then p else B @ CHR ''/'' # p) =
      (if C = ''/'' then CHR ''/'' # p else if C = ''.'' then p else C @ CHR ''/'' # p)"
    if "C = (if r then CHR ''/'' # B else if e then ''.'' else B)" "B = [] \<longleftrightarrow> e" "B \<noteq> ''.''" "B \<noteq> ''/''"
    for r e B C
    using that by (cases r; cases e) simp_all
  show ?thesis
    unfolding j' by (rule generic [OF clean body])
qed

section \<open>bufio.Scanner\<close>

definition max_token :: nat where "max_token = 64 * 1024"

definition drop_cr :: "string \<Rightarrow> string" where
  "drop_cr l = (if l \<noteq> [] \<and> last l = CHR 0x0D then butlast l else l)"

text \<open>A line that does not fit the scanner's buffer ends the scan.\<close>

definition scan_lines :: "string \<Rightarrow> string list" where
  "scan_lines s =
     (let ls = split_on (CHR 0x0A) s;
          ls' = (if last ls = [] then butlast ls else ls)
      in map drop_cr (takeWhile (\<lambda>l. length l < max_token) ls'))"

lemma scan_lines_single:
  assumes "CHR 0x0A \<notin> set l" "length l < max_token" "l = [] \<or> last l \<noteq> CHR 0x0D"
  shows "scan_lines (l @ CHR 0x0A # s) = l # scan_lines s"
  using assms by (auto simp: scan_lines_def split_on_append_sep Let_def drop_cr_def)

section \<open>The environment\<close>

type_synonym environ = "string \<rightharpoonup> string"

definition os_Getenv :: "environ \<Rightarrow> string \<Rightarrow> string" where
  "os_Getenv env key = (case env key of None \<Rightarrow> [] | Some v \<Rightarrow> v)"

end
