(* ===== verification/Platform.thy ===== *)
theory Platform
  imports GoPath
begin

text \<open>
  The host seam and the small packages around it: \<open>platform/\<close> (host description and paths),
  \<open>config/config.go\<close> and the level choice of \<open>wlog/wlog.go\<close>.

  \<open>os.Hostname\<close> and the contents of \<open>/etc/os-release\<close> are inputs (\<open>None\<close> when reading fails).
  The Windows registry package is outside the repository: the three values \<open>fill\<close> asks for
  are inputs, \<open>None\<close> when asking fails.  \<open>unmarshal\<close> is \<open>json.Unmarshal\<close> into the caller's type.
\<close>

section \<open>Host description\<close>

record Info =
  info_OS :: string
  info_Arch :: string
  info_Version :: string
  info_Build :: string
  info_Hostname :: string

definition Host :: "(Info \<Rightarrow> Info) \<Rightarrow> string \<Rightarrow> string \<Rightarrow> Info" where
  "Host fill goos goarch =
     fill \<lparr>info_OS = goos, info_Arch = goarch, info_Version = [], info_Build = [], info_Hostname = []\<rparr>"

definition set_hostname :: "string option \<Rightarrow> Info \<Rightarrow> Info" where
  "set_hostname hn info = (case hn of None \<Rightarrow> info | Some h \<Rightarrow> info\<lparr>info_Hostname := h\<rparr>)"

text \<open>\<open>strings.Trim(v, "\"")\<close> takes every quote off both ends.\<close>

definition trim_quotes :: "string \<Rightarrow> string" where
  "trim_quotes v = rev (dropWhile (\<lambda>c. c = CHR 0x22) (rev (dropWhile (\<lambda>c. c = CHR 0x22) v)))"

definition release_line :: "string \<Rightarrow> Info \<Rightarrow> Info" where
  "release_line line info =
     (let i1 = (case cut_prefix ''VERSION_ID='' line of
                  Some v \<Rightarrow> info\<lparr>info_Version := trim_quotes v\<rparr> | None \<Rightarrow> info)
      in case cut_prefix ''BUILD_ID='' line of
           Some v \<Rightarrow> i1\<lparr>info_Build := trim_quotes v\<rparr> | None \<Rightarrow> i1)"

definition fill_linux :: "string option \<Rightarrow> string option \<Rightarrow> Info \<Rightarrow> Info" where
  "fill_linux hn os_release info =
     (case os_release of
        None \<Rightarrow> set_hostname hn info
      | Some content \<Rightarrow> fold release_line (scan_lines content) (set_hostname hn info))"

definition fill_darwin :: "string option \<Rightarrow> string option \<Rightarrow> string option \<Rightarrow> Info \<Rightarrow> Info" where
  "fill_darwin hn productversion osversion info =
     (let i1 = set_hostname hn info;
          i2 = (case productversion of Some v \<Rightarrow> i1\<lparr>info_Version := v\<rparr> | None \<Rightarrow> i1)
      in case osversion of Some v \<Rightarrow> i2\<lparr>info_Build := v\<rparr> | None \<Rightarrow> i2)"

section \<open>The decimal rendering on Windows\<close>

text \<open>
  \<open>itoa\<close> fills a 20-byte buffer from its end; \<open>None\<close> is the panic of an index below zero.
\<close>

function itoa_loop :: "u64 \<Rightarrow> nat \<Rightarrow> string \<Rightarrow> string option" where
  "itoa_loop v i buf =
     (if v = 0 then Some (drop i buf)
      else if i = 0 then None
      else itoa_loop (v div 10) (i - 1) (buf[i - 1 := char_of (unat (48 + v mod 10))]))"
  by pat_completeness auto
termination
  by (relation "measure (\<lambda>(v, i, buf). i)") auto

declare itoa_loop.simps [simp del]

definition itoa :: "u64 \<Rightarrow> string option" where
  "itoa v = (if v = 0 then Some ''0'' else itoa_loop v 20 (replicate 20 (CHR 0x00)))"

definition fill_windows ::
  "string option \<Rightarrow> (u64 option \<times> u64 option \<times> string option) option \<Rightarrow> Info \<Rightarrow> Info option" where
  "fill_windows hn reg info =
     (case reg of
        Some (Some major, Some minor, Some build) \<Rightarrow>
          (case (itoa major, itoa minor) of
             (Some a, Some b) \<Rightarrow>
               Some ((set_hostname hn info)\<lparr>info_Version := a @ ''.'' @ b @ ''.'' @ build, info_Build := build\<rparr>)
           | _ \<Rightarrow> None)
      | _ \<Rightarrow> Some (set_hostname hn info))"

lemma unat_mod_10: "unat (v mod 10 :: u64) = unat v mod 10"
  by (simp add: unat_mod_distrib)

lemma itoa_digit: "char_of (unat (48 + v mod 10 :: u64)) = digit_char (unat v mod 10)"
proof -
  have "unat (v mod 10) < 10" by (simp add: unat_mod_10)
  then have "unat (48 + v mod 10) = 48 + unat v mod 10"
    by (simp add: unat_word_ariths unat_mod_10)
  then show ?thesis by (simp only: digit_char_def)
qed

lemma itoa_loop_spec:
  "\<lbrakk>unat v < 10 ^ i; i \<le> length buf\<rbrakk> \<Longrightarrow>
   itoa_loop v i buf = Some ((if v = 0 then [] else dec_of_nat (unat v)) @ drop i buf)"
proof (induction v i buf rule: itoa_loop.induct)
  case (1 v i buf)
  show ?case
  proof (cases "v = 0")
    case True
    then show ?thesis by (simp add: itoa_loop.simps)
  next
    case False
    have "i \<noteq> 0" using 1(2) False by (cases "i = 0") (auto simp: unat_eq_zero)
    then obtain k where k: "i = Suc k" by (cases i) auto
    let ?c = "digit_char (unat v mod 10)"
    have dv: "unat (v div 10) = unat v div 10" by (simp add: unat_div_distrib)
    have drp: "drop k (buf[k := ?c]) = ?c # drop i buf"
      using 1(3) k by (simp add: drop_update_swap Cons_nth_drop_Suc [symmetric])
    have "unat (v div 10) < 10 ^ k" using 1(2) k dv by (simp add: less_mult_imp_div_less mult.commute)
    with 1(1) [OF False \<open>i \<noteq> 0\<close>] 1(3) k
    have "itoa_loop (v div 10) k (buf[k := ?c]) =
        Some ((if v div 10 = 0 then [] else dec_of_nat (unat (v div 10))) @ drop k (buf[k := ?c]))"
      by (simp add: itoa_digit)
    moreover have "v div 10 = 0 \<longleftrightarrow> unat v < 10"
      using dv by (metis div_eq_0_iff unat_eq_zero zero_neq_numeral)
    ultimately show ?thesis
      using False k by (subst itoa_loop.simps) (simp add: itoa_digit drp dv dec_of_nat.simps [of "unat v"])
  qed
qed

lemma digit_zero: "digit_char 0 = CHR ''0''"
proof -
  have "char_of (of_char (CHR ''0'') :: nat) = CHR ''0''" by (rule char_of_char)
  moreover have "(of_char (CHR ''0'') :: nat) = 48" by simp
  ultimately show ?thesis unfolding digit_char_def by (simp only: add_0_right)
qed

section \<open>Paths\<close>

record PathSet =
  StateDir :: string
  LogDir :: string
  RunDir :: string
  StagingDir :: string

definition Paths_linux :: PathSet where
  "Paths_linux =
     \<lparr>StateDir = ''/var/lib/weave'', LogDir = ''/var/log/weave'', RunDir = ''/run/weave'',
      StagingDir = ''/var/lib/weave/staging''\<rparr>"

definition Paths_darwin :: PathSet where
  "Paths_darwin =
     \<lparr>StateDir = ''/Library/Application Support/Weave'', LogDir = ''/Library/Logs/Weave'',
      RunDir = ''/var/run/weave'', StagingDir = ''/Library/Application Support/Weave/staging''\<rparr>"

section \<open>Configuration and log level\<close>

datatype 'e config_error = ConfigError 'e

definition Load ::
  "(bytes \<Rightarrow> 'd \<Rightarrow> 'e option \<times> 'd) \<Rightarrow> bytes \<Rightarrow> 'd \<Rightarrow> 'e config_error option \<times> 'd" where
  "Load unmarshal doc dst =
     (if length doc = 0 then (None, dst)
      else case unmarshal doc dst of
        (Some e, dst') \<Rightarrow> (Some (ConfigError e), dst')
      | (None, dst') \<Rightarrow> (None, dst'))"

definition Env :: "environ \<Rightarrow> string \<Rightarrow> string \<Rightarrow> string" where
  "Env env key fallback = (case env key of Some v \<Rightarrow> v | None \<Rightarrow> fallback)"

datatype Level = LevelDebug | LevelInfo | LevelWarn | LevelError

text \<open>
  \<open>strings.ToLower\<close> on ASCII; a byte of a longer rune stays as it is.  No such rune lowers to a
  letter of the four level names, so the comparison is unaffected.
\<close>

definition ascii_lower :: "char \<Rightarrow> char" where
  "ascii_lower c = (let n = (of_char c :: nat) in if 65 \<le> n \<and> n \<le> 90 then char_of (n + 32) else c)"

definition LevelFromEnv :: "environ \<Rightarrow> Level" where
  "LevelFromEnv env =
     (let s = map ascii_lower (os_Getenv env ''WEAVE_LOG_LEVEL'') in
      if s = ''debug'' then LevelDebug
      else if s = ''warn'' then LevelWarn
      else if s = ''error'' then LevelError
      else LevelInfo)"

section \<open>Lemmas\<close>

lemma staging_under_state:
  "StagingDir Paths_linux = join_path [StateDir Paths_linux, ''staging'']"
  "StagingDir Paths_darwin = join_path [StateDir Paths_darwin, ''staging'']"
  by (simp_all add: Paths_linux_def Paths_darwin_def join_path_def clean_path_def)

text \<open>What an \<open>os-release\<close> field reads: the last line that sets it wins.\<close>

fun last_field :: "string \<Rightarrow> string list \<Rightarrow> string option" where
  "last_field p [] = None"
| "last_field p (l # ls) =
     (case last_field p ls of Some v \<Rightarrow> Some v | None \<Rightarrow> map_option trim_quotes (cut_prefix p l))"

definition or_else :: "'a option \<Rightarrow> 'a \<Rightarrow> 'a" where
  "or_else r a = (case r of Some v \<Rightarrow> v | None \<Rightarrow> a)"

lemma fold_release_line:
  "info_Version (fold release_line ls info) = or_else (last_field ''VERSION_ID='' ls) (info_Version info) \<and>
   info_Build (fold release_line ls info) = or_else (last_field ''BUILD_ID='' ls) (info_Build info) \<and>
   info_Hostname (fold release_line ls info) = info_Hostname info \<and>
   info_OS (fold release_line ls info) = info_OS info \<and> info_Arch (fold release_line ls info) = info_Arch info"
proof (induction ls arbitrary: info)
  case (Cons l ls)
  then show ?case
    by (simp add: release_line_def Let_def or_else_def split: option.split del: cut_prefix.simps)
qed (simp add: or_else_def)

section \<open>Properties\<close>

text \<open>
  C40: \<open>itoa\<close> renders every 64-bit number in decimal and its 20-byte buffer is always large
  enough: the index never leaves it.
\<close>
theorem itoa_decimal: "itoa v = Some (dec_of_nat (unat v))"
proof (cases "v = 0")
  case True
  then show ?thesis by (simp add: itoa_def dec_of_nat.simps [of 0] digit_zero)
next
  case False
  have "unat v < 2 ^ 64" using unsigned_less [of v] by simp
  then have "unat v < 10 ^ 20" by simp
  with False itoa_loop_spec [of v 20 "replicate 20 (CHR 0x00)"] show ?thesis by (simp add: itoa_def)
qed

text \<open>
  On Linux the version and the build are those of the last \<open>VERSION_ID\<close> and \<open>BUILD_ID\<close> lines
  of the file, without their quotes, and stay empty where there is none; OS and architecture
  are never touched.
\<close>
lemma fill_linux_reads_release:
  "fill_linux hn (Some content) info =
     info\<lparr>info_Version := or_else (last_field ''VERSION_ID='' (scan_lines content)) (info_Version info),
          info_Build := or_else (last_field ''BUILD_ID='' (scan_lines content)) (info_Build info),
          info_Hostname := or_else hn (info_Hostname info)\<rparr>"
proof -
  have "info_Version (set_hostname hn info) = info_Version info" "info_Build (set_hostname hn info) = info_Build info"
    "info_Hostname (set_hostname hn info) = or_else hn (info_Hostname info)"
    "info_OS (set_hostname hn info) = info_OS info" "info_Arch (set_hostname hn info) = info_Arch info"
    by (simp_all add: set_hostname_def or_else_def split: option.split)
  then show ?thesis
    unfolding fill_linux_def option.case
    by (intro Info.equality) (simp_all add: fold_release_line)
qed

end
