(* ===== verification/ModuleLog.thy ===== *)
theory ModuleLog
  imports LogHandler Platform
begin

text \<open>
  A module's log from the environment to the record: \<open>wlog.New\<close> and \<open>wlog.Default\<close>
  (\<open>wlog/wlog.go\<close>) build the stderr logger, \<open>dialHost\<close> puts the stream handler of theory
  \<open>LogHandler\<close> in front of it, \<open>Host.Log\<close> hands it out, and \<open>slog.Logger\<close> asks \<open>Enabled\<close>
  before it calls \<open>Handle\<close>.
\<close>

section \<open>Loggers\<close>

text \<open>
  The JSON handler of the standard library is known by its writer, its level and the \<open>With\<close>
  calls that derived it.  The values of the levels are \<open>slog\<close>'s.
\<close>

record 'w json_handler =
  jh_writer :: 'w
  jh_level :: Level
  jh_ops :: "fallback_op list"

fun level_value :: "Level \<Rightarrow> 64 word" where
  "level_value LevelDebug = - 4"
| "level_value LevelInfo = 0"
| "level_value LevelWarn = 4"
| "level_value LevelError = 8"

definition json_Enabled :: "'w json_handler \<Rightarrow> 64 word \<Rightarrow> bool" where
  "json_Enabled h l \<longleftrightarrow> level_value (jh_level h) \<le>s l"

definition wlog_New :: "'w \<Rightarrow> Level \<Rightarrow> string \<Rightarrow> 'w json_handler" where
  "wlog_New w level component =
     \<lparr>jh_writer = w, jh_level = level, jh_ops = [FbAttrs [(''component'', component)]]\<rparr>"

datatype std_file = Stderr

definition wlog_Default :: "environ \<Rightarrow> string \<Rightarrow> std_file json_handler" where
  "wlog_Default env component = wlog_New Stderr (LevelFromEnv env) component"

section \<open>Host.Log\<close>

text \<open>
  A module's logging: the handlers derived from the host's one, over the stderr handler
  \<open>hl_log\<close>.  \<open>dial_log\<close> is \<open>dialHost\<close>'s part, with the LogService client it has just made.
\<close>

record 'w host_log =
  hl_log :: "'w json_handler"
  hl_streamedLog :: "log_world option"

definition dial_log :: "'w json_handler \<Rightarrow> 'w host_log" where
  "dial_log log = \<lparr>hl_log = log, hl_streamedLog = Some (log_init (jh_ops log) True)\<rparr>"

definition Log :: "'w host_log \<Rightarrow> 'w json_handler + log_world" where
  "Log h = (case hl_streamedLog h of Some l \<Rightarrow> Inr l | None \<Rightarrow> Inl (hl_log h))"

text \<open>\<open>With\<close> calls leave the level alone, so every derived handler asks the same fallback level.\<close>

definition Enabled :: "'w json_handler \<Rightarrow> 64 word \<Rightarrow> bool" where
  "Enabled fallback l = json_Enabled fallback l"

text \<open>One use of a logger: a call that does not pass \<open>Enabled\<close> goes no further.\<close>

fun logger_step :: "'w json_handler \<Rightarrow> log_op \<Rightarrow> log_world \<Rightarrow> log_world" where
  "logger_step fb (OpHandle i r open_ok send_ok) w =
     (if Enabled fb (r_Level r) then log_step (OpHandle i r open_ok send_ok) w else w)"
| "logger_step fb op w = log_step op w"

definition logger_run :: "'w json_handler \<Rightarrow> log_op list \<Rightarrow> log_world \<Rightarrow> log_world" where
  "logger_run fb ops w = fold (logger_step fb) ops w"

section \<open>Lemmas\<close>

fun op_enabled :: "'w json_handler \<Rightarrow> log_op \<Rightarrow> bool" where
  "op_enabled fb (OpHandle i r open_ok send_ok) = Enabled fb (r_Level r)"
| "op_enabled fb op = True"

lemma logger_run_filter: "logger_run fb ops w = log_run (filter (op_enabled fb) ops) w"
  unfolding logger_run_def log_run_def
proof (induction ops arbitrary: w)
  case (Cons op ops)
  then show ?case by (cases op) simp_all
qed simp

text \<open>The calls at or above the level, of those on handlers that exist by then.\<close>

fun audible :: "Level \<Rightarrow> log_op list \<Rightarrow> nat \<Rightarrow> (string \<times> int) list" where
  "audible lvl [] n = []"
| "audible lvl (OpHandle i r open_ok send_ok # ops) n =
     (if i < n \<and> sint (level_value lvl) \<le> sint (r_Level r) then [(r_Message r, r_TimeMs r)] else []) @
     audible lvl ops n"
| "audible lvl (OpWithAttrs i attrs # ops) n = audible lvl ops (if i < n then Suc n else n)"
| "audible lvl (OpWithGroup i name # ops) n = audible lvl ops (if i < n then Suc n else n)"

lemma handled_filter: "handled (filter (op_enabled fb) ops) n = audible (jh_level fb) ops n"
  by (induction "jh_level fb" ops n rule: audible.induct)
    (auto simp: Enabled_def json_Enabled_def word_sle_eq)

text \<open>The handlers of a run over the stderr handler all carry its \<open>With\<close> calls, oldest first.\<close>

definition over :: "fallback_op list \<Rightarrow> log_world \<Rightarrow> bool" where
  "over ops w \<longleftrightarrow> (\<forall>h \<in> set (lw_handlers w). prefix ops (sh_fallback h)) \<and>
     (\<forall>f r. ToFallback f r \<in> set (lw_out w) \<longrightarrow> prefix ops f)"

lemma over_init: "over ops (log_init ops client)"
  by (simp add: over_def log_init_def newStreamHandler_def)

lemma send_fallback: "send open_ok send_ok n h = (sent, h', n') \<Longrightarrow> sh_fallback h' = sh_fallback h"
  by (auto simp: send_def Let_def split: if_splits option.splits)

lemma over_Handle:
  assumes "over ops w" "i < length (lw_handlers w)"
  shows "over ops (Handle i r open_ok send_ok w)"
proof -
  obtain sent h' n where snd: "send open_ok send_ok (lw_nextStream w) (lw_handlers w ! i) = (sent, h', n)"
    by (cases "send open_ok send_ok (lw_nextStream w) (lw_handlers w ! i)") auto
  have "prefix ops (sh_fallback (lw_handlers w ! i))" using assms by (simp add: over_def)
  moreover have "set ((lw_handlers w)[i := h']) \<subseteq> insert h' (set (lw_handlers w))"
    by (rule set_update_subset_insert)
  ultimately show ?thesis
    using assms(1) send_fallback [OF snd]
    by (auto simp: over_def Handle_def Let_def snd split: option.splits)
qed

lemma over_step: "over ops w \<Longrightarrow> over ops (log_step op w)"
proof (cases op)
  case (OpHandle i r open_ok send_ok)
  assume "over ops w"
  then show ?thesis using over_Handle OpHandle by simp
qed (auto simp: over_def WithAttrs_def WithGroup_def)

lemma over_run: "over ops w \<Longrightarrow> over ops (log_run os w)"
  unfolding log_run_def by (induction os arbitrary: w) (simp_all add: over_step)

section \<open>Properties\<close>

text \<open>
  C34: the level of the environment is the level of the log: of any sequence of logging calls
  and derivations by a module, exactly the records at or above \<open>WEAVE_LOG_LEVEL\<close> come out,
  once each and in order, on the stream to core or on stderr whatever the wire does; and each
  that falls back to stderr carries the module's id as its component.
\<close>
theorem module_log_output:
  assumes "Log (dial_log (wlog_Default env ident)) = Inr w0"
    and "w = logger_run (wlog_Default env ident) ops w0"
  shows "map delivered (lw_out w) = audible (LevelFromEnv env) ops 1 \<and>
    (\<forall>f r. ToFallback f r \<in> set (lw_out w) \<longrightarrow> hd f = FbAttrs [(''component'', ident)])"
proof -
  let ?fb = "wlog_Default env ident" and ?c = "[FbAttrs [(''component'', ident)]]"
  have w0: "w0 = log_init ?c True" using assms(1)
    by (simp add: Log_def dial_log_def wlog_Default_def wlog_New_def)
  have "map delivered (lw_out w) = handled (filter (op_enabled ?fb) ops) 1"
    by (simp add: assms(2) logger_run_filter log_run_out w0) (simp add: log_init_def)
  then have "map delivered (lw_out w) = audible (LevelFromEnv env) ops 1"
    by (simp add: handled_filter wlog_Default_def wlog_New_def)
  moreover have "over ?c w"
    unfolding assms(2) logger_run_filter w0 by (rule over_run [OF over_init])
  then have "hd f = FbAttrs [(''component'', ident)]" if "ToFallback f r \<in> set (lw_out w)" for f r
    using that by (auto simp: over_def prefix_def)
  ultimately show ?thesis by blast
qed

theorem module_log_output_witness:
  "let info = \<lparr>r_Level = 0, r_Message = ''a'', r_TimeMs = 1, r_Attrs = []\<rparr>;
       warn = \<lparr>r_Level = 4, r_Message = ''b'', r_TimeMs = 2, r_Attrs = []\<rparr>
   in \<exists>w0. Log (dial_log (wlog_Default [''WEAVE_LOG_LEVEL'' \<mapsto> ''WARN''] ''toy'')) = Inr w0 \<and>
        map delivered (lw_out (logger_run (wlog_Default [''WEAVE_LOG_LEVEL'' \<mapsto> ''WARN''] ''toy'')
          [OpHandle 0 info True True, OpHandle 0 warn False True] w0)) = [(''b'', 2)]"
proof -
  let ?env = "[''WEAVE_LOG_LEVEL'' \<mapsto> ''WARN'']"
  have "LevelFromEnv ?env = LevelWarn"
    by (simp add: LevelFromEnv_def os_Getenv_def ascii_lower_def char_of_def bit_Suc_0_iff)
  moreover obtain w0 where "Log (dial_log (wlog_Default ?env ''toy'')) = Inr w0"
    by (simp add: Log_def dial_log_def)
  ultimately show ?thesis
    using module_log_output [of ?env "''toy''" w0 _ "[OpHandle 0 \<lparr>r_Level = 0, r_Message = ''a'', r_TimeMs = 1, r_Attrs = []\<rparr> True True,
        OpHandle 0 \<lparr>r_Level = 4, r_Message = ''b'', r_TimeMs = 2, r_Attrs = []\<rparr> False True]", OF _ refl]
    by (simp add: Let_def)
qed

text \<open>
  What goes to core does not say which component it is from, though \<open>wlog.New\<close> attaches it to
  every record: the stream handler starts without the attributes of the logger it wraps, so the
  same record has the component on stderr and not on the stream.
\<close>

lemma streamed_record_lacks_component:
  "Log (dial_log (wlog_New w level component)) = Inr w0 \<Longrightarrow>
   lr_Attrs (log_record (lw_handlers w0 ! 0) r) ''component'' = map_of (rev (r_Attrs r)) ''component'' \<and>
   sh_fallback (lw_handlers w0 ! 0) = [FbAttrs [(''component'', component)]]"
  by (auto simp: Log_def dial_log_def log_init_def newStreamHandler_def wlog_New_def log_record_lookup
      qualify_def case_prod_beta split: option.split)

end
