(* ===== verification/Ipc.thy ===== *)
theory Ipc
  imports Werror Handshake
begin

text \<open>
  The local transport (\<open>ipc/\<close>): listening on a Unix socket path, dialing, the gRPC client over
  it, peer credentials and the authorizing listener.

  The file system is a map from paths to nodes, with what its directories allow; a Unix socket
  file is \<open>live\<close> while a listener holds it.  From outside the repository come two arguments:
  \<open>getsockopt\<close> (\<open>unix.GetsockoptUcred\<close>, \<open>unix.GetsockoptXucred\<close>) and \<open>new_client\<close>
  (\<open>grpc.NewClient\<close>).  Windows pipes are go-winio's: only which descriptor \<open>listen\<close> asks for
  is the repository's.
\<close>

section \<open>Listening on a Unix socket path\<close>

datatype os_error = NotExist | AccessDenied | NotEmpty | AddrInUse | NameTooLong | ChmodFailed

datatype fs_node = SocketFile nat bool | PlainFile | EmptyDir | FullDir

datatype dir_status = DirWritable | DirMissing | DirReadOnly

record fs =
  fs_nodes :: "string \<rightharpoonup> fs_node"
  fs_dir :: "string \<Rightarrow> dir_status"
  fs_chmod_ok :: "string \<Rightarrow> bool"
  fs_sun_path :: nat
  fs_new_mode :: nat

definition os_Remove :: "string \<Rightarrow> fs \<Rightarrow> os_error option \<times> fs" where
  "os_Remove path f =
     (case fs_dir f path of
        DirMissing \<Rightarrow> (Some NotExist, f)
      | d \<Rightarrow>
        (case fs_nodes f path of
           None \<Rightarrow> (Some NotExist, f)
         | Some node \<Rightarrow>
             if d = DirReadOnly then (Some AccessDenied, f)
             else if node = FullDir then (Some NotEmpty, f)
             else (None, f\<lparr>fs_nodes := (fs_nodes f)(path := None)\<rparr>)))"

definition net_Listen :: "string \<Rightarrow> fs \<Rightarrow> os_error option \<times> fs" where
  "net_Listen path f =
     (if fs_sun_path f \<le> length path then (Some NameTooLong, f)
      else case fs_dir f path of
        DirMissing \<Rightarrow> (Some NotExist, f)
      | DirReadOnly \<Rightarrow> (Some AccessDenied, f)
      | DirWritable \<Rightarrow>
          (case fs_nodes f path of
             Some _ \<Rightarrow> (Some AddrInUse, f)
           | None \<Rightarrow> (None, f\<lparr>fs_nodes := (fs_nodes f)(path \<mapsto> SocketFile (fs_new_mode f) True)\<rparr>)))"

text \<open>Closing a listener that \<open>net.Listen\<close> made unlinks its socket file.\<close>

definition close_listener :: "string \<Rightarrow> fs \<Rightarrow> fs" where
  "close_listener path f = f\<lparr>fs_nodes := (fs_nodes f)(path := None)\<rparr>"

definition os_Chmod :: "string \<Rightarrow> nat \<Rightarrow> fs \<Rightarrow> os_error option \<times> fs" where
  "os_Chmod path mode f =
     (case fs_nodes f path of
        None \<Rightarrow> (Some NotExist, f)
      | Some (SocketFile m live) \<Rightarrow>
          if fs_chmod_ok f path
          then (None, f\<lparr>fs_nodes := (fs_nodes f)(path \<mapsto> SocketFile mode live)\<rparr>)
          else (Some ChmodFailed, f)
      | Some _ \<Rightarrow> (Some ChmodFailed, f))"

definition mode_0600 :: nat where "mode_0600 = 6 * 8 * 8"

datatype listen_error = ClearingStale os_error | ListenFailed os_error

definition listen_unix :: "string \<Rightarrow> fs \<Rightarrow> (listen_error + string) \<times> fs" where
  "listen_unix addr f =
     (case os_Remove addr f of (rerr, f1) \<Rightarrow>
        if rerr \<noteq> None \<and> rerr \<noteq> Some NotExist then (Inl (ClearingStale (the rerr)), f1)
        else case net_Listen addr f1 of
          (Some e, f2) \<Rightarrow> (Inl (ListenFailed e), f2)
        | (None, f2) \<Rightarrow>
            (case os_Chmod addr mode_0600 f2 of
               (Some e, f3) \<Rightarrow> (Inl (ListenFailed e), close_listener addr f3)
             | (None, f3) \<Rightarrow> (Inr addr, f3)))"

lemma listen_unix_Inr:
  "listen_unix addr f = (Inr a, f') \<longleftrightarrow>
     a = addr \<and> fs_dir f addr = DirWritable \<and> fs_nodes f addr \<noteq> Some FullDir \<and>
     length addr < fs_sun_path f \<and> fs_chmod_ok f addr \<and>
     f' = f\<lparr>fs_nodes := (fs_nodes f)(addr \<mapsto> SocketFile mode_0600 True)\<rparr>"
  by (cases "fs_dir f addr"; cases "fs_nodes f addr"; cases "fs_nodes f addr = Some FullDir";
      cases "fs_sun_path f \<le> length addr"; cases "fs_chmod_ok f addr")
    (auto simp: listen_unix_def os_Remove_def net_Listen_def os_Chmod_def)

lemma listen_unix_addr: "listen_unix addr f = (Inr a, f') \<Longrightarrow> a = addr"
  unfolding listen_unix_Inr by (elim conjE)

lemma listen_unix_ok:
  "fst (listen_unix addr f) = Inr addr \<longleftrightarrow>
     fs_dir f addr = DirWritable \<and> length addr < fs_sun_path f \<and>
     fs_nodes f addr \<noteq> Some FullDir \<and> fs_chmod_ok f addr"
  by (cases "fs_dir f addr"; cases "fs_nodes f addr"; cases "fs_nodes f addr = Some FullDir";
      cases "fs_sun_path f \<le> length addr"; cases "fs_chmod_ok f addr")
    (auto simp: listen_unix_def os_Remove_def net_Listen_def os_Chmod_def)

lemma listen_unix_other:
  "path \<noteq> addr \<Longrightarrow> fs_nodes (snd (listen_unix addr f)) path = fs_nodes f path"
  by (auto simp: listen_unix_def os_Remove_def net_Listen_def os_Chmod_def close_listener_def
      split: dir_status.splits option.splits fs_node.splits)

lemma listen_unix_Inl_not_new:
  "\<lbrakk>listen_unix addr f = (Inl e, f'); fs_nodes f' addr = Some n\<rbrakk> \<Longrightarrow> fs_nodes f addr = Some n"
  by (auto simp: listen_unix_def os_Remove_def net_Listen_def os_Chmod_def close_listener_def
      split: dir_status.splits option.splits fs_node.splits if_splits)

section \<open>Dialing\<close>

datatype dial_error = NetworkUnsupported string | DialNotExist | DialRefused

definition dial_unix :: "fs \<Rightarrow> string \<Rightarrow> string \<Rightarrow> dial_error + string" where
  "dial_unix f netw addr =
     (if netw \<noteq> NetworkUnix then Inl (NetworkUnsupported netw)
      else case fs_nodes f addr of
        None \<Rightarrow> Inl DialNotExist
      | Some (SocketFile m True) \<Rightarrow> Inr addr
      | Some _ \<Rightarrow> Inl DialRefused)"

definition pipeSDDL :: string where "pipeSDDL = ''D:(A;;GA;;;SY)(A;;GA;;;BA)''"

definition ListenPipeSDDL :: "(string \<Rightarrow> string \<Rightarrow> 'l) \<Rightarrow> string \<Rightarrow> string \<Rightarrow> 'l" where
  "ListenPipeSDDL winio_ListenPipe addr sddl = winio_ListenPipe addr sddl"

definition listen_windows :: "(string \<Rightarrow> string \<Rightarrow> 'l) \<Rightarrow> string \<Rightarrow> 'l" where
  "listen_windows winio_ListenPipe addr = winio_ListenPipe addr pipeSDDL"

definition dial_windows ::
  "(string \<Rightarrow> dial_error + 'conn) \<Rightarrow> string \<Rightarrow> string \<Rightarrow> dial_error + 'conn" where
  "dial_windows winio_DialPipe netw addr =
     (if netw \<noteq> NetworkPipe then Inl (NetworkUnsupported netw) else winio_DialPipe addr)"

text \<open>
  The seam: which \<open>listen\<close>, \<open>dial\<close> and \<open>network\<close> the build for an operating system has, and
  what closing a listener does there.  go-winio's routines are the arguments of the Windows one.
\<close>

record seam =
  sm_goos :: string
  sm_Network :: string
  sm_Listen :: "string \<Rightarrow> fs \<Rightarrow> (listen_error + string) \<times> fs"
  sm_Dial :: "fs \<Rightarrow> string \<Rightarrow> string \<Rightarrow> dial_error + string"
  sm_close :: "string \<Rightarrow> fs \<Rightarrow> fs"

definition unix_seam :: "string \<Rightarrow> seam" where
  "unix_seam goos =
     \<lparr>sm_goos = goos, sm_Network = NetworkUnix, sm_Listen = listen_unix, sm_Dial = dial_unix,
      sm_close = close_listener\<rparr>"

definition windows_seam ::
  "(string \<Rightarrow> string \<Rightarrow> fs \<Rightarrow> (listen_error + string) \<times> fs) \<Rightarrow> (fs \<Rightarrow> string \<Rightarrow> dial_error + string) \<Rightarrow>
   (string \<Rightarrow> fs \<Rightarrow> fs) \<Rightarrow> seam" where
  "windows_seam winio_ListenPipe winio_DialPipe winio_close =
     \<lparr>sm_goos = ''windows'', sm_Network = NetworkPipe, sm_Listen = listen_windows winio_ListenPipe,
      sm_Dial = (\<lambda>f. dial_windows (winio_DialPipe f)), sm_close = winio_close\<rparr>"

lemma unix_seam_simps [simp]:
  "sm_goos (unix_seam goos) = goos" "sm_Network (unix_seam goos) = NetworkUnix"
  "sm_Listen (unix_seam goos) = listen_unix" "sm_Dial (unix_seam goos) = dial_unix"
  "sm_close (unix_seam goos) = close_listener"
  by (simp_all add: unix_seam_def)

lemma windows_seam_simps [simp]:
  "sm_goos (windows_seam lp dp cl) = ''windows''" "sm_Network (windows_seam lp dp cl) = NetworkPipe"
  "sm_Listen (windows_seam lp dp cl) = listen_windows lp" "sm_Dial (windows_seam lp dp cl) f = dial_windows (dp f)"
  "sm_close (windows_seam lp dp cl) = cl"
  by (simp_all add: windows_seam_def)

datatype ('conn, 'x) dial_option =
    InsecureCredentials
  | ContextDialer "string \<Rightarrow> dial_error + 'conn"
  | ExtraOption 'x

definition GRPCClient ::
  "(string \<Rightarrow> ('conn, 'x) dial_option list \<Rightarrow> go_error + 'client) \<Rightarrow>
   (string \<Rightarrow> string \<Rightarrow> dial_error + 'conn) \<Rightarrow> string \<Rightarrow> string \<Rightarrow> 'x list \<Rightarrow> go_error + 'client" where
  "GRPCClient new_client dial network addr extra =
     new_client (''passthrough:///'' @ addr)
       ([InsecureCredentials, ContextDialer (\<lambda>_. dial network addr)] @ map ExtraOption extra)"

section \<open>Peer credentials\<close>

record PeerCred =
  pc_UID :: u32
  pc_HasUID :: bool
  pc_PID :: "64 word"
  pc_HasPID :: bool

definition no_cred :: PeerCred where
  "no_cred = \<lparr>pc_UID = 0, pc_HasUID = False, pc_PID = 0, pc_HasPID = False\<rparr>"

text \<open>
  A connection as \<open>peerCred\<close> sees it: whether it is a \<open>net.UnixConn\<close>, whether \<open>SyscallConn\<close>
  succeeds, and the descriptor \<open>Control\<close> runs its function on (\<open>None\<close> when it does not run it).
\<close>

record conn =
  c_unix :: bool
  c_syscall_ok :: bool
  c_fd :: "nat option"

definition peerCred_linux :: "(nat \<Rightarrow> go_error + 32 word \<times> u32) \<Rightarrow> conn \<Rightarrow> PeerCred" where
  "peerCred_linux getsockopt c =
     (if \<not> c_unix c then no_cred
      else if \<not> c_syscall_ok c then no_cred
      else case c_fd c of
        None \<Rightarrow> no_cred
      | Some fd \<Rightarrow>
          (case getsockopt fd of
             Inl e \<Rightarrow> no_cred
           | Inr (pid, uid) \<Rightarrow> \<lparr>pc_UID = uid, pc_HasUID = True, pc_PID = scast pid, pc_HasPID = True\<rparr>))"

definition peerCred_darwin :: "(nat \<Rightarrow> go_error + u32) \<Rightarrow> conn \<Rightarrow> PeerCred" where
  "peerCred_darwin getsockopt c =
     (if \<not> c_unix c then no_cred
      else if \<not> c_syscall_ok c then no_cred
      else case c_fd c of
        None \<Rightarrow> no_cred
      | Some fd \<Rightarrow>
          (case getsockopt fd of
             Inl e \<Rightarrow> no_cred
           | Inr uid \<Rightarrow> \<lparr>pc_UID = uid, pc_HasUID = True, pc_PID = 0, pc_HasPID = False\<rparr>))"

definition peerCred_windows :: "conn \<Rightarrow> PeerCred" where
  "peerCred_windows c = no_cred"

section \<open>The authorizing listener\<close>

type_synonym Authorizer = "PeerCred \<Rightarrow> go_error option"

record authListener =
  al_addr :: string
  al_authorize :: "Authorizer option"

definition ListenAuthorized ::
  "string \<Rightarrow> Authorizer option \<Rightarrow> fs \<Rightarrow> (listen_error + authListener) \<times> fs" where
  "ListenAuthorized addr authorize f =
     (case listen_unix addr f of
        (Inl e, f') \<Rightarrow> (Inl e, f')
      | (Inr a, f') \<Rightarrow> (Inr \<lparr>al_addr = a, al_authorize = authorize\<rparr>, f'))"

text \<open>
  \<open>Accept\<close> over the results of the inner listener's \<open>Accept\<close>, in order: the connections it
  closed, what it returned (\<open>None\<close> while it still waits), and the results not taken yet.
\<close>

fun Accept ::
  "('conn \<Rightarrow> PeerCred) \<Rightarrow> Authorizer option \<Rightarrow> (go_error + 'conn) list \<Rightarrow>
   'conn list \<times> (go_error + 'conn) option \<times> (go_error + 'conn) list" where
  "Accept peer authorize [] = ([], None, [])"
| "Accept peer authorize (Inl e # rs) = ([], Some (Inl e), rs)"
| "Accept peer authorize (Inr c # rs) =
     (case authorize of
        None \<Rightarrow> ([], Some (Inr c), rs)
      | Some auth \<Rightarrow>
          (case auth (peer c) of
             None \<Rightarrow> ([], Some (Inr c), rs)
           | Some aerr \<Rightarrow> (case Accept peer authorize rs of (closed, r, rest) \<Rightarrow> (c # closed, r, rest))))"

lemma Accept_rest_shorter:
  "Accept peer authorize rs = (closed, Some r, rest) \<Longrightarrow> length rest < length rs"
  by (induction peer authorize rs arbitrary: closed rule: Accept.induct)
    (fastforce split: option.splits prod.splits)+

text \<open>The accept loop of a server: everything handed to it, and everything closed, until an error.\<close>

function accept_loop ::
  "('conn \<Rightarrow> PeerCred) \<Rightarrow> Authorizer option \<Rightarrow> (go_error + 'conn) list \<Rightarrow> 'conn list \<times> 'conn list" where
  "accept_loop peer authorize rs =
     (case Accept peer authorize rs of
        (closed, Some (Inr c), rest) \<Rightarrow>
          (case accept_loop peer authorize rest of (served, closed') \<Rightarrow> (c # served, closed @ closed'))
      | (closed, _, rest) \<Rightarrow> ([], closed))"
  by pat_completeness auto

termination
  by (relation "measure (\<lambda>(peer, authorize, rs). length rs)") (auto dest: Accept_rest_shorter [OF sym])

declare accept_loop.simps [simp del]

definition authorized :: "('conn \<Rightarrow> PeerCred) \<Rightarrow> Authorizer option \<Rightarrow> 'conn \<Rightarrow> bool" where
  "authorized peer authorize c = (case authorize of None \<Rightarrow> True | Some auth \<Rightarrow> auth (peer c) = None)"

definition arrivals :: "(go_error + 'conn) list \<Rightarrow> 'conn list" where
  "arrivals rs = map projr (takeWhile (\<lambda>r. \<not> isl r) rs)"

lemma arrivals_simps [simp]:
  "arrivals [] = []" "arrivals (Inl e # rs) = []" "arrivals (Inr c # rs) = c # arrivals rs"
  by (simp_all add: arrivals_def)

lemma accept_loop_Nil: "accept_loop peer authorize [] = ([], [])"
  by (subst accept_loop.simps) simp

lemma accept_loop_Inl: "accept_loop peer authorize (Inl e # rs) = ([], [])"
  by (subst accept_loop.simps) simp

lemma accept_loop_Inr:
  "accept_loop peer authorize (Inr c # rs) =
     (if authorized peer authorize c
      then (c # fst (accept_loop peer authorize rs), snd (accept_loop peer authorize rs))
      else (fst (accept_loop peer authorize rs), c # snd (accept_loop peer authorize rs)))"
proof (cases "authorized peer authorize c")
  case True
  then have "Accept peer authorize (Inr c # rs) = ([], Some (Inr c), rs)"
    by (auto simp: authorized_def split: option.splits)
  with True show ?thesis by (subst accept_loop.simps) (simp add: case_prod_beta)
next
  case False
  then have step: "Accept peer authorize (Inr c # rs) =
      (c # fst (Accept peer authorize rs), snd (Accept peer authorize rs))"
    by (auto simp: authorized_def case_prod_beta split: option.splits)
  obtain closed r rest where acc: "Accept peer authorize rs = (closed, r, rest)"
    by (cases "Accept peer authorize rs") auto
  show ?thesis
    using False
    by (subst (1 2 3 4 5) accept_loop.simps)
      (simp add: step acc case_prod_beta del: Accept.simps split: option.split sum.split)
qed

lemma accept_loop_filter:
  "accept_loop peer authorize rs =
     (filter (authorized peer authorize) (arrivals rs),
      filter (\<lambda>c. \<not> authorized peer authorize c) (arrivals rs))"
proof (induction rs)
  case (Cons r rs)
  then show ?case by (cases r) (simp_all add: accept_loop_Inl accept_loop_Inr)
qed (simp add: accept_loop_Nil)

lemma peerCred_linux_uid:
  "pc_HasUID (peerCred_linux getsockopt c) \<longleftrightarrow>
     c_unix c \<and> c_syscall_ok c \<and> (\<exists>fd pid uid. c_fd c = Some fd \<and> getsockopt fd = Inr (pid, uid) \<and>
       pc_UID (peerCred_linux getsockopt c) = uid)"
  by (auto simp: peerCred_linux_def no_cred_def split: option.splits sum.splits)

text \<open>Without a uid the record still reads as uid 0: an authorizer has to look at \<open>HasUID\<close>.\<close>

lemma peerCred_unknown_reads_root:
  "\<not> pc_HasUID (peerCred_linux getsockopt c) \<Longrightarrow> pc_UID (peerCred_linux getsockopt c) = 0"
  by (auto simp: peerCred_linux_def no_cred_def split: option.splits sum.splits if_splits)

section \<open>Properties\<close>

text \<open>
  C23: \<open>listen\<close> on a Unix path succeeds exactly when the directory can be written, the path is
  short enough, no non-empty directory is in the way and the mode can be set; whatever else was
  at the path, a stale socket included, is replaced by a live socket of mode 0600 that a dial
  reaches, and no other path changes, on failure neither.
\<close>
theorem listen_unix_outcome:
  "(fst (listen_unix addr f) = Inr addr \<longleftrightarrow>
      fs_dir f addr = DirWritable \<and> length addr < fs_sun_path f \<and>
      fs_nodes f addr \<noteq> Some FullDir \<and> fs_chmod_ok f addr) \<and>
   (\<forall>a f'. listen_unix addr f = (Inr a, f') \<longrightarrow>
      fs_nodes f' addr = Some (SocketFile (6 * 8 * 8) True) \<and> dial_unix f' NetworkUnix addr = Inr addr) \<and>
   (\<forall>path. path \<noteq> addr \<longrightarrow> fs_nodes (snd (listen_unix addr f)) path = fs_nodes f path)"
proof (intro conjI allI impI)
  show "fst (listen_unix addr f) = Inr addr \<longleftrightarrow>
      fs_dir f addr = DirWritable \<and> length addr < fs_sun_path f \<and>
      fs_nodes f addr \<noteq> Some FullDir \<and> fs_chmod_ok f addr"
    by (rule listen_unix_ok)
next
  fix a f' assume "listen_unix addr f = (Inr a, f')"
  then have "fs_nodes f' addr = Some (SocketFile mode_0600 True)"
    unfolding listen_unix_Inr by (elim conjE) simp
  then show "fs_nodes f' addr = Some (SocketFile (6 * 8 * 8) True)"
    and "dial_unix f' NetworkUnix addr = Inr addr"
    by (simp_all add: mode_0600_def dial_unix_def)
qed (rule listen_unix_other)

theorem listen_unix_outcome_witness:
  "\<exists>f'. listen_unix ''/run/w/m.sock''
       \<lparr>fs_nodes = [''/run/w/m.sock'' \<mapsto> SocketFile 493 False], fs_dir = (\<lambda>_. DirWritable),
        fs_chmod_ok = (\<lambda>_. True), fs_sun_path = 108, fs_new_mode = 493\<rparr> = (Inr ''/run/w/m.sock'', f') \<and>
     fs_nodes f' ''/run/w/m.sock'' = Some (SocketFile 384 True) \<and>
     dial_unix f' NetworkUnix ''/run/w/m.sock'' = Inr ''/run/w/m.sock''"
proof -
  let ?f = "\<lparr>fs_nodes = [''/run/w/m.sock'' \<mapsto> SocketFile 493 False], fs_dir = (\<lambda>_. DirWritable),
      fs_chmod_ok = (\<lambda>_. True), fs_sun_path = 108, fs_new_mode = 493\<rparr>"
  note outcome = listen_unix_outcome [of "''/run/w/m.sock''" ?f]
  have "fst (listen_unix ''/run/w/m.sock'' ?f) = Inr ''/run/w/m.sock''"
    by (rule iffD2 [OF conjunct1 [OF outcome]]) simp
  then obtain f' where f': "listen_unix ''/run/w/m.sock'' ?f = (Inr ''/run/w/m.sock'', f')"
    by (cases "listen_unix ''/run/w/m.sock'' ?f") auto
  with conjunct1 [OF conjunct2 [OF outcome]] show ?thesis by auto
qed

text \<open>
  C33: through \<open>authListener\<close> a server is handed exactly the connections whose peer the
  authorizer accepts, in order of arrival and up to the first accept error; exactly the others
  are closed, and none of them ends the loop.
\<close>
theorem accept_only_authorized:
  "accept_loop peer authorize rs =
     (filter (authorized peer authorize) (arrivals rs),
      filter (\<lambda>c. \<not> authorized peer authorize c) (arrivals rs))"
  by (rule accept_loop_filter)

text \<open>
  C31: A uid gate fails closed on Linux: with an authorizer that accepts only a known uid \<open>u\<close>,
  every connection served is a Unix connection for whose descriptor the kernel reported \<open>u\<close>.
\<close>
theorem uid_gate_fails_closed:
  assumes "\<And>pc. auth pc = None \<Longrightarrow> pc_HasUID pc \<and> pc_UID pc = u"
    and "c \<in> set (fst (accept_loop (peerCred_linux getsockopt) (Some auth) rs))"
  shows "c_unix c \<and> (\<exists>fd pid. c_fd c = Some fd \<and> getsockopt fd = Inr (pid, u))"
proof -
  from assms(2) have "auth (peerCred_linux getsockopt c) = None"
    by (simp add: accept_loop_filter authorized_def)
  then have "pc_HasUID (peerCred_linux getsockopt c)" "pc_UID (peerCred_linux getsockopt c) = u"
    using assms(1) by auto
  then show ?thesis unfolding peerCred_linux_uid by auto
qed

theorem uid_gate_fails_closed_witness:
  "c_unix \<lparr>c_unix = True, c_syscall_ok = True, c_fd = Some 3\<rparr> \<and>
   (\<exists>fd pid. c_fd \<lparr>c_unix = True, c_syscall_ok = True, c_fd = Some 3\<rparr> = Some fd \<and>
      (\<lambda>fd. if fd = 3 then Inr (42, 501) else Inl (TextError ''bad fd'')) fd = (Inr (pid, 501) :: go_error + 32 word \<times> u32))"
proof -
  let ?auth = "\<lambda>pc. if pc_HasUID pc \<and> pc_UID pc = 501 then None else Some (Sentinel ErrDenied)"
  let ?gs = "\<lambda>fd::nat. if fd = 3 then Inr (42, 501) else Inl (TextError ''bad fd'') :: go_error + 32 word \<times> u32"
  let ?c = "\<lparr>c_unix = True, c_syscall_ok = True, c_fd = Some 3\<rparr>"
  have "?c \<in> set (fst (accept_loop (peerCred_linux ?gs) (Some ?auth)
      [Inr \<lparr>c_unix = False, c_syscall_ok = True, c_fd = None\<rparr>, Inr ?c]))"
    by (simp add: accept_loop_filter authorized_def peerCred_linux_def no_cred_def)
  from uid_gate_fails_closed [OF _ this] show ?thesis by (auto split: if_splits)
qed

end
