(* ===== verification/Serve.thy ===== *)
theory Serve
  imports LifecycleOrder ToyModule GoPath Ipc
begin

text \<open>
  \<open>Serve\<close> (\<open>modulesdk/serve.go\<close>): from the handshake environment to the exit code.  \<open>serve_on\<close>
  is the build for a seam of theory \<open>Ipc\<close>, \<open>serve\<close> the Unix one.  The inputs beside the module are the environment, the file system, the RPCs and other
  events handled until the final \<open>select\<close> wakes (\<open>es\<close>), the case it takes, and the events of
  RPCs still in flight that \<open>GracefulStop\<close> waits for (\<open>es'\<close>).  \<open>None\<close> means that the case has
  nothing to take yet: the process goes on serving.
\<close>

section \<open>The listen address\<close>

definition hex_digit :: "nat \<Rightarrow> char" where
  "hex_digit d = ''0123456789abcdef'' ! d"

fun hex_encode :: "8 word list \<Rightarrow> string" where
  "hex_encode [] = []"
| "hex_encode (b # bs) = hex_digit (unat b div 16) # hex_digit (unat b mod 16) # hex_encode bs"

datatype serve_error =
    ReadingWindow handshake_error
  | ProtocolOutOfWindow string u32 Window
  | EnvIncomplete
  | RandFailed go_error
  | SocketDirUnset
  | ListeningOn string listen_error
  | GrpcServerFailed go_error

definition pipe_prefix :: string where
  "pipe_prefix = [CHR 0x5C, CHR 0x5C] @ ''.'' @ [CHR 0x5C] @ ''pipe'' @ [CHR 0x5C] @ ''weave-''"

definition moduleAddr :: "string \<Rightarrow> environ \<Rightarrow> go_error + 8 word list \<Rightarrow> string \<Rightarrow> serve_error + string" where
  "moduleAddr goos env nonce ident =
     (if goos = ''windows'' then
        (case nonce of
           Inl e \<Rightarrow> Inl (RandFailed e)
         | Inr bs \<Rightarrow> Inr (pipe_prefix @ ident @ ''-'' @ hex_encode bs))
      else
        let dir = os_Getenv env EnvSocketDir in
        if dir = [] then Inl SocketDirUnset else Inr (join_path [dir, ident @ ''.sock'']))"

section \<open>serve\<close>

definition negotiate :: "environ \<Rightarrow> string \<Rightarrow> serve_error + Window" where
  "negotiate env ident =
     (case ParseWindow (os_Getenv env EnvProtocolMin) (os_Getenv env EnvProtocolMax) of
        Inl e \<Rightarrow> Inl (ReadingWindow e)
      | Inr window \<Rightarrow>
          if \<not> Contains window ModuleProtocol then Inl (ProtocolOutOfWindow ident ModuleProtocol window)
          else Inr window)"

definition handshake_env :: "environ \<Rightarrow> serve_error + string \<times> string" where
  "handshake_env env =
     (let token = os_Getenv env EnvToken; hostAddr = os_Getenv env EnvHostAddr in
      if token = [] \<or> hostAddr = [] then Inl EnvIncomplete else Inr (token, hostAddr))"

datatype wake = WakeShutdown | WakeHostLost | WakeSignal | WakeServeFailed go_error

fun wake_ready :: "wake \<Rightarrow> ('m, 'c, 's) moduleServer \<Rightarrow> bool" where
  "wake_ready WakeShutdown s = (ms_shutdown s \<noteq> [])"
| "wake_ready WakeHostLost s = (ms_hostLost s \<noteq> None \<and> ms_hostLost s \<noteq> Some [])"
| "wake_ready WakeSignal s = True"
| "wake_ready (WakeServeFailed e) s = True"

record 'srv serve_out =
  so_error :: "serve_error option"
  so_fs :: fs
  so_stdout :: "string list"
  so_server :: "'srv option"

definition serve_fails :: "serve_error \<Rightarrow> fs \<Rightarrow> 'srv serve_out" where
  "serve_fails e f = \<lparr>so_error = Some e, so_fs = f, so_stdout = [], so_server = None\<rparr>"

definition release_host :: "('m, 'c, 's) moduleServer \<Rightarrow> ('m, 'c, 's) moduleServer" where
  "release_host s =
     (case getHost s of None \<Rightarrow> s | Some host \<Rightarrow> s\<lparr>ms_host := Some (Close (stopJobs host))\<rparr>)"

text \<open>
  The rest of \<open>serve\<close> after the listener is open, as the outcome of an exit that completes: the
  events up to the wake, those handled while \<open>GracefulStop\<close> drains, and the release of the host.
  A \<open>GracefulStop\<close> that never returns has no outcome; theory \<open>GracefulExit\<close> takes the exit step by
  step and says when it returns.
\<close>

definition run_module_on ::
  "seam \<Rightarrow> 'm Module \<Rightarrow> string \<Rightarrow> fs \<Rightarrow> ('c, 's) event list \<Rightarrow> wake \<Rightarrow> ('c, 's) event list \<Rightarrow>
   ('m, 'c, 's) moduleServer \<Rightarrow> ('m, 'c, 's) moduleServer serve_out option" where
  "run_module_on sm M addr f es w es' s0 =
     (let line = Format \<lparr>Protocol = ModuleProtocol, Network = sm_Network sm, Addr = addr\<rparr>;
          s1 = run_events M es s0
      in if \<not> wake_ready w s1 then None
         else case w of
           WakeServeFailed e \<Rightarrow>
             Some \<lparr>so_error = Some (GrpcServerFailed e), so_fs = sm_close sm addr f,
                   so_stdout = [line], so_server = Some s1\<rparr>
         | _ \<Rightarrow>
             Some \<lparr>so_error = None, so_fs = sm_close sm addr f,
                   so_stdout = [line], so_server = Some (release_host (run_events M es' s1))\<rparr>)"

definition serve_on ::
  "seam \<Rightarrow> go_error + 8 word list \<Rightarrow> 'm Module \<Rightarrow> (string \<Rightarrow> ('m, 'c, 's) moduleServer) \<Rightarrow> environ \<Rightarrow> fs \<Rightarrow>
   ('c, 's) event list \<Rightarrow> wake \<Rightarrow> ('c, 's) event list \<Rightarrow> ('m, 'c, 's) moduleServer serve_out option" where
  "serve_on sm nonce M new_server env f es w es' =
     (case negotiate env (m_ID M) of
        Inl e \<Rightarrow> Some (serve_fails e f)
      | Inr window \<Rightarrow>
          (case handshake_env env of
             Inl e \<Rightarrow> Some (serve_fails e f)
           | Inr (token, hostAddr) \<Rightarrow>
               (case moduleAddr (sm_goos sm) env nonce (m_ID M) of
                  Inl e \<Rightarrow> Some (serve_fails e f)
                | Inr addr \<Rightarrow>
                    (case sm_Listen sm addr f of
                       (Inl e, f') \<Rightarrow> Some (serve_fails (ListeningOn addr e) f')
                     | (Inr _, f') \<Rightarrow> run_module_on sm M addr f' es w es' (new_server token)))))"

text \<open>The Unix build, which draws no nonce.\<close>

definition run_module ::
  "'m Module \<Rightarrow> string \<Rightarrow> fs \<Rightarrow> ('c, 's) event list \<Rightarrow> wake \<Rightarrow> ('c, 's) event list \<Rightarrow>
   ('m, 'c, 's) moduleServer \<Rightarrow> ('m, 'c, 's) moduleServer serve_out option" where
  "run_module = run_module_on (unix_seam ''linux'')"

definition serve ::
  "'m Module \<Rightarrow> (string \<Rightarrow> ('m, 'c, 's) moduleServer) \<Rightarrow> environ \<Rightarrow> fs \<Rightarrow>
   ('c, 's) event list \<Rightarrow> wake \<Rightarrow> ('c, 's) event list \<Rightarrow> ('m, 'c, 's) moduleServer serve_out option" where
  "serve = serve_on (unix_seam ''linux'') (Inr [])"

lemma run_module_unfold:
  "run_module M addr f es w es' s0 =
     (let line = Format \<lparr>Protocol = ModuleProtocol, Network = NetworkUnix, Addr = addr\<rparr>;
          s1 = run_events M es s0
      in if \<not> wake_ready w s1 then None
         else case w of
           WakeServeFailed e \<Rightarrow>
             Some \<lparr>so_error = Some (GrpcServerFailed e), so_fs = close_listener addr f,
                   so_stdout = [line], so_server = Some s1\<rparr>
         | _ \<Rightarrow>
             Some \<lparr>so_error = None, so_fs = close_listener addr f,
                   so_stdout = [line], so_server = Some (release_host (run_events M es' s1))\<rparr>)"
  by (simp only: run_module_def run_module_on_def unix_seam_simps)

lemma serve_unfold:
  "serve M new_server env f es w es' =
     (case negotiate env (m_ID M) of
        Inl e \<Rightarrow> Some (serve_fails e f)
      | Inr window \<Rightarrow>
          (case handshake_env env of
             Inl e \<Rightarrow> Some (serve_fails e f)
           | Inr (token, hostAddr) \<Rightarrow>
               (case moduleAddr ''linux'' env (Inr []) (m_ID M) of
                  Inl e \<Rightarrow> Some (serve_fails e f)
                | Inr addr \<Rightarrow>
                    (case listen_unix addr f of
                       (Inl e, f') \<Rightarrow> Some (serve_fails (ListeningOn addr e) f')
                     | (Inr _, f') \<Rightarrow> run_module M addr f' es w es' (new_server token)))))"
  by (simp only: serve_def serve_on_def run_module_def unix_seam_simps)

text \<open>\<open>Serve\<close> maps the error to the process's exit code.\<close>

definition Serve_exit :: "serve_error option \<Rightarrow> nat" where
  "Serve_exit err =
     (case err of
        None \<Rightarrow> 0
      | Some (ProtocolOutOfWindow i p w) \<Rightarrow> ExitProtocolUnsupported
      | Some _ \<Rightarrow> 1)"

section \<open>Lemmas\<close>

lemma negotiate_Inr:
  "negotiate env ident = Inr w \<longleftrightarrow>
     ParseWindow (os_Getenv env EnvProtocolMin) (os_Getenv env EnvProtocolMax) = Inr w \<and> Contains w ModuleProtocol"
  by (auto simp: negotiate_def split: sum.splits)

lemma negotiate_refuses:
  "(\<exists>i p w. negotiate env ident = Inl (ProtocolOutOfWindow i p w)) \<longleftrightarrow>
   (\<exists>w. ParseWindow (os_Getenv env EnvProtocolMin) (os_Getenv env EnvProtocolMax) = Inr w \<and>
      \<not> Contains w ModuleProtocol)"
  by (auto simp: negotiate_def split: sum.splits)

lemma moduleAddr_not_window: "moduleAddr goos env nonce ident \<noteq> Inl (ProtocolOutOfWindow i p w)"
  by (auto simp: moduleAddr_def Let_def split: sum.splits)

lemma handshake_env_not_window: "handshake_env env \<noteq> Inl (ProtocolOutOfWindow i p w)"
  by (simp add: handshake_env_def Let_def)

lemma run_module_error: "run_module M addr f es w es' s0 = Some out \<Longrightarrow>
    so_error out = (case w of WakeServeFailed e \<Rightarrow> Some (GrpcServerFailed e) | _ \<Rightarrow> None)"
  by (auto simp: run_module_unfold Let_def split: wake.splits if_splits)

lemma Serve_exit_78:
  "Serve_exit err = ExitProtocolUnsupported \<longleftrightarrow> (\<exists>i p w. err = Some (ProtocolOutOfWindow i p w))"
  by (auto simp: Serve_exit_def ExitProtocolUnsupported_def split: option.splits serve_error.splits)

lemma serve_cases [consumes 1, case_names Refused EnvBad AddrBad ListenBad Ran]:
  assumes "serve M ns env f es w es' = Some out"
  obtains (Refused) e where "negotiate env (m_ID M) = Inl e" "out = serve_fails e f"
  | (EnvBad) win e where "negotiate env (m_ID M) = Inr win" "handshake_env env = Inl e" "out = serve_fails e f"
  | (AddrBad) win e where "negotiate env (m_ID M) = Inr win"
      "moduleAddr ''linux'' env (Inr []) (m_ID M) = Inl e" "out = serve_fails e f"
  | (ListenBad) win addr e f' where "negotiate env (m_ID M) = Inr win"
      "listen_unix addr f = (Inl e, f')" "out = serve_fails (ListeningOn addr e) f'"
  | (Ran) win token hostAddr addr f' where "negotiate env (m_ID M) = Inr win"
      "handshake_env env = Inr (token, hostAddr)"
      "moduleAddr ''linux'' env (Inr []) (m_ID M) = Inr addr" "listen_unix addr f = (Inr addr, f')"
      "run_module M addr f' es w es' (ns token) = Some out"
  using assms unfolding serve_unfold
  by (auto split: sum.splits prod.splits dest: listen_unix_addr) (metis listen_unix_addr)

lemma suffix_sock_no_space: "\<not> ends_in_space (xs @ ''.sock'')"
proof
  assume "ends_in_space (xs @ ''.sock'')"
  then obtain p where p: "p \<in> set space_runes" and sfx: "suffix p (xs @ ''.sock'')"
    by (auto simp: ends_in_space_def)
  have "p \<noteq> []" using p space_runes_nonempty by auto
  with sfx have "last p = CHR ''k''" by (auto simp: suffix_def dest: arg_cong [where f = last])
  with p show False by (auto simp: space_runes_def)
qed

lemma release_host_done:
  assumes "srv_ok s"
  shows "case ms_host (release_host s) of None \<Rightarrow> True | Some h \<Rightarrow> hc_jobWG h = [] \<and> hc_jobCancel h = None \<and> hc_closed h"
proof (cases "ms_host s")
  case (Some h)
  with assms have "jobs_ok h" by (simp add: srv_ok_def host_ok_def)
  from stopJobs_empty [OF this] Some show ?thesis by (simp add: release_host_def Close_def)
qed (simp add: release_host_def)

section \<open>The toy module served\<close>

definition launch_env :: "string \<Rightarrow> string \<Rightarrow> string \<Rightarrow> string \<Rightarrow> string \<Rightarrow> environ" where
  "launch_env mn mx token hostAddr dir =
     [EnvProtocolMin \<mapsto> mn, EnvProtocolMax \<mapsto> mx, EnvToken \<mapsto> token, EnvHostAddr \<mapsto> hostAddr,
      EnvSocketDir \<mapsto> dir]"

lemma launch_env_get [simp]:
  "os_Getenv (launch_env mn mx token hostAddr dir) EnvProtocolMin = mn"
  "os_Getenv (launch_env mn mx token hostAddr dir) EnvProtocolMax = mx"
  "os_Getenv (launch_env mn mx token hostAddr dir) EnvToken = token"
  "os_Getenv (launch_env mn mx token hostAddr dir) EnvHostAddr = hostAddr"
  "os_Getenv (launch_env mn mx token hostAddr dir) EnvSocketDir = dir"
  by (simp_all add: launch_env_def os_Getenv_def env_name_defs)

definition plain_fs :: fs where
  "plain_fs = \<lparr>fs_nodes = Map.empty, fs_dir = (\<lambda>_. DirWritable), fs_chmod_ok = (\<lambda>_. True),
     fs_sun_path = 108, fs_new_mode = 493\<rparr>"

definition toy_new :: "string \<Rightarrow> (unit, plain_ctx, HostData) moduleServer" where
  "toy_new token = newServer () NewHostData token plain_append plain_from_error"

lemma window_1: "ParseWindow ''1'' ''1'' = Inr \<lparr>Min = 1, Max = 1\<rparr>"
  by (simp add: ParseWindow_def parse_uint_def digit_val_def)

lemma toy_addr: "join_path [''/w'', ''toy.sock''] = ''/w/toy.sock''"
  by (simp add: join_path_def clean_path_def)

lemma toy_listen:
  "listen_unix ''/w/toy.sock'' plain_fs =
     (Inr ''/w/toy.sock'', plain_fs\<lparr>fs_nodes := [''/w/toy.sock'' \<mapsto> SocketFile mode_0600 True]\<rparr>)"
  unfolding listen_unix_Inr by (simp add: plain_fs_def)

lemma toy_serves:
  "serve toy toy_new (launch_env ''1'' ''1'' ''tok'' ''/w/host.sock'' ''/w'') plain_fs es w es' =
     run_module toy ''/w/toy.sock'' (plain_fs\<lparr>fs_nodes := [''/w/toy.sock'' \<mapsto> SocketFile mode_0600 True]\<rparr>)
       es w es' (toy_new ''tok'')"
  by (simp add: serve_unfold negotiate_def window_1 Contains_def ModuleProtocol_def handshake_env_def
      moduleAddr_def toy_addr toy_listen)

section \<open>Properties\<close>

text \<open>
  C26: the exit code 78 means a protocol refusal and nothing else: the process exits with it
  exactly when core's window is readable and leaves the module's protocol out, and then it has
  not listened, printed or answered anything.
\<close>
theorem exit_78_iff_refused:
  assumes "serve M ns env f es w es' = Some out"
  shows "(Serve_exit (so_error out) = 78 \<longleftrightarrow>
      (\<exists>win. ParseWindow (os_Getenv env EnvProtocolMin) (os_Getenv env EnvProtocolMax) = Inr win \<and>
         \<not> Contains win ModuleProtocol)) \<and>
    (Serve_exit (so_error out) = 78 \<longrightarrow> so_fs out = f \<and> so_stdout out = [] \<and> so_server out = None)"
  using assms
proof (cases rule: serve_cases)
  case (Refused e)
  then show ?thesis
    using negotiate_refuses [of env "m_ID M"] Serve_exit_78 [of "so_error out"]
    by (auto simp: serve_fails_def ExitProtocolUnsupported_def)
next
  case (Ran win token hostAddr addr f')
  then have "\<not> (\<exists>i p w. so_error out = Some (ProtocolOutOfWindow i p w))"
    by (auto simp: run_module_error split: wake.splits)
  then show ?thesis
    using Ran(1) Serve_exit_78 [of "so_error out"] by (auto simp: negotiate_Inr ExitProtocolUnsupported_def)
qed (use Serve_exit_78 [of "so_error out"] in \<open>auto simp: serve_fails_def negotiate_Inr ExitProtocolUnsupported_def
      handshake_env_not_window moduleAddr_not_window\<close>)

theorem exit_78_iff_refused_witness:
  "Serve_exit (so_error (serve_fails (ProtocolOutOfWindow ''toy'' 1 \<lparr>Min = 2, Max = 3\<rparr>) plain_fs
     :: (unit, plain_ctx, HostData) moduleServer serve_out)) = 78"
proof -
  have w: "ParseWindow ''2'' ''3'' = Inr \<lparr>Min = 2, Max = 3\<rparr>"
    by (simp add: ParseWindow_def parse_uint_def digit_val_def)
  have "serve toy toy_new (launch_env ''2'' ''3'' ''tok'' ''/w/host.sock'' ''/w'') plain_fs [] WakeSignal [] =
      Some (serve_fails (ProtocolOutOfWindow ''toy'' 1 \<lparr>Min = 2, Max = 3\<rparr>) plain_fs)"
    by (simp add: serve_unfold negotiate_def w Contains_def ModuleProtocol_def word_le_nat_alt)
  from exit_78_iff_refused [OF this] show ?thesis by (simp add: w Contains_def ModuleProtocol_def word_le_nat_alt)
qed

text \<open>
  C28: the handshake answer: a module that gets to serving prints exactly one line, names in it
  the socket in core's directory it is already listening on, and core reads that line back
  unchanged exactly when the socket's path has no \<open>|\<close>.
\<close>
theorem handshake_answer:
  assumes "serve M ns env f es w es' = Some out" and "so_server out \<noteq> None"
    and "CHR ''/'' \<notin> set (m_ID M)"
  defines "addr \<equiv> join_path [os_Getenv env EnvSocketDir, m_ID M @ ''.sock'']"
  defines "line \<equiv> \<lparr>Protocol = ModuleProtocol, Network = NetworkUnix, Addr = addr\<rparr>"
  shows "so_stdout out = [Format line] \<and> fst (listen_unix addr f) = Inr addr \<and>
    (Parse (Format line) = Inr line \<longleftrightarrow> CHR ''|'' \<notin> set addr)"
  using assms(1)
proof (cases rule: serve_cases)
  case (Ran win token hostAddr a f')
  have dir: "os_Getenv env EnvSocketDir \<noteq> []" and a: "a = addr"
    using Ran(3) by (auto simp: moduleAddr_def Let_def addr_def split: if_splits)
  have "plain_name (m_ID M @ ''.sock'')" using assms(3) by (auto simp: plain_name_def)
  from join_path_name [OF dir this]
  have addr: "\<exists>xs. addr = xs @ ''.sock''"
    unfolding addr_def by (metis append_Cons append_assoc)
  then have "addr \<noteq> []" "\<not> ends_in_space addr" by (auto simp: suffix_sock_no_space)
  then have "wf_line line \<longleftrightarrow> CHR ''|'' \<notin> set addr"
    by (simp add: wf_line_def line_def ModuleProtocol_def)
  then have "Parse (Format line) = Inr line \<longleftrightarrow> CHR ''|'' \<notin> set addr"
    using Parse_Format_wf Parse_wf by blast
  moreover have "so_stdout out = [Format line]"
    using Ran(5) by (auto simp: run_module_unfold Let_def line_def a split: wake.splits if_splits)
  ultimately show ?thesis using Ran(4) by (simp add: a)
qed (use assms(2) in \<open>simp_all add: serve_fails_def\<close>)

theorem handshake_answer_witness:
  "\<exists>out. serve toy toy_new (launch_env ''1'' ''1'' ''tok'' ''/w/host.sock'' ''/w'') plain_fs [] WakeSignal [] = Some out \<and>
     so_stdout out = [Format \<lparr>Protocol = 1, Network = NetworkUnix, Addr = ''/w/toy.sock''\<rparr>]"
proof -
  obtain out where out: "serve toy toy_new (launch_env ''1'' ''1'' ''tok'' ''/w/host.sock'' ''/w'') plain_fs
      [] WakeSignal [] = Some out" "so_server out \<noteq> None"
    by (simp add: toy_serves run_module_unfold Let_def)
  from handshake_answer [OF this] out(1) show ?thesis by (simp add: toy_addr ModuleProtocol_def)
qed

text \<open>
  C29: a clean exit leaves nothing behind: when the process exits with 0, after a shutdown, a lost
  core or a signal and whatever RPCs came before, its socket file is gone, no job or watchdog is
  running and the connection to core, if there was one, is closed.
\<close>
theorem clean_exit_releases:
  assumes "serve M (\<lambda>token. newServer m sv token ap fe) env f es w es' = Some out"
    and "Serve_exit (so_error out) = 0"
  shows "\<exists>s. so_server out = Some s \<and>
    (\<forall>h. ms_host s = Some h \<longrightarrow> hc_jobWG h = [] \<and> hc_jobCancel h = None \<and> hc_closed h) \<and>
    fs_nodes (so_fs out) (join_path [os_Getenv env EnvSocketDir, m_ID M @ ''.sock'']) = None"
  using assms(1)
proof (cases rule: serve_cases)
  case (Ran win token hostAddr addr f')
  have addr: "addr = join_path [os_Getenv env EnvSocketDir, m_ID M @ ''.sock'']"
    using Ran(3) by (auto simp: moduleAddr_def Let_def split: if_splits)
  let ?s = "run_events M es' (run_events M es (newServer m sv token ap fe))"
  have "srv_ok ?s" by (intro srv_ok_run srv_ok_newServer)
  note rel = release_host_done [OF this]
  from Ran(5) assms(2) have "so_server out = Some (release_host ?s)" "so_fs out = close_listener addr f'"
    by (auto simp: run_module_unfold Let_def Serve_exit_def split: wake.splits if_splits)
  with rel show ?thesis
    unfolding addr by (auto simp: close_listener_def split: option.splits)
qed (use assms(2) in \<open>auto simp: serve_fails_def Serve_exit_def ExitProtocolUnsupported_def split: serve_error.splits\<close>)

theorem clean_exit_releases_witness:
  "\<exists>out s h. serve toy (\<lambda>token. newServer () NewHostData token plain_append plain_from_error)
      (launch_env ''1'' ''1'' ''tok'' ''/w/host.sock'' ''/w'') plain_fs
      [EInit [] toy_request (Inr toy_rpc)] WakeSignal [] = Some out \<and>
    so_server out = Some s \<and> ms_host s = Some h \<and> hc_jobWG h = [] \<and> hc_closed h"
proof -
  have init: "run_events toy [EInit [] toy_request (Inr toy_rpc)] (toy_new ''tok'') = toy_inited"
    using toy_Init_ok by (simp add: toy_server_def toy_new_def)
  obtain out s where out: "serve toy toy_new (launch_env ''1'' ''1'' ''tok'' ''/w/host.sock'' ''/w'') plain_fs
      [EInit [] toy_request (Inr toy_rpc)] WakeSignal [] = Some out" "Serve_exit (so_error out) = 0"
      "so_server out = Some s" "s = release_host toy_inited"
    unfolding toy_serves run_module_unfold init Let_def by (simp add: Serve_exit_def)
  obtain h where h: "ms_host s = Some h"
    unfolding out(4) by (simp add: release_host_def toy_inited_def)
  from clean_exit_releases [OF out(1) [unfolded toy_new_def [abs_def]] out(2)] out(3) h
  have "hc_jobWG h = [] \<and> hc_closed h" by auto
  with out(1,3) h show ?thesis unfolding toy_new_def [abs_def] by blast
qed

end
