(* ===== verification/ServeReport.thy ===== *)
theory ServeReport
  imports ModuleLog Serve
begin

text \<open>
  What the process says about itself: the error texts of \<open>serve\<close> (\<open>modulesdk/serve.go\<close>, with those
  of \<open>handshake.go\<close> and \<open>ipc_unix.go\<close> it wraps), the log lines of its shutdown, what \<open>Serve\<close>
  writes to stderr before it exits, and the stock gRPC health statuses it registers.  The texts
  of the standard library's own errors and \<open>%q\<close> are arguments (\<open>msgs\<close>).
\<close>

section \<open>Error texts\<close>

record error_texts =
  tx_quote :: "string \<Rightarrow> string"
  tx_status :: "grpc_code \<Rightarrow> string \<Rightarrow> string"
  tx_os :: "os_error \<Rightarrow> string"

fun handshake_error_text :: "error_texts \<Rightarrow> handshake_error \<Rightarrow> string" where
  "handshake_error_text msgs (MalformedLine s) = ''handshake: malformed line '' @ tx_quote msgs s"
| "handshake_error_text msgs (UnsupportedLineVersion s) =
     ''handshake: unsupported line version '' @ tx_quote msgs s"
| "handshake_error_text msgs (BadProtocol s) = ''handshake: bad protocol '' @ tx_quote msgs s"
| "handshake_error_text msgs (UnknownNetwork s) = ''handshake: unknown network '' @ tx_quote msgs s"
| "handshake_error_text msgs EmptyAddress = ''handshake: empty address''"
| "handshake_error_text msgs (BadBound key s) = ''handshake: bad '' @ key @ '' '' @ tx_quote msgs s"
| "handshake_error_text msgs (InvalidWindow lo hi) =
     ''handshake: invalid window ['' @ dec_of_nat lo @ '','' @ dec_of_nat hi @ '']''"

fun listen_error_text :: "error_texts \<Rightarrow> listen_error \<Rightarrow> string" where
  "listen_error_text msgs (ClearingStale e) = ''ipc: clearing stale socket: '' @ tx_os msgs e"
| "listen_error_text msgs (ListenFailed e) = tx_os msgs e"

definition by_hand :: string where
  "by_hand = '' unset '' @ [CHR 0xE2, CHR 0x80, CHR 0x94] @ '' modules are launched by core, not by hand''"

definition errProtocolUnsupported :: string where
  "errProtocolUnsupported = ''protocol out of window''"

fun serve_error_text :: "error_texts \<Rightarrow> serve_error \<Rightarrow> string" where
  "serve_error_text msgs (ReadingWindow e) = ''reading protocol window: '' @ handshake_error_text msgs e"
| "serve_error_text msgs (ProtocolOutOfWindow ident p win) =
     ''module '' @ ident @ '' speaks protocol '' @ dec_of_nat (unat p) @ '', outside advertised window ['' @
     dec_of_nat (unat (Min win)) @ '','' @ dec_of_nat (unat (Max win)) @ '']: '' @ errProtocolUnsupported"
| "serve_error_text msgs EnvIncomplete =
     ''handshake environment incomplete: '' @ EnvToken @ ''/'' @ EnvHostAddr @ by_hand"
| "serve_error_text msgs (RandFailed e) = error_text (tx_status msgs) e"
| "serve_error_text msgs SocketDirUnset = EnvSocketDir @ by_hand"
| "serve_error_text msgs (ListeningOn addr e) = ''listening on '' @ addr @ '': '' @ listen_error_text msgs e"
| "serve_error_text msgs (GrpcServerFailed e) = ''grpc server: '' @ error_text (tx_status msgs) e"

section \<open>Log lines and the exit\<close>

text \<open>One item of stderr: a plain line, or a record of the JSON handler with its \<open>With\<close> calls.\<close>

datatype stderr_item = PlainLine string | JsonRecord "fallback_op list" slog_record

definition log_call :: "std_file json_handler \<Rightarrow> slog_record \<Rightarrow> stderr_item list" where
  "log_call log r = (if json_Enabled log (r_Level r) then [JsonRecord (jh_ops log) r] else [])"

definition serve_record :: "Level \<Rightarrow> string \<Rightarrow> int \<Rightarrow> attr list \<Rightarrow> slog_record" where
  "serve_record l m now as = \<lparr>r_Level = level_value l, r_Message = m, r_TimeMs = now, r_Attrs = as\<rparr>"

text \<open>The \<open>select\<close>'s log lines; \<open>sig\<close> is the name of the signal received.\<close>

fun wake_log :: "int \<Rightarrow> string \<Rightarrow> wake \<Rightarrow> slog_record option" where
  "wake_log now sig WakeShutdown = Some (serve_record LevelInfo ''shutdown requested by core'' now [])"
| "wake_log now sig WakeHostLost =
     Some (serve_record LevelWarn ''core connection lost; exiting to avoid orphaning'' now [])"
| "wake_log now sig WakeSignal = Some (serve_record LevelInfo ''signal received'' now [(''signal'', sig)])"
| "wake_log now sig (WakeServeFailed e) = None"

definition serve_log :: "std_file json_handler \<Rightarrow> int \<Rightarrow> string \<Rightarrow> wake \<Rightarrow> 'srv serve_out \<Rightarrow> stderr_item list" where
  "serve_log log now sig w out =
     (if so_server out = None then []
      else case wake_log now sig w of None \<Rightarrow> [] | Some r \<Rightarrow> log_call log r)"

record process_end =
  pe_code :: nat
  pe_stdout :: "string list"
  pe_stderr :: "stderr_item list"

definition Serve_end ::
  "error_texts \<Rightarrow> environ \<Rightarrow> string \<Rightarrow> int \<Rightarrow> string \<Rightarrow> wake \<Rightarrow> 'srv serve_out \<Rightarrow> process_end" where
  "Serve_end msgs env ident now sig w out =
     (let log = wlog_Default env ident;
          said = serve_log log now sig w out;
          last_words =
            (case so_error out of
               None \<Rightarrow> []
             | Some (ProtocolOutOfWindow i p win) \<Rightarrow>
                 [PlainLine (serve_error_text msgs (ProtocolOutOfWindow i p win))]
             | Some e \<Rightarrow>
                 log_call log (serve_record LevelError ''module runtime failed'' now [(''err'', serve_error_text msgs e)]))
      in \<lparr>pe_code = Serve_exit (so_error out), pe_stdout = so_stdout out, pe_stderr = said @ last_words\<rparr>)"

section \<open>Stock health\<close>

datatype serving_status = UNKNOWN | SERVING | NOT_SERVING

definition SetServingStatus ::
  "string \<Rightarrow> serving_status \<Rightarrow> (string \<rightharpoonup> serving_status) \<Rightarrow> string \<rightharpoonup> serving_status" where
  "SetServingStatus service st m = m(service \<mapsto> st)"

text \<open>
  \<open>fresh\<close> is what \<open>health.NewServer\<close> starts with.  Nothing of the runtime sets a status later, so
  a probe reads this from the time the socket is served until the process ends.
\<close>

definition stock_health :: "(string \<rightharpoonup> serving_status) \<Rightarrow> string \<Rightarrow> string \<rightharpoonup> serving_status" where
  "stock_health fresh ident = SetServingStatus ident SERVING (SetServingStatus [] SERVING fresh)"

lemma stock_health_serving: "stock_health fresh ident [] = Some SERVING \<and> stock_health fresh ident ident = Some SERVING"
  by (simp add: stock_health_def SetServingStatus_def)

section \<open>Lemmas\<close>

definition refusal_text :: "string \<Rightarrow> Window \<Rightarrow> string" where
  "refusal_text ident win =
     ''module '' @ ident @ '' speaks protocol 1, outside advertised window ['' @ dec_of_nat (unat (Min win)) @
     '','' @ dec_of_nat (unat (Max win)) @ '']: protocol out of window''"

lemma refused_text: "serve_error_text msgs (ProtocolOutOfWindow ident ModuleProtocol win) = refusal_text ident win"
  by (simp add: refusal_text_def ModuleProtocol_def errProtocolUnsupported_def dec_of_nat.simps digit_char_def
      char_of_def bit_0)

lemma error_level_logged: "json_Enabled (wlog_Default env ident) (level_value LevelError)"
  by (cases "LevelFromEnv env") (simp_all add: json_Enabled_def wlog_Default_def wlog_New_def word_sle_eq)

lemma level_sint: "sint (level_value l) = (case l of LevelDebug \<Rightarrow> -4 | LevelInfo \<Rightarrow> 0 | LevelWarn \<Rightarrow> 4 | LevelError \<Rightarrow> 8)"
  by (cases l) simp_all

text \<open>Which branch of \<open>serve\<close> an output comes from, as far as the report asks.\<close>

lemma serve_shape:
  assumes "serve M ns env f es w es' = Some out"
  shows "so_server out = None \<and> (\<exists>e. so_error out = Some e) \<and> so_stdout out = [] \<or>
    so_server out \<noteq> None \<and> (case w of WakeServeFailed e \<Rightarrow> so_error out = Some (GrpcServerFailed e) | _ \<Rightarrow> so_error out = None)"
  using assms
proof (cases rule: serve_cases)
  case (Ran win token hostAddr addr f')
  then show ?thesis by (auto simp: run_module_unfold Let_def split: if_splits wake.splits)
qed (simp_all add: serve_fails_def)

lemma report_cases [consumes 1, case_names Refused Failed Clean]:
  assumes out: "serve M ns env f es w es' = Some out"
  obtains (Refused) win where "so_error out = Some (ProtocolOutOfWindow (m_ID M) ModuleProtocol win)" "so_server out = None"
  | (Failed) e where "so_error out = Some e" "serve_log log now sig w out = []" "\<forall>i p win. e \<noteq> ProtocolOutOfWindow i p win"
  | (Clean) r where "so_error out = None" "so_server out \<noteq> None" "wake_log now sig w = Some r"
proof (cases "so_error out")
  case None
  then have "so_server out \<noteq> None" "wake_log now sig w \<noteq> None" using serve_shape [OF out] by (auto split: wake.splits)
  with Clean None show ?thesis by auto
next
  case (Some e)
  have silent: "serve_log log now sig w out = []"
    using serve_shape [OF out] Some by (auto simp: serve_log_def split: wake.splits)
  show ?thesis
  proof (cases "\<exists>i p win. e = ProtocolOutOfWindow i p win")
    case True
    then obtain i p win where e: "e = ProtocolOutOfWindow i p win" by blast
    show ?thesis
      using out
    proof (cases rule: serve_cases)
      case (Refused e')
      with Some e have "i = m_ID M" "p = ModuleProtocol"
        by (auto simp: serve_fails_def negotiate_def split: sum.splits if_splits)
      with \<open>\<And>win. so_error out = Some (ProtocolOutOfWindow (m_ID M) ModuleProtocol win) \<Longrightarrow> so_server out = None \<Longrightarrow> thesis\<close>
      show ?thesis using Some e Refused by (auto simp: serve_fails_def)
    qed (use Some e in \<open>auto simp: serve_fails_def handshake_env_not_window moduleAddr_not_window run_module_error
          split: wake.splits\<close>)
  qed (use Failed Some silent in auto)
qed

text \<open>Stand-ins for the standard library's texts.\<close>

definition plain_texts :: error_texts where
  "plain_texts = \<lparr>tx_quote = (\<lambda>s. CHR 0x22 # s @ [CHR 0x22]), tx_status = (\<lambda>c m. m), tx_os = (\<lambda>e. ''i/o'')\<rparr>"

section \<open>Properties\<close>

text \<open>
  C27: No exit is silent at the default level, and no failure at any: exit 78 leaves on stderr
  one plain line with the module, its protocol and the window it is outside of; exit 1 one error
  record with the module's component and the failure, whatever the log level; exit 0 one record
  with the reason unless the level is above it.  Stdout never gets any of it.
\<close>
theorem exit_reported:
  fixes msgs now sig
  assumes "serve M ns env f es w es' = Some out"
  defines "pe \<equiv> Serve_end msgs env (m_ID M) now sig w out"
  shows "(pe_code pe = 78 \<longrightarrow> (\<exists>win. pe_stderr pe = [PlainLine (refusal_text (m_ID M) win)])) \<and>
    (pe_code pe = 1 \<longrightarrow> (\<exists>e. so_error out = Some e \<and> pe_stderr pe =
        [JsonRecord [FbAttrs [(''component'', m_ID M)]]
           (serve_record LevelError ''module runtime failed'' now [(''err'', serve_error_text msgs e)])])) \<and>
    (pe_code pe = 0 \<longrightarrow> (\<exists>r. wake_log now sig w = Some r \<and> pe_stderr pe =
        (if sint (level_value (LevelFromEnv env)) \<le> sint (r_Level r)
         then [JsonRecord [FbAttrs [(''component'', m_ID M)]] r] else []))) \<and>
    (pe_code pe = 78 \<or> pe_code pe = 1 \<or> pe_code pe = 0) \<and> pe_stdout pe = so_stdout out"
proof -
  let ?log = "wlog_Default env (m_ID M)"
  have ops: "jh_ops ?log = [FbAttrs [(''component'', m_ID M)]]" by (simp add: wlog_Default_def wlog_New_def)
  have code: "pe_code pe = Serve_exit (so_error out)" "pe_stdout pe = so_stdout out"
    by (simp_all add: pe_def Serve_end_def Let_def)
  have log: "log_call ?log r = (if sint (level_value (LevelFromEnv env)) \<le> sint (r_Level r)
      then [JsonRecord [FbAttrs [(''component'', m_ID M)]] r] else [])" for r
    by (simp add: log_call_def ops json_Enabled_def word_sle_eq) (simp add: wlog_Default_def wlog_New_def)
  have err: "log_call ?log (serve_record LevelError m now as) =
      [JsonRecord [FbAttrs [(''component'', m_ID M)]] (serve_record LevelError m now as)]" for m as
    using error_level_logged [of env "m_ID M"] by (simp add: log_call_def ops serve_record_def)
  show ?thesis
    using assms(1)
  proof (cases rule: report_cases [where log = ?log and now = now and sig = sig])
    case (Refused win)
    then have "pe_stderr pe = [PlainLine (refusal_text (m_ID M) win)]"
      by (simp add: pe_def Serve_end_def Let_def serve_log_def refused_text del: serve_error_text.simps)
    moreover have "pe_code pe = 78" using Refused code by (simp add: Serve_exit_def ExitProtocolUnsupported_def)
    ultimately show ?thesis using code(2) by auto
  next
    case (Failed e)
    then have "Serve_exit (so_error out) = 1" by (auto simp: Serve_exit_def split: serve_error.splits)
    moreover have "pe_stderr pe = [JsonRecord [FbAttrs [(''component'', m_ID M)]]
        (serve_record LevelError ''module runtime failed'' now [(''err'', serve_error_text msgs e)])]"
      using Failed by (auto simp: pe_def Serve_end_def Let_def err split: serve_error.splits)
    ultimately show ?thesis using code Failed(1) by simp
  next
    case (Clean r)
    then have "pe_stderr pe = log_call ?log r" by (auto simp: pe_def Serve_end_def Let_def serve_log_def)
    with Clean code show ?thesis unfolding log by (simp add: Serve_exit_def)
  qed
qed

theorem exit_reported_witness:
  "\<exists>out. serve toy toy_new (launch_env ''1'' ''1'' [] ''/w/host.sock'' ''/w'') plain_fs [] WakeSignal [] = Some out \<and>
     pe_stderr (Serve_end plain_texts (launch_env ''1'' ''1'' [] ''/w/host.sock'' ''/w'') ''toy'' 7 [] WakeSignal out) =
       [JsonRecord [FbAttrs [(''component'', ''toy'')]] (serve_record LevelError ''module runtime failed'' 7
          [(''err'', serve_error_text plain_texts EnvIncomplete)])]"
proof -
  let ?env = "launch_env ''1'' ''1'' [] ''/w/host.sock'' ''/w''"
  obtain out where out: "serve toy toy_new ?env plain_fs [] WakeSignal [] = Some out" "so_error out = Some EnvIncomplete"
    by (simp add: serve_unfold negotiate_def window_1 Contains_def ModuleProtocol_def handshake_env_def serve_fails_def)
  have "pe_code (Serve_end plain_texts ?env (m_ID toy) 7 [] WakeSignal out) = 1"
    by (simp add: Serve_end_def Let_def out(2) Serve_exit_def)
  with exit_reported [OF out(1), where msgs = plain_texts and now = 7 and sig = "[]"] out show ?thesis by auto
qed

end
