(* ===== verification/ProcessEnd.thy ===== *)
theory ProcessEnd
  imports Serve Streams LifecycleProps
begin

text \<open>
  How a module process ends (\<open>modulesdk/serve.go\<close>, \<open>lifecycle.go\<close>, \<open>hostclient.go\<close>): a shutdown
  by core and the loss of core both reach the final \<open>select\<close> of \<open>serve\<close>, whatever was handled
  before.  Here the exit after it is \<open>run_module\<close>'s, one that completes; theory \<open>GracefulExit\<close> has
  it step by step and says when it does.
\<close>

section \<open>Signals stay\<close>

lemma stopLocked_channels:
  "stopLocked M ctx secs s = (r, s') \<Longrightarrow>
   ms_shutdown s' = ms_shutdown s \<and> ms_hostLost s' = ms_hostLost s \<and> ms_watching s' = ms_watching s"
  by (erule stopLocked_elim) simp_all

lemma receive_config_watching: "receive_config M doc s = (err, s1) \<Longrightarrow> ms_watching s1 = ms_watching s"
  by (auto elim!: receive_config_elim)

lemma finish_init_watching:
  assumes "finish_init M req h s = (r, s')" "ms_hostLost s = Some q"
  shows "ms_watching s' = Suc (ms_watching s)"
proof -
  let ?h = "if req_WatchdogIntervalSeconds req > 0
    then setWatchdogInterval (seconds (req_WatchdogIntervalSeconds req)) h else h"
  obtain h2 s2 where cj: "collect_jobs M ?h (s\<lparr>ms_state := stateInited\<rparr>) = (h2, s2)" by fastforce
  then have "ms_hostLost s2 = ms_hostLost s" "ms_watching s2 = ms_watching s"
    by (auto elim!: collect_jobs_elim)
  with assms cj show ?thesis by (auto simp: finish_init_def Let_def split: prod.splits if_splits)
qed

lemma Init_shutdown: "Init M ctx req grpc s = (r, s') \<Longrightarrow> ms_shutdown s' = ms_shutdown s"
  by (erule Init_elim) (auto simp: receive_config_frame elim!: finish_init_elim)

lemma Init_hostLost: "Init M ctx req grpc s = (r, s') \<Longrightarrow> ms_hostLost s' = ms_hostLost s"
  by (erule Init_elim) (auto simp: receive_config_frame elim!: finish_init_elim)

lemma Shutdown_keeps: "\<lbrakk>Shutdown M ctx s = (r, s'); ms_shutdown s \<noteq> []\<rbrakk> \<Longrightarrow> ms_shutdown s' \<noteq> []"
  by (erule Shutdown_elim) (auto dest: stopLocked_channels simp: offer_def)

lemma handle_shutdown:
  assumes "ms_shutdown s \<noteq> []"
  shows "ms_shutdown (snd (handle M e s)) \<noteq> []"
proof (cases e)
  case (EInit ctx req grpc)
  then show ?thesis using assms Init_shutdown [OF surjective_pairing [of "Init M ctx req grpc s"]]
    by (simp add: case_prod_beta)
next
  case (EStart ctx)
  have "ms_shutdown (snd (Start M ctx s)) = ms_shutdown s"
    by (rule Start_elim [OF surjective_pairing [of "Start M ctx s"]]) simp_all
  then show ?thesis using assms EStart by (simp add: case_prod_beta)
next
  case (EStop ctx secs)
  then show ?thesis using assms stopLocked_channels [OF surjective_pairing [of "stopLocked M ctx secs s"]]
    by (simp add: case_prod_beta Stop_def)
next
  case (EShutdown ctx)
  then show ?thesis using Shutdown_keeps [OF surjective_pairing [of "Shutdown M ctx s"] assms]
    by (simp add: case_prod_beta)
qed (use assms in \<open>simp_all add: HealthRpc_def case_prod_beta hostLostSignal_def\<close>)

lemma run_shutdown: "ms_shutdown s \<noteq> [] \<Longrightarrow> ms_shutdown (run_events M es s) \<noteq> []"
  by (induction es arbitrary: s) (simp_all add: handle_shutdown)

section \<open>The watch on core\<close>

text \<open>
  Once \<open>Init\<close> has succeeded, a goroutine is watching the connection or the signal is there
  already.
\<close>

definition watched :: "('m, 'c, 's) moduleServer \<Rightarrow> bool" where
  "watched s \<longleftrightarrow>
     (\<exists>q. ms_hostLost s = Some q \<and> (DidInit True \<in> set (ms_calls s) \<longrightarrow> q \<noteq> [] \<or> 0 < ms_watching s))"

lemma watched_cong:
  "\<lbrakk>ms_hostLost s' = ms_hostLost s; ms_watching s' = ms_watching s;
    DidInit True \<in> set (ms_calls s') \<longleftrightarrow> DidInit True \<in> set (ms_calls s)\<rbrakk> \<Longrightarrow> watched s' = watched s"
  by (simp add: watched_def)

lemma watched_receive_config: "\<lbrakk>receive_config M doc s = (err, s1); watched s\<rbrakk> \<Longrightarrow> watched s1"
  by (auto elim!: receive_config_elim simp: watched_def)

lemma watched_Init:
  assumes "Init M ctx req grpc s = (r, s')" "watched s"
  shows "watched s'"
  using assms(1)
proof (cases rule: Init_elim)
  case (InitError e s1 host m' host' sv')
  from watched_receive_config [OF InitError(2) assms(2)] show ?thesis
    unfolding InitError(6) by (simp add: watched_def)
next
  case (Inited s1 host m' host' sv')
  let ?s = "s1\<lparr>ms_module := m', ms_services := sv', ms_calls := ms_calls s1 @ [DidInit True]\<rparr>"
  from watched_receive_config [OF Inited(4) assms(2)] obtain q where q: "ms_hostLost ?s = Some q"
    by (auto simp: watched_def)
  from Inited(7) have "ms_hostLost s' = ms_hostLost ?s" by (rule finish_init_elim)
  with q finish_init_watching [OF Inited(7) q] show ?thesis by (simp add: watched_def)
qed (use assms(2) in \<open>auto dest: watched_receive_config\<close>)

lemma watched_Start: "\<lbrakk>Start M ctx s = (r, s'); watched s\<rbrakk> \<Longrightarrow> watched s'"
  by (erule Start_elim) (auto simp: watched_def)

lemma watched_stopLocked: "\<lbrakk>stopLocked M ctx secs s = (r, s'); watched s\<rbrakk> \<Longrightarrow> watched s'"
  by (erule stopLocked_elim) (auto simp: watched_def)

lemma watched_Shutdown: "\<lbrakk>Shutdown M ctx s = (r, s'); watched s\<rbrakk> \<Longrightarrow> watched s'"
  by (erule Shutdown_elim) (auto dest!: watched_stopLocked simp: watched_def)

lemma watched_hostLostSignal: "watched s \<Longrightarrow> watched (hostLostSignal s)"
  by (auto simp: watched_def hostLostSignal_def offer_nonempty)

lemma watched_handle: "watched s \<Longrightarrow> watched (snd (handle M e s))"
  by (cases e)
    (auto simp: case_prod_beta Stop_def HealthRpc_def watched_hostLostSignal watched_cong [of "_\<lparr>ms_module := _, ms_calls := _\<rparr>" s]
      intro: watched_Init [OF surjective_pairing] watched_Start [OF surjective_pairing]
        watched_stopLocked [OF surjective_pairing] watched_Shutdown [OF surjective_pairing])

lemma watched_run: "watched s \<Longrightarrow> watched (run_events M es s)"
  by (induction es arbitrary: s) (simp_all add: watched_handle)

lemma watched_newServer: "watched (newServer m sv token ap fe)"
  by (simp add: watched_def newServer_def)

lemma handle_hostLost_keeps:
  assumes "ms_hostLost s = Some q" "q \<noteq> []"
  shows "\<exists>q'. ms_hostLost (snd (handle M e s)) = Some q' \<and> q' \<noteq> []"
proof (cases e)
  case (EInit ctx req grpc)
  then show ?thesis using assms Init_hostLost [OF surjective_pairing [of "Init M ctx req grpc s"]]
    by (simp add: case_prod_beta)
next
  case (EStart ctx)
  have "ms_hostLost (snd (Start M ctx s)) = ms_hostLost s"
    by (rule Start_elim [OF surjective_pairing [of "Start M ctx s"]]) simp_all
  then show ?thesis using assms EStart by (simp add: case_prod_beta)
next
  case (EStop ctx secs)
  then show ?thesis using assms stopLocked_channels [OF surjective_pairing [of "stopLocked M ctx secs s"]]
    by (simp add: case_prod_beta Stop_def)
next
  case (EShutdown ctx)
  have "ms_hostLost (snd (Shutdown M ctx s)) = ms_hostLost s"
    by (rule Shutdown_elim [OF surjective_pairing [of "Shutdown M ctx s"]]) (auto dest: stopLocked_channels)
  then show ?thesis using assms EShutdown by (simp add: case_prod_beta)
qed (use assms in \<open>auto simp: HealthRpc_def case_prod_beta hostLostSignal_def offer_def\<close>)

lemma run_hostLost:
  "\<lbrakk>ms_hostLost s = Some q; q \<noteq> []\<rbrakk> \<Longrightarrow> \<exists>q'. ms_hostLost (run_events M es s) = Some q' \<and> q' \<noteq> []"
proof (induction es arbitrary: s q)
  case (Cons e es)
  from handle_hostLost_keeps [OF Cons.prems, of M e] Cons.IH show ?case by auto
qed simp

definition releases :: "wake \<Rightarrow> bool" where
  "releases w = (case w of WakeServeFailed e \<Rightarrow> False | _ \<Rightarrow> True)"

lemma run_module_clean:
  "\<lbrakk>wake_ready w (run_events M es s0); releases w\<rbrakk> \<Longrightarrow>
   \<exists>out. run_module M addr f es w es' s0 = Some out \<and> Serve_exit (so_error out) = 0"
  by (cases w) (simp_all add: run_module_unfold Let_def Serve_exit_def releases_def)

section \<open>Properties\<close>

text \<open>The module's \<open>Stop\<close> never fails, whatever it is asked and finds.\<close>

definition stop_succeeds :: "'m Module \<Rightarrow> ('c, 's) hostClient itself \<Rightarrow> bool" where
  "stop_succeeds M T \<longleftrightarrow>
     (\<forall>d m ctx (h :: ('c, 's) hostClient) sv. fst (fst (run_prog (m_Stop M d m) ctx h sv)) = None)"

lemma shutdown_handled:
  fixes M :: "'m Module" and s0 :: "('m, 'c, 's) moduleServer"
  assumes "stop_succeeds M TYPE(('c, 's) hostClient)" and "s0 = newServer m sv token ap fe"
  shows "fst (handle M (EShutdown ctx) (run_events M es s0))"
    "ms_shutdown (snd (handle M (EShutdown ctx) (run_events M es s0))) \<noteq> []"
proof -
  let ?s = "run_events M es s0"
  have ok: "srv_ok ?s" unfolding assms(2) by (intro srv_ok_run srv_ok_newServer)
  obtain r s1 where st: "stopLocked M ctx 0 ?s = (r, s1)" by fastforce
  then have "r = Inr ()"
  proof (cases rule: stopLocked_elim)
    case (Failed e host m' host' sv')
    have "fst (fst (run_prog (m_Stop M None (ms_module ?s)) ctx (stopJobs host) (ms_services ?s))) = None"
      using assms(1) by (simp add: stop_succeeds_def)
    with Failed(3) show ?thesis by simp
  qed (use ok in \<open>simp_all add: srv_ok_def\<close>)
  with st have "Shutdown M ctx ?s = (Inr (), s1\<lparr>ms_shutdown := offer 1 () (ms_shutdown s1)\<rparr>)"
    by (simp add: Shutdown_def)
  then show "fst (handle M (EShutdown ctx) ?s)" "ms_shutdown (snd (handle M (EShutdown ctx) ?s)) \<noteq> []"
    by (simp_all add: offer_nonempty)
qed

text \<open>Nothing handled after it can take the shutdown back; the exit is one that completes.\<close>

lemma shutdown_ends_process:
  fixes M :: "'m Module" and s0 :: "('m, 'c, 's) moduleServer"
  assumes "stop_succeeds M TYPE(('c, 's) hostClient)" and "s0 = newServer m sv token ap fe"
  shows "fst (handle M (EShutdown ctx) (run_events M es s0)) \<and>
    (\<exists>out. run_module M addr f (es @ EShutdown ctx # later) WakeShutdown es' s0 = Some out \<and>
       Serve_exit (so_error out) = 0)"
proof -
  note sh = shutdown_handled [OF assms, of ctx es]
  have "ms_shutdown (run_events M (es @ EShutdown ctx # later) s0) \<noteq> []"
    using run_shutdown [OF sh(2), of M later] by (simp add: run_events_append)
  with sh(1) show ?thesis by (simp add: run_module_clean releases_def)
qed

text \<open>
  The loss of core, for an exit that completes: once \<open>Init\<close> has succeeded, and whatever was handled
  since, it makes the process exit with 0.  Whether the exit completes is theory \<open>GracefulExit\<close>.
\<close>
lemma core_loss_ends_process:
  fixes M :: "'m Module" and s0 :: "('m, 'c, 's) moduleServer"
  assumes "s0 = newServer m sv token ap fe" and "DidInit True \<in> set (ms_calls (run_events M es s0))"
    and "\<forall>st \<in> set states. \<not> lost_state st" and "lost_state final"
    and "awaitDisconnect (map (\<lambda>st. (st, True)) states @ (final, True) # unseen) = (connects, result)"
    and "signal = (if result = OnLost then [EHostLost] else [])"
  shows "connects = length states \<and>
    (\<exists>out. run_module M addr f (es @ signal @ later) WakeHostLost es' s0 = Some out \<and>
       Serve_exit (so_error out) = 0)"
proof -
  have "awaitDisconnect (map (\<lambda>st. (st, True)) states @ (final, True) # unseen) = (length states, OnLost)"
    using assms(3,4) by (induction states) (auto simp: lost_state_def)
  with assms(5,6) have sig: "signal = [EHostLost]" "connects = length states" by simp_all
  let ?s = "run_events M es s0"
  have "watched ?s" unfolding assms(1) by (intro watched_run watched_newServer)
  then obtain q where "ms_hostLost ?s = Some q" "q \<noteq> [] \<or> 0 < ms_watching ?s"
    using assms(2) by (auto simp: watched_def)
  then obtain q' where "ms_hostLost (hostLostSignal ?s) = Some q'" "q' \<noteq> []"
    by (cases "ms_watching ?s = 0") (auto simp: hostLostSignal_def offer_nonempty)
  from run_hostLost [OF this, of M later]
  have "wake_ready WakeHostLost (run_events M (es @ signal @ later) s0)"
    by (auto simp: sig(1) run_events_append)
  then show ?thesis using sig(2) by (simp add: run_module_clean releases_def)
qed

lemma core_loss_ends_process_witness:
  "\<exists>out. run_module toy ''/w/toy.sock'' plain_fs
      [EInit [] toy_request (Inr toy_rpc), EHostLost] WakeHostLost [] (toy_new ''tok'') = Some out \<and>
    Serve_exit (so_error out) = 0"
proof -
  have "run_events toy [EInit [] toy_request (Inr toy_rpc)] (toy_new ''tok'') = toy_inited"
    using toy_Init_ok by (simp add: toy_server_def toy_new_def)
  then have "DidInit True \<in> set (ms_calls (run_events toy [EInit [] toy_request (Inr toy_rpc)] (toy_new ''tok'')))"
    by (simp add: toy_inited_def)
  from core_loss_ends_process [OF toy_new_def this, of "[ConnIdle, Ready]" TransientFailure "[]"]
  show ?thesis by (simp add: lost_state_def)
qed

end
