(* ===== verification/GracefulExit.thy ===== *)
theory GracefulExit
  imports ProcessEnd Quiesce
begin

text \<open>
  \<open>serve\<close> while RPCs are in flight (\<open>modulesdk/serve.go\<close>): its main goroutine in the final \<open>select\<close>,
  in \<open>GracefulStop\<close> and in the release of the host, interleaved with the RPCs and with the watch on
  core.  A handler runs as one step, since all but \<open>Health\<close> hold the server's mutex and \<open>Health\<close> is
  one call of the module; its answer goes out later.
  As documented, \<open>GracefulStop\<close> accepts nothing new and returns when all that was accepted is over.
  The stock health service's \<open>Watch\<close> is a stream that ends when its client leaves.
\<close>

section \<open>State and steps\<close>

datatype ('c, 's) in_flight =
    InUnary "('c, 's) event"
  | InHandled "('c, 's) event" bool
  | Answered "('c, 's) event" bool
  | InWatch
  | WatchOver

datatype main_pc = MainSelect | MainDrain wake | MainRelease wake | MainDone wake

record ('m, 'c, 's) serve_world =
  sw_server :: "('m, 'c, 's) moduleServer"
  sw_rpcs :: "('c, 's) in_flight list"
  sw_main :: main_pc

datatype ('c, 's) serve_act =
    GArrive "('c, 's) event"
  | GWatch
  | GHandle nat
  | GAnswer nat
  | GHangUp nat
  | GLost
  | GWake wake
  | GDrained
  | GRelease

fun over :: "('c, 's) in_flight \<Rightarrow> bool" where
  "over (Answered e ok) = True"
| "over WatchOver = True"
| "over _ = False"

definition accept_rpc :: "('c, 's) in_flight \<Rightarrow> ('m, 'c, 's) serve_world \<Rightarrow> ('m, 'c, 's) serve_world option" where
  "accept_rpc r st = (if sw_main st = MainSelect then Some (st\<lparr>sw_rpcs := sw_rpcs st @ [r]\<rparr>) else None)"

definition running :: "('m, 'c, 's) serve_world \<Rightarrow> bool" where
  "running st \<longleftrightarrow> (case sw_main st of MainDone w \<Rightarrow> False | _ \<Rightarrow> True)"

definition handle_rpc ::
  "'m Module \<Rightarrow> nat \<Rightarrow> ('c, 's) event \<Rightarrow> ('m, 'c, 's) serve_world \<Rightarrow> ('m, 'c, 's) serve_world" where
  "handle_rpc M i e st =
     (case handle M e (sw_server st) of
        (ok, s) \<Rightarrow> st\<lparr>sw_server := s, sw_rpcs := (sw_rpcs st)[i := InHandled e ok]\<rparr>)"

definition wake_up :: "wake \<Rightarrow> ('m, 'c, 's) serve_world \<Rightarrow> ('m, 'c, 's) serve_world option" where
  "wake_up w st =
     (if sw_main st = MainSelect \<and> wake_ready w (sw_server st)
      then Some (st\<lparr>sw_main := case w of WakeServeFailed e \<Rightarrow> MainDone w | _ \<Rightarrow> MainDrain w\<rparr>) else None)"

definition drained :: "('m, 'c, 's) serve_world \<Rightarrow> ('m, 'c, 's) serve_world option" where
  "drained st =
     (case sw_main st of
        MainDrain w \<Rightarrow> if list_all over (sw_rpcs st) then Some (st\<lparr>sw_main := MainRelease w\<rparr>) else None
      | _ \<Rightarrow> None)"

definition release :: "('m, 'c, 's) serve_world \<Rightarrow> ('m, 'c, 's) serve_world option" where
  "release st =
     (case sw_main st of
        MainRelease w \<Rightarrow> Some (st\<lparr>sw_server := release_host (sw_server st), sw_main := MainDone w\<rparr>)
      | _ \<Rightarrow> None)"

definition at_rpc ::
  "nat \<Rightarrow> (('c, 's) in_flight \<Rightarrow> ('m, 'c, 's) serve_world option) \<Rightarrow> ('m, 'c, 's) serve_world \<Rightarrow>
   ('m, 'c, 's) serve_world option" where
  "at_rpc i f st = (if running st \<and> i < length (sw_rpcs st) then f (sw_rpcs st ! i) else None)"

definition set_rpc :: "nat \<Rightarrow> ('c, 's) in_flight \<Rightarrow> ('m, 'c, 's) serve_world \<Rightarrow> ('m, 'c, 's) serve_world" where
  "set_rpc i r st = st\<lparr>sw_rpcs := (sw_rpcs st)[i := r]\<rparr>"

fun serve_step ::
  "'m Module \<Rightarrow> ('c, 's) serve_act \<Rightarrow> ('m, 'c, 's) serve_world \<Rightarrow> ('m, 'c, 's) serve_world option" where
  "serve_step M (GArrive e) st = (if e = EHostLost then None else accept_rpc (InUnary e) st)"
| "serve_step M GWatch st = accept_rpc InWatch st"
| "serve_step M (GHandle i) st =
     at_rpc i (\<lambda>r. case r of InUnary e \<Rightarrow> Some (handle_rpc M i e st) | _ \<Rightarrow> None) st"
| "serve_step M (GAnswer i) st =
     at_rpc i (\<lambda>r. case r of InHandled e ok \<Rightarrow> Some (set_rpc i (Answered e ok) st) | _ \<Rightarrow> None) st"
| "serve_step M (GHangUp i) st =
     at_rpc i (\<lambda>r. case r of InWatch \<Rightarrow> Some (set_rpc i WatchOver st) | _ \<Rightarrow> None) st"
| "serve_step M GLost st =
     (if running st then Some (st\<lparr>sw_server := hostLostSignal (sw_server st)\<rparr>) else None)"
| "serve_step M (GWake w) st = wake_up w st"
| "serve_step M GDrained st = drained st"
| "serve_step M GRelease st = release st"

abbreviation serve_steps ::
  "'m Module \<Rightarrow> ('c, 's) serve_act list \<Rightarrow> ('m, 'c, 's) serve_world \<Rightarrow> ('m, 'c, 's) serve_world option" where
  "serve_steps M \<equiv> opt_run (serve_step M)"

definition serve_init :: "('m, 'c, 's) moduleServer \<Rightarrow> ('m, 'c, 's) serve_world" where
  "serve_init s0 = \<lparr>sw_server = s0, sw_rpcs = [], sw_main = MainSelect\<rparr>"

section \<open>The events of a run\<close>

fun act_events :: "('c, 's) serve_act \<Rightarrow> ('m, 'c, 's) serve_world \<Rightarrow> ('c, 's) event list" where
  "act_events (GHandle i) st = (case sw_rpcs st ! i of InUnary e \<Rightarrow> [e] | _ \<Rightarrow> [])"
| "act_events GLost st = [EHostLost]"
| "act_events _ st = []"

fun is_wake :: "('c, 's) serve_act \<Rightarrow> bool" where
  "is_wake (GWake w) = True"
| "is_wake _ = False"

fun events_of ::
  "'m Module \<Rightarrow> ('c, 's) serve_act list \<Rightarrow> ('m, 'c, 's) serve_world \<Rightarrow> ('c, 's) event list" where
  "events_of M [] st = []"
| "events_of M (a # as) st =
     act_events a st @ (case serve_step M a st of None \<Rightarrow> [] | Some st' \<Rightarrow> events_of M as st')"

text \<open>The events before the \<open>select\<close> takes a case, and those after.\<close>

fun events_before ::
  "'m Module \<Rightarrow> ('c, 's) serve_act list \<Rightarrow> ('m, 'c, 's) serve_world \<Rightarrow> ('c, 's) event list" where
  "events_before M [] st = []"
| "events_before M (a # as) st =
     (if is_wake a then []
      else act_events a st @ (case serve_step M a st of None \<Rightarrow> [] | Some st' \<Rightarrow> events_before M as st'))"

fun events_after ::
  "'m Module \<Rightarrow> ('c, 's) serve_act list \<Rightarrow> ('m, 'c, 's) serve_world \<Rightarrow> ('c, 's) event list" where
  "events_after M [] st = []"
| "events_after M (a # as) st =
     (case serve_step M a st of
        None \<Rightarrow> []
      | Some st' \<Rightarrow> if is_wake a then events_of M as st' else events_after M as st')"

section \<open>Lemmas\<close>

lemmas serve_step_defs = accept_rpc_def at_rpc_def handle_rpc_def set_rpc_def wake_up_def drained_def release_def

text \<open>A step that is neither a wake nor the release handles its events and nothing else.\<close>

lemma serve_step_server:
  assumes "serve_step M a st = Some st'" "\<not> is_wake a" "a \<noteq> GRelease"
  shows "sw_server st' = run_events M (act_events a st) (sw_server st)"
  using assms
  by (cases a) (auto simp: serve_step_defs case_prod_beta split: if_splits in_flight.splits main_pc.splits)

lemma serve_step_main:
  assumes "serve_step M a st = Some st'"
  shows "sw_main st' =
    (case a of GWake w \<Rightarrow> (case w of WakeServeFailed e \<Rightarrow> MainDone w | _ \<Rightarrow> MainDrain w)
     | GDrained \<Rightarrow> (case sw_main st of MainDrain w \<Rightarrow> MainRelease w | p \<Rightarrow> p)
     | GRelease \<Rightarrow> (case sw_main st of MainRelease w \<Rightarrow> MainDone w | p \<Rightarrow> p)
     | _ \<Rightarrow> sw_main st)"
  using assms
  by (cases a) (auto simp: serve_step_defs case_prod_beta split: if_splits in_flight.splits main_pc.splits)

lemma serve_step_done: "sw_main st = MainDone w \<Longrightarrow> serve_step M a st = None"
  by (cases a) (auto simp: serve_step_defs running_def split: in_flight.splits)

lemma serve_steps_done: "\<lbrakk>sw_main st = MainDone w; serve_steps M as st = Some st'\<rbrakk> \<Longrightarrow> as = [] \<and> st' = st"
  by (cases as) (auto simp: serve_step_done)

text \<open>After the wake the goroutine drains, releases and is done, in this order.\<close>

lemma drain_run:
  assumes "serve_steps M as st = Some st'" "sw_main st = MainDrain w \<or> sw_main st = MainRelease w"
    and "sw_main st' = MainDone v"
  shows "v = w \<and> sw_server st' = release_host (run_events M (events_of M as st) (sw_server st))"
  using assms
proof (induction as arbitrary: st)
  case (Cons a as)
  then obtain st1 where st1: "serve_step M a st = Some st1" "serve_steps M as st1 = Some st'"
    by (auto split: option.splits)
  show ?case
  proof (cases "a = GRelease")
    case True
    with st1(1) Cons.prems(2) have "sw_main st = MainRelease w" "sw_main st1 = MainDone w"
      "sw_server st1 = release_host (sw_server st)"
      by (auto simp: release_def split: main_pc.splits)
    with serve_steps_done [of st1 w M as st'] st1 Cons.prems(3) True show ?thesis by simp
  next
    case False
    have nw: "\<not> is_wake a"
      using st1(1) Cons.prems(2) by (cases a) (auto simp: wake_up_def split: if_splits)
    have "sw_main st1 = MainDrain w \<or> sw_main st1 = MainRelease w"
      using serve_step_main [OF st1(1)] Cons.prems(2) nw False by (cases a) auto
    from Cons.IH [OF st1(2) this Cons.prems(3)] serve_step_server [OF st1(1) nw False] st1(1)
    show ?thesis by (simp add: run_events_append)
  qed
qed auto

lemma select_run:
  assumes "serve_steps M as st = Some st'" "sw_main st = MainSelect" "sw_main st' = MainDone w"
  shows "wake_ready w (run_events M (events_before M as st) (sw_server st)) \<and>
    sw_server st' =
      (let s1 = run_events M (events_before M as st) (sw_server st) in
       if releases w then release_host (run_events M (events_after M as st) s1) else s1)"
  using assms
proof (induction as arbitrary: st)
  case (Cons a as)
  then obtain st1 where st1: "serve_step M a st = Some st1" "serve_steps M as st1 = Some st'"
    by (auto split: option.splits)
  show ?case
  proof (cases a)
    case (GWake v)
    with st1(1) have r: "wake_ready v (sw_server st)" "sw_server st1 = sw_server st"
      "sw_main st1 = (case v of WakeServeFailed e \<Rightarrow> MainDone v | _ \<Rightarrow> MainDrain v)"
      by (auto simp: wake_up_def split: if_splits)
    show ?thesis
    proof (cases "releases v")
      case True
      then have "sw_main st1 = MainDrain v" using r(3) by (cases v) (simp_all add: releases_def)
      with drain_run [OF st1(2) _ Cons.prems(3), of v] r(1,2) True GWake st1(1) show ?thesis by simp
    next
      case False
      then have d: "sw_main st1 = MainDone v" using r(3) by (cases v) (simp_all add: releases_def)
      from serve_steps_done [OF this st1(2)] Cons.prems(3) d r(1,2) False GWake st1(1) show ?thesis by auto
    qed
  next
    case GRelease
    with st1(1) Cons.prems(2) show ?thesis by (simp add: release_def)
  qed (use serve_step_main [OF st1(1)] serve_step_server [OF st1(1)] Cons.prems st1 Cons.IH [OF st1(2)] in
      \<open>simp_all add: run_events_append Let_def drained_def\<close>)
qed simp

section \<open>Answers\<close>

text \<open>An answer is the handler's own, at its place among the events handled.\<close>

definition answer_of ::
  "'m Module \<Rightarrow> ('c, 's) event list \<Rightarrow> ('m, 'c, 's) moduleServer \<Rightarrow> ('c, 's) in_flight \<Rightarrow> bool" where
  "answer_of M es s0 r \<longleftrightarrow>
     (\<forall>e ok. r = InHandled e ok \<or> r = Answered e ok \<longrightarrow>
        (\<exists>pre post. es = pre @ e # post \<and> ok = fst (handle M e (run_events M pre s0))))"

lemma answer_of_append: "answer_of M es s0 r \<Longrightarrow> answer_of M (es @ fs) s0 r"
  unfolding answer_of_def by (metis append_Cons append_assoc)

definition serve_ok ::
  "'m Module \<Rightarrow> ('c, 's) event list \<Rightarrow> ('m, 'c, 's) moduleServer \<Rightarrow> ('m, 'c, 's) serve_world \<Rightarrow> bool" where
  "serve_ok M es s0 st \<longleftrightarrow>
     (\<forall>r \<in> set (sw_rpcs st). answer_of M es s0 r) \<and>
     (case sw_main st of
        MainRelease w \<Rightarrow> releases w \<and> list_all over (sw_rpcs st)
      | MainDone w \<Rightarrow> releases w \<longrightarrow> list_all over (sw_rpcs st)
      | MainDrain w \<Rightarrow> releases w
      | MainSelect \<Rightarrow> True) \<and>
     (case sw_main st of MainDone w \<Rightarrow> True | _ \<Rightarrow> sw_server st = run_events M es s0)"

lemma serve_ok_set_rpc:
  assumes "\<forall>r \<in> set rs. answer_of M es s0 r" "answer_of M (es @ fs) s0 r"
  shows "\<forall>r \<in> set (rs[i := r]). answer_of M (es @ fs) s0 r"
  using assms set_update_subset_insert [of rs i r] answer_of_append by blast

lemma serve_ok_rpcs:
  assumes "serve_ok M es s0 st" "serve_step M a st = Some st'"
  shows "\<forall>r \<in> set (sw_rpcs st'). answer_of M (es @ act_events a st) s0 r"
proof -
  have all: "\<forall>r \<in> set (sw_rpcs st). answer_of M es s0 r" using assms(1) by (simp add: serve_ok_def)
  note upd = serve_ok_set_rpc [OF all]
  show ?thesis
  proof (cases a)
    case (GHandle i)
    with assms(2) obtain e where i: "sw_rpcs st ! i = InUnary e" "running st"
      and st': "st' = handle_rpc M i e st"
      by (auto simp: at_rpc_def split: if_splits in_flight.splits)
    have "sw_server st = run_events M es s0"
      using assms(1) i(2) by (auto simp: serve_ok_def running_def split: main_pc.splits)
    then have "answer_of M (es @ [e]) s0 (InHandled e (fst (handle M e (sw_server st))))"
      unfolding answer_of_def by auto
    from upd [OF this] show ?thesis by (simp add: st' handle_rpc_def case_prod_beta GHandle i(1))
  next
    case (GAnswer i)
    with assms(2) obtain e ok where i: "i < length (sw_rpcs st)" "sw_rpcs st ! i = InHandled e ok"
      and st': "st' = set_rpc i (Answered e ok) st"
      by (auto simp: at_rpc_def split: if_splits in_flight.splits)
    have "answer_of M es s0 (InHandled e ok)" using all i nth_mem by metis
    then have "answer_of M (es @ []) s0 (Answered e ok)" by (simp add: answer_of_def)
    from upd [OF this] show ?thesis by (simp add: st' set_rpc_def GAnswer)
  next
    case (GHangUp i)
    with assms(2) have st': "st' = set_rpc i WatchOver st"
      by (auto simp: at_rpc_def split: if_splits in_flight.splits)
    have "answer_of M (es @ []) s0 WatchOver" by (simp add: answer_of_def)
    from upd [OF this] show ?thesis by (simp add: st' set_rpc_def GHangUp)
  next
    case (GArrive e)
    with assms(2) have "sw_rpcs st' = sw_rpcs st @ [InUnary e]"
      by (auto simp: accept_rpc_def split: if_splits)
    with all show ?thesis by (simp add: GArrive answer_of_def)
  next
    case GWatch
    with assms(2) have "sw_rpcs st' = sw_rpcs st @ [InWatch]"
      by (auto simp: accept_rpc_def split: if_splits)
    with all show ?thesis by (simp add: GWatch answer_of_def)
  next
    case GLost
    with assms(2) have "sw_rpcs st' = sw_rpcs st" by (auto split: if_splits)
    with all show ?thesis by (simp add: GLost answer_of_append)
  qed (use all assms(2) in \<open>auto simp: wake_up_def drained_def release_def split: if_splits main_pc.splits\<close>)
qed

lemma serve_ok_over:
  assumes "serve_step M a st = Some st'" "list_all over (sw_rpcs st)" "sw_main st \<noteq> MainSelect"
  shows "sw_rpcs st' = sw_rpcs st"
proof -
  have idx: "over (sw_rpcs st ! i)" if "i < length (sw_rpcs st)" for i
    using assms(2) that by (simp add: list_all_length)
  have "False" if "a = GHandle i \<or> a = GAnswer i \<or> a = GHangUp i" for i
    using assms(1) that idx [of i]
    by (cases "sw_rpcs st ! i") (auto simp: at_rpc_def split: if_splits)
  with assms show ?thesis
    by (cases a) (auto simp: accept_rpc_def wake_up_def drained_def release_def split: if_splits main_pc.splits)
qed

lemma serve_ok_step:
  assumes "serve_ok M es s0 st" "serve_step M a st = Some st'"
  shows "serve_ok M (es @ act_events a st) s0 st'"
proof -
  have server: "sw_server st' = run_events M (es @ act_events a st) s0" if "\<forall>w. sw_main st' \<noteq> MainDone w"
  proof -
    have "a \<noteq> GRelease" using assms(2) that by (auto simp: release_def split: main_pc.splits)
    moreover have "sw_server st = run_events M es s0"
      using assms serve_step_done by (fastforce simp: serve_ok_def split: main_pc.splits)
    ultimately show ?thesis
      using serve_step_server [OF assms(2)] assms(2)
      by (cases "is_wake a") (cases a; auto simp: wake_up_def run_events_append split: if_splits)+
  qed
  have main: "case sw_main st' of
        MainRelease w \<Rightarrow> releases w \<and> list_all over (sw_rpcs st')
      | MainDone w \<Rightarrow> releases w \<longrightarrow> list_all over (sw_rpcs st')
      | MainDrain w \<Rightarrow> releases w
      | MainSelect \<Rightarrow> True"
  proof (cases "sw_main st")
    case MainSelect
    with assms(2) serve_step_main [OF assms(2)] show ?thesis
      by (cases a) (auto simp: drained_def release_def releases_def split: wake.splits)
  next
    case (MainDrain w)
    with assms serve_step_main [OF assms(2)] show ?thesis
      by (cases a) (auto simp: drained_def release_def wake_up_def serve_ok_def split: if_splits)
  next
    case (MainRelease w)
    with assms serve_step_main [OF assms(2)] serve_ok_over [OF assms(2)] show ?thesis
      by (cases a) (auto simp: drained_def release_def wake_up_def serve_ok_def)
  qed (use serve_step_done assms(2) in force)
  from serve_ok_rpcs [OF assms] main server show ?thesis
    by (simp add: serve_ok_def split: main_pc.splits)
qed

lemma serve_ok_run:
  "\<lbrakk>serve_ok M es s0 st; serve_steps M as st = Some st'\<rbrakk> \<Longrightarrow> serve_ok M (es @ events_of M as st) s0 st'"
proof (induction as arbitrary: es st)
  case (Cons a as)
  then obtain st1 where st1: "serve_step M a st = Some st1" "serve_steps M as st1 = Some st'"
    by (auto split: option.splits)
  from Cons.IH [OF serve_ok_step [OF Cons.prems(1) st1(1)] st1(2)] st1(1) show ?case by simp
qed simp

lemma serve_ok_init: "serve_ok M [] s0 (serve_init s0)"
  by (simp add: serve_ok_def serve_init_def)

section \<open>Draining\<close>

fun rpc_left :: "('c, 's) in_flight \<Rightarrow> nat" where
  "rpc_left (InUnary e) = 2"
| "rpc_left (InHandled e ok) = 1"
| "rpc_left _ = 0"

fun main_left :: "main_pc \<Rightarrow> nat" where
  "main_left (MainDrain w) = 2"
| "main_left (MainRelease w) = 1"
| "main_left _ = 0"

definition serve_rank :: "('m, 'c, 's) serve_world \<Rightarrow> nat" where
  "serve_rank st = (\<Sum>r \<leftarrow> sw_rpcs st. rpc_left r) + main_left (sw_main st)"

text \<open>The steps that are the process's own: no client and no core does anything.\<close>

fun serve_internal :: "('c, 's) serve_act \<Rightarrow> bool" where
  "serve_internal (GHandle i) = True"
| "serve_internal (GAnswer i) = True"
| "serve_internal GDrained = True"
| "serve_internal GRelease = True"
| "serve_internal _ = False"

lemma rpc_left_update:
  "\<lbrakk>i < length rs; rpc_left r < rpc_left (rs ! i)\<rbrakk> \<Longrightarrow>
   (\<Sum>r \<leftarrow> rs[i := r]. rpc_left r) < (\<Sum>r \<leftarrow> rs. rpc_left r)"
  using sum_list_update_add [of i "map rpc_left rs" "rpc_left r"] by (simp add: map_update)

lemma serve_rank_step:
  "\<lbrakk>serve_step M a st = Some st'; serve_internal a\<rbrakk> \<Longrightarrow> serve_rank st' < serve_rank st"
  by (cases a) (auto simp: serve_step_defs case_prod_beta serve_rank_def intro!: rpc_left_update
      split: if_splits in_flight.splits main_pc.splits)

definition serve_reached :: "'m Module \<Rightarrow> ('m, 'c, 's) moduleServer \<Rightarrow> ('m, 'c, 's) serve_world \<Rightarrow> bool" where
  "serve_reached M s0 st \<longleftrightarrow> (\<exists>es. serve_ok M es s0 st)"

lemma serve_reached_step: "\<lbrakk>serve_reached M s0 st; serve_step M a st = Some st'\<rbrakk> \<Longrightarrow> serve_reached M s0 st'"
  unfolding serve_reached_def using serve_ok_step by blast

lemma serve_reached_run: "serve_steps M as (serve_init s0) = Some st \<Longrightarrow> serve_reached M s0 st"
  unfolding serve_reached_def using serve_ok_run [OF serve_ok_init] by blast

interpretation draining: quiescing "serve_step M" serve_internal "serve_reached M s0" serve_rank
  for M s0
  by unfold_locales (auto intro: serve_reached_step serve_rank_step)

text \<open>The process's own steps neither open nor end a stock health watch.\<close>

lemma in_set_update_other:
  assumes "i < length xs" "xs ! i \<noteq> y" "x \<noteq> y"
  shows "y \<in> set (xs[i := x]) \<longleftrightarrow> y \<in> set xs"
proof
  assume "y \<in> set xs"
  then obtain j where "j < length xs" "xs ! j = y" by (auto simp: in_set_conv_nth)
  with assms(2) have "xs[i := x] ! j = y" "j < length (xs[i := x])" by (cases "j = i"; simp)+
  then show "y \<in> set (xs[i := x])" using nth_mem by blast
qed (use assms(3) set_update_subset_insert [of xs i x] in blast)

lemma watches_step:
  "\<lbrakk>serve_step M a st = Some st'; serve_internal a\<rbrakk> \<Longrightarrow>
   InWatch \<in> set (sw_rpcs st') \<longleftrightarrow> InWatch \<in> set (sw_rpcs st)"
  by (cases a) (auto simp: serve_step_defs case_prod_beta in_set_update_other
      split: if_splits in_flight.splits main_pc.splits)

lemma drain_step:
  assumes "serve_step M a st = Some st'" "serve_internal a"
    and "sw_main st \<in> {MainDrain w, MainRelease w, MainDone w}"
  shows "sw_main st' \<in> {MainDrain w, MainRelease w, MainDone w}"
  using serve_step_main [OF assms(1)] assms(2,3) by (cases a) auto

lemma drain_steps:
  "\<lbrakk>serve_steps M as st = Some st'; \<forall>a \<in> set as. serve_internal a;
    sw_main st \<in> {MainDrain w, MainRelease w, MainDone w}\<rbrakk> \<Longrightarrow>
   (InWatch \<in> set (sw_rpcs st') \<longleftrightarrow> InWatch \<in> set (sw_rpcs st)) \<and>
   sw_main st' \<in> {MainDrain w, MainRelease w, MainDone w}"
proof (induction as arbitrary: st)
  case (Cons a as)
  then obtain st1 where st1: "serve_step M a st = Some st1" "serve_steps M as st1 = Some st'"
    by (auto split: option.splits)
  from Cons.prems(2) have a: "serve_internal a" "\<forall>a \<in> set as. serve_internal a" by simp_all
  from Cons.IH [OF st1(2) a(2) drain_step [OF st1(1) a(1) Cons.prems(3)]] watches_step [OF st1(1) a(1)]
  show ?case by simp
qed simp

text \<open>At rest everything is answered, and the goroutine waits for stock health watches or not at all.\<close>

lemma rest_over:
  assumes "quiescent (serve_step M) serve_internal st" "running st" "r \<in> set (sw_rpcs st)"
  shows "over r \<or> r = InWatch"
proof -
  from assms(3) obtain i where i: "i < length (sw_rpcs st)" "sw_rpcs st ! i = r" by (auto simp: in_set_conv_nth)
  have "serve_step M (GHandle i) st = None" "serve_step M (GAnswer i) st = None"
    using quiescentD [OF assms(1), of "GHandle i"] quiescentD [OF assms(1), of "GAnswer i"] by simp_all
  with i assms(2) show ?thesis by (cases r) (auto simp: at_rpc_def)
qed

lemma rest_main:
  assumes "quiescent (serve_step M) serve_internal st" "serve_reached M s0 st" "releases w"
    and "sw_main st \<in> {MainDrain w, MainRelease w, MainDone w}"
  shows "sw_main st = MainDone w \<longleftrightarrow> InWatch \<notin> set (sw_rpcs st)"
proof
  assume "sw_main st = MainDone w"
  then have "list_all over (sw_rpcs st)" using assms(2,3) by (auto simp: serve_reached_def serve_ok_def)
  then show "InWatch \<notin> set (sw_rpcs st)" by (auto simp: list_all_iff)
next
  assume nw: "InWatch \<notin> set (sw_rpcs st)"
  have "serve_step M GRelease st = None" "serve_step M GDrained st = None"
    using quiescentD [OF assms(1), of GRelease] quiescentD [OF assms(1), of GDrained] by simp_all
  moreover have "list_all over (sw_rpcs st)" if "sw_main st = MainDrain w"
    using rest_over [OF assms(1)] nw that by (auto simp: list_all_iff running_def)
  ultimately show "sw_main st = MainDone w" using assms(4) by (auto simp: release_def drained_def)
qed

lemma serve_rank_bound: "serve_rank st \<le> 2 * length (sw_rpcs st) + main_left (sw_main st)"
proof -
  have "(\<Sum>r \<leftarrow> rs. rpc_left r) \<le> 2 * length rs" for rs :: "('b, 'c) in_flight list"
  proof (induction rs)
    case (Cons r rs)
    have "rpc_left r \<le> 2" by (cases r) simp_all
    with Cons show ?case by simp
  qed simp
  then show ?thesis by (simp add: serve_rank_def)
qed

lemma drained_at_rest:
  assumes "serve_reached M s0 st" "sw_main st = MainDrain w"
    and bs: "\<forall>b \<in> set bs. serve_internal b" "serve_steps M bs st = Some st'"
  shows "length bs \<le> 2 * length (sw_rpcs st) + 2"
    "quiescent (serve_step M) serve_internal st' \<Longrightarrow>
      (\<forall>r \<in> set (sw_rpcs st'). over r \<or> r = InWatch) \<and>
      (sw_main st' = MainDone w \<longleftrightarrow> InWatch \<notin> set (sw_rpcs st))"
proof -
  from draining.run_bounded [OF assms(1) bs]
  have reached': "serve_reached M s0 st'" and len: "length bs \<le> serve_rank st" by simp_all
  from len serve_rank_bound [of st] assms(2) show "length bs \<le> 2 * length (sw_rpcs st) + 2" by simp
  assume rest: "quiescent (serve_step M) serve_internal st'"
  have w: "releases w" using assms(1,2) by (auto simp: serve_reached_def serve_ok_def)
  from drain_steps [OF bs(2,1), of w] assms(2)
  have main: "sw_main st' \<in> {MainDrain w, MainRelease w, MainDone w}"
    and watch: "InWatch \<in> set (sw_rpcs st') \<longleftrightarrow> InWatch \<in> set (sw_rpcs st)" by simp_all
  have "over r \<or> r = InWatch" if "r \<in> set (sw_rpcs st')" for r
  proof (cases "running st'")
    case True
    then show ?thesis by (rule rest_over [OF rest _ that])
  next
    case False
    then have "sw_main st' = MainDone w" using main by (auto simp: running_def)
    with reached' w have "list_all over (sw_rpcs st')" by (auto simp: serve_reached_def serve_ok_def)
    with that show ?thesis by (simp add: list_all_iff)
  qed
  with rest_main [OF rest reached' w main] watch
  show "(\<forall>r \<in> set (sw_rpcs st'). over r \<or> r = InWatch) \<and>
      (sw_main st' = MainDone w \<longleftrightarrow> InWatch \<notin> set (sw_rpcs st))" by blast
qed

text \<open>The process's own steps keep what a handler answered, up to its going out.\<close>

lemma answer_step:
  assumes "serve_step M a st = Some st'" "i < length (sw_rpcs st)"
    and "sw_rpcs st ! i \<in> {InHandled e ok, Answered e ok}"
  shows "i < length (sw_rpcs st') \<and> sw_rpcs st' ! i \<in> {InHandled e ok, Answered e ok}"
  using assms
  by (cases a) (auto simp: serve_step_defs case_prod_beta nth_append nth_list_update
      split: if_splits in_flight.splits main_pc.splits)

lemma answer_steps:
  "\<lbrakk>serve_steps M as st = Some st'; i < length (sw_rpcs st); sw_rpcs st ! i \<in> {InHandled e ok, Answered e ok}\<rbrakk> \<Longrightarrow>
   i < length (sw_rpcs st') \<and> sw_rpcs st' ! i \<in> {InHandled e ok, Answered e ok}"
proof (induction as arbitrary: st)
  case (Cons a as)
  then obtain st1 where st1: "serve_step M a st = Some st1" "serve_steps M as st1 = Some st'"
    by (auto split: option.splits)
  from answer_step [OF st1(1) Cons.prems(2,3)] Cons.IH [OF st1(2)] show ?case by blast
qed simp

text \<open>A signal that core is lost stays, and whoever finds it wakes; an exit after one is clean.\<close>

definition lost_seen :: "('m, 'c, 's) serve_world \<Rightarrow> bool" where
  "lost_seen st \<longleftrightarrow> (\<exists>q. ms_hostLost (sw_server st) = Some q \<and> q \<noteq> [])"

lemma release_hostLost: "ms_hostLost (release_host s) = ms_hostLost s"
  by (simp add: release_host_def split: option.split)

lemma lost_seen_step: "\<lbrakk>serve_step M a st = Some st'; lost_seen st\<rbrakk> \<Longrightarrow> lost_seen st'"
proof -
  assume step: "serve_step M a st = Some st'" and lost: "lost_seen st"
  show ?thesis
  proof (cases "is_wake a \<or> a = GRelease")
    case True
    then have "ms_hostLost (sw_server st') = ms_hostLost (sw_server st)"
      using step by (cases a) (auto simp: wake_up_def release_def release_hostLost split: if_splits main_pc.splits)
    with lost show ?thesis by (simp add: lost_seen_def)
  next
    case False
    with serve_step_server [OF step] lost show ?thesis by (auto simp: lost_seen_def dest: run_hostLost)
  qed
qed

lemma lost_seen_run: "\<lbrakk>serve_steps M as st = Some st'; lost_seen st\<rbrakk> \<Longrightarrow> lost_seen st'"
  by (induction as arbitrary: st) (auto split: option.splits dest: lost_seen_step)

lemma lost_wakes:
  "\<lbrakk>lost_seen st; sw_main st = MainSelect\<rbrakk> \<Longrightarrow>
   serve_step M (GWake WakeHostLost) st = Some (st\<lparr>sw_main := MainDrain WakeHostLost\<rparr>)"
  by (auto simp: lost_seen_def wake_up_def)

lemma watched_lost:
  assumes "watched (sw_server st)" "DidInit True \<in> set (ms_calls (sw_server st))" "sw_main st = MainSelect"
  shows "\<exists>st1. serve_step M GLost st = Some st1 \<and> lost_seen st1"
proof -
  from assms(1,2) obtain q where "ms_hostLost (sw_server st) = Some q" "q \<noteq> [] \<or> 0 < ms_watching (sw_server st)"
    by (auto simp: watched_def)
  with assms(3) show ?thesis
    by (cases "ms_watching (sw_server st) = 0")
      (auto simp: running_def lost_seen_def hostLostSignal_def offer_nonempty)
qed

lemma serve_done_exit:
  assumes "serve_steps M as (serve_init s0) = Some st" "sw_main st = MainDone w" "releases w"
  shows "\<exists>es es' out. run_module M addr f es w es' s0 = Some out \<and> so_server out = Some (sw_server st) \<and>
    Serve_exit (so_error out) = 0"
proof -
  have "sw_main (serve_init s0) = MainSelect" "sw_server (serve_init s0) = s0"
    by (simp_all add: serve_init_def)
  with select_run [OF assms(1) _ assms(2)] assms(3) show ?thesis
    by (intro exI [of _ "events_before M as (serve_init s0)"] exI [of _ "events_after M as (serve_init s0)"], cases w)
      (simp_all add: run_module_unfold Let_def releases_def Serve_exit_def)
qed

lemma drain_exits:
  assumes all: "serve_steps M as (serve_init s0) = Some st" and main: "sw_main st = MainDrain w" and "releases w"
  shows "\<exists>bs st'. (\<forall>b \<in> set bs. serve_internal b) \<and> serve_steps M bs st = Some st' \<and>
      quiescent (serve_step M) serve_internal st'" (is ?settles)
    and "\<forall>bs st'. (\<forall>b \<in> set bs. serve_internal b) \<and> serve_steps M bs st = Some st' \<longrightarrow>
      length bs \<le> 2 * length (sw_rpcs st) + 2 \<and>
      (quiescent (serve_step M) serve_internal st' \<longrightarrow>
        (\<forall>r \<in> set (sw_rpcs st'). over r \<or> r = InWatch) \<and>
        (sw_main st' = MainDone w \<longleftrightarrow> InWatch \<notin> set (sw_rpcs st))) \<and>
      (sw_main st' = MainDone w \<longrightarrow> (\<exists>es es' out. run_module M addr f es w es' s0 = Some out \<and>
        so_server out = Some (sw_server st') \<and> Serve_exit (so_error out) = 0))"
proof -
  note reached = serve_reached_run [OF all]
  show ?settles by (rule draining.settles [OF reached])
  show "\<forall>bs st'. (\<forall>b \<in> set bs. serve_internal b) \<and> serve_steps M bs st = Some st' \<longrightarrow>
      length bs \<le> 2 * length (sw_rpcs st) + 2 \<and>
      (quiescent (serve_step M) serve_internal st' \<longrightarrow>
        (\<forall>r \<in> set (sw_rpcs st'). over r \<or> r = InWatch) \<and>
        (sw_main st' = MainDone w \<longleftrightarrow> InWatch \<notin> set (sw_rpcs st))) \<and>
      (sw_main st' = MainDone w \<longrightarrow> (\<exists>es es' out. run_module M addr f es w es' s0 = Some out \<and>
        so_server out = Some (sw_server st') \<and> Serve_exit (so_error out) = 0))"
  proof (intro allI impI, elim conjE)
    fix bs st' assume bs: "\<forall>b \<in> set bs. serve_internal b" "serve_steps M bs st = Some st'"
    have "serve_steps M (as @ bs) (serve_init s0) = Some st'"
      by (subst opt_run_append) (simp only: all option.case bs(2))
    from serve_done_exit [OF this _ assms(3)] drained_at_rest [OF reached main bs]
    show "length bs \<le> 2 * length (sw_rpcs st) + 2 \<and>
      (quiescent (serve_step M) serve_internal st' \<longrightarrow>
        (\<forall>r \<in> set (sw_rpcs st'). over r \<or> r = InWatch) \<and>
        (sw_main st' = MainDone w \<longleftrightarrow> InWatch \<notin> set (sw_rpcs st))) \<and>
      (sw_main st' = MainDone w \<longrightarrow> (\<exists>es es' out. run_module M addr f es w es' s0 = Some out \<and>
        so_server out = Some (sw_server st') \<and> Serve_exit (so_error out) = 0))" by blast
  qed
qed

lemma lost_serve:
  assumes "s0 = newServer m sv token ap fe" "serve_steps M as (serve_init s0) = Some st"
    and "sw_main st = MainSelect" "DidInit True \<in> set (ms_calls (sw_server st))"
  shows "\<exists>st1. serve_step M GLost st = Some st1 \<and> lost_seen st1"
proof -
  have "serve_ok M (events_of M as (serve_init s0)) s0 st" using serve_ok_run [OF serve_ok_init assms(2)] by simp
  then have "sw_server st = run_events M (events_of M as (serve_init s0)) s0" using assms(3) by (simp add: serve_ok_def)
  then have "watched (sw_server st)" unfolding assms(1) by (simp add: watched_run watched_newServer)
  from watched_lost [OF this assms(4,3)] show ?thesis .
qed

lemma awaitDisconnect_lost:
  "\<lbrakk>\<forall>x \<in> set states. \<not> lost_state x; lost_state final\<rbrakk> \<Longrightarrow>
   awaitDisconnect (map (\<lambda>x. (x, True)) states @ (final, True) # unseen) = (length states, OnLost)"
  by (induction states) (auto simp: lost_state_def)

section \<open>Properties\<close>

text \<open>
  C7: the exit of a serving process, RPCs in flight and all: whenever its main goroutine is done,
  under any interleaving of RPCs, health streams and the watch on core, the outcome is that of
  \<open>run_module\<close> on the events before the wake and those handled while draining; each RPC's answer
  is its own handler's at its place among these events; and after a graceful stop every RPC that
  was accepted has been answered and every stream has ended.
\<close>
theorem serve_run_refines_run_module:
  assumes "serve_steps M as (serve_init s0) = Some st" and "sw_main st = MainDone w"
    and "es = events_before M as (serve_init s0)" and "es' = events_after M as (serve_init s0)"
  shows "(\<exists>out. run_module M addr f es w es' s0 = Some out \<and> so_server out = Some (sw_server st)) \<and>
    (\<forall>r \<in> set (sw_rpcs st). answer_of M (events_of M as (serve_init s0)) s0 r) \<and>
    (releases w \<longrightarrow> (\<forall>r \<in> set (sw_rpcs st). over r))"
proof (intro conjI)
  have ok: "serve_ok M (events_of M as (serve_init s0)) s0 st"
    using serve_ok_run [OF serve_ok_init assms(1)] by simp
  then show "\<forall>r \<in> set (sw_rpcs st). answer_of M (events_of M as (serve_init s0)) s0 r"
    "releases w \<longrightarrow> (\<forall>r \<in> set (sw_rpcs st). over r)"
    using assms(2) by (simp_all add: serve_ok_def list_all_iff)
  have "sw_main (serve_init s0) = MainSelect" "sw_server (serve_init s0) = s0"
    by (simp_all add: serve_init_def)
  with select_run [OF assms(1) _ assms(2)]
  show "\<exists>out. run_module M addr f es w es' s0 = Some out \<and> so_server out = Some (sw_server st)"
    by (cases w) (simp_all add: assms(3,4) run_module_unfold Let_def releases_def)
qed

theorem serve_run_refines_run_module_witness:
  "\<exists>st out. serve_steps toy [GArrive (EShutdown []), GArrive EHealth, GHandle 0, GWake WakeShutdown, GHandle 1,
      GAnswer 1, GAnswer 0, GDrained, GRelease] (serve_init (toy_new ''tok'')) = Some st \<and>
    run_module toy ''/w/toy.sock'' plain_fs [EShutdown []] WakeShutdown [EHealth] (toy_new ''tok'') = Some out \<and>
    so_server out = Some (sw_server st)"
proof -
  let ?as = "[GArrive (EShutdown []), GArrive EHealth, GHandle 0, GWake WakeShutdown, GHandle 1,
      GAnswer 1, GAnswer 0, GDrained, GRelease] :: (plain_ctx, HostData) serve_act list"
  let ?s = "serve_init (toy_new ''tok'')"
  note defs = serve_init_def serve_step_defs running_def case_prod_beta
  have ready: "ms_shutdown (snd (Shutdown toy [] (toy_new ''tok''))) \<noteq> []"
    by (simp add: toy_new_def newServer_def Shutdown_def stopLocked_def Let_def offer_def)
  obtain st where st: "serve_steps toy ?as ?s = Some st" "sw_main st = MainDone WakeShutdown"
    using ready by (auto simp: defs)
  have "events_before toy ?as ?s = [EShutdown []]" "events_after toy ?as ?s = [EHealth]"
    using ready by (auto simp: defs)
  with serve_run_refines_run_module [OF st refl refl, of "''/w/toy.sock''" plain_fs] st(1)
  show ?thesis by auto
qed

text \<open>
  C18: a graceful stop ends exactly when no stock health watch is left open: from every state
  reached with the stop under way, no schedule of the process's own steps is longer than two per
  RPC and two more, one leads to rest, and at rest every unary RPC is answered, while the process is
  done if and only if no client was watching the stock health service.
\<close>
theorem graceful_stop_ends_iff:
  assumes "serve_steps M as (serve_init s0) = Some st" and "sw_main st = MainDrain w"
  shows "(\<exists>bs st'. (\<forall>b \<in> set bs. serve_internal b) \<and> serve_steps M bs st = Some st' \<and>
      quiescent (serve_step M) serve_internal st') \<and>
    (\<forall>bs st'. (\<forall>b \<in> set bs. serve_internal b) \<and> serve_steps M bs st = Some st' \<longrightarrow>
      length bs \<le> 2 * length (sw_rpcs st) + 2 \<and>
      (quiescent (serve_step M) serve_internal st' \<longrightarrow>
        (\<forall>r \<in> set (sw_rpcs st'). over r \<or> r = InWatch) \<and>
        (sw_main st' = MainDone w \<longleftrightarrow> InWatch \<notin> set (sw_rpcs st))))"
  using draining.settles [OF serve_reached_run [OF assms(1)]] drained_at_rest [OF serve_reached_run [OF assms(1)] assms(2)]
  by blast

theorem graceful_stop_ends_iff_witness:
  "\<exists>st. serve_steps toy [GWatch, GArrive EHealth, GWake WakeSignal] (serve_init (toy_new ''tok'')) = Some st \<and>
    (\<exists>bs st'. (\<forall>b \<in> set bs. serve_internal b) \<and> serve_steps toy bs st = Some st' \<and> length bs \<le> 6 \<and>
      sw_main st' \<noteq> MainDone WakeSignal \<and> (\<forall>r \<in> set (sw_rpcs st'). over r \<or> r = InWatch))"
proof -
  obtain st where st: "serve_steps toy [GWatch, GArrive EHealth, GWake WakeSignal] (serve_init (toy_new ''tok'')) = Some st"
    "sw_main st = MainDrain WakeSignal" "sw_rpcs st = [InWatch, InUnary EHealth]"
    by (simp add: serve_init_def serve_step_defs)
  from graceful_stop_ends_iff [OF st(1,2)] obtain bs st' where
    bs: "\<forall>b \<in> set bs. serve_internal b" "serve_steps toy bs st = Some st'"
    "quiescent (serve_step toy) serve_internal st'" by blast
  with graceful_stop_ends_iff [OF st(1,2)] have "length bs \<le> 2 * length (sw_rpcs st) + 2"
    "\<forall>r \<in> set (sw_rpcs st'). over r \<or> r = InWatch" "sw_main st' = MainDone WakeSignal \<longleftrightarrow> InWatch \<notin> set (sw_rpcs st)"
    by blast+
  with st bs(1,2) show ?thesis by auto
qed

text \<open>
  C10: core can always end a module, whatever is under way: in every state that RPCs, health streams
  and the watch on core can reach before the process is woken, a \<open>Shutdown\<close> to a module whose own
  \<open>Stop\<close> does not fail wakes the process; from then on every schedule of the process's own steps is
  bounded, and at its end the \<open>Shutdown\<close> has been answered without error and the process is done,
  unless a client is watching the stock health service.
\<close>
theorem shutdown_exits_in_flight:
  fixes M :: "'m Module" and s0 :: "('m, 'c, 's) moduleServer"
  assumes "stop_succeeds M TYPE(('c, 's) hostClient)" and "s0 = newServer m sv token ap fe"
    and "serve_steps M as (serve_init s0) = Some st" and "sw_main st = MainSelect" and "n = length (sw_rpcs st)"
  shows "\<exists>st1. serve_steps M [GArrive (EShutdown ctx), GHandle n, GWake WakeShutdown] st = Some st1 \<and>
    (\<forall>bs st'. (\<forall>b \<in> set bs. serve_internal b) \<and> serve_steps M bs st1 = Some st' \<longrightarrow>
      length bs \<le> 2 * n + 4 \<and>
      (quiescent (serve_step M) serve_internal st' \<longrightarrow>
        sw_rpcs st' ! n = Answered (EShutdown ctx) True \<and>
        (sw_main st' = MainDone WakeShutdown \<longleftrightarrow> InWatch \<notin> set (sw_rpcs st))))"
proof -
  have "serve_ok M (events_of M as (serve_init s0)) s0 st"
    using serve_ok_run [OF serve_ok_init assms(3)] by simp
  then have s: "sw_server st = run_events M (events_of M as (serve_init s0)) s0"
    using assms(4) by (simp add: serve_ok_def)
  have sh: "fst (handle M (EShutdown ctx) (sw_server st))" "ms_shutdown (snd (handle M (EShutdown ctx) (sw_server st))) \<noteq> []"
    unfolding s by (rule shutdown_handled [OF assms(1,2)])+
  let ?as = "[GArrive (EShutdown ctx), GHandle n, GWake WakeShutdown]"
  obtain st1 where st1: "serve_steps M ?as st = Some st1" "sw_main st1 = MainDrain WakeShutdown"
    "sw_rpcs st1 = sw_rpcs st @ [InHandled (EShutdown ctx) True]"
    using sh assms(4,5)
    by (auto simp: serve_step_defs running_def case_prod_beta simp del: handle.simps split: main_pc.splits)
  have "serve_steps M (as @ ?as) (serve_init s0) = Some st1"
    by (simp only: opt_run_append assms(3) option.case st1(1))
  note reached = serve_reached_run [OF this]
  have "length bs \<le> 2 * n + 4 \<and>
      (quiescent (serve_step M) serve_internal st' \<longrightarrow>
        sw_rpcs st' ! n = Answered (EShutdown ctx) True \<and>
        (sw_main st' = MainDone WakeShutdown \<longleftrightarrow> InWatch \<notin> set (sw_rpcs st)))"
    if bs: "\<forall>b \<in> set bs. serve_internal b" "serve_steps M bs st1 = Some st'" for bs st'
  proof -
    have n: "n < length (sw_rpcs st')" "sw_rpcs st' ! n \<in> {InHandled (EShutdown ctx) True, Answered (EShutdown ctx) True}"
      using answer_steps [OF bs(2), of n "EShutdown ctx" True] by (simp_all add: st1(3) assms(5))
    then have "over (sw_rpcs st' ! n) \<or> sw_rpcs st' ! n = InWatch \<longrightarrow> sw_rpcs st' ! n = Answered (EShutdown ctx) True"
      by auto
    with drained_at_rest [OF reached st1(2) bs] nth_mem [OF n(1)] show ?thesis
      by (auto simp: st1(3) assms(5))
  qed
  with st1(1) show ?thesis by blast
qed

theorem shutdown_exits_in_flight_witness:
  "\<exists>st st1. serve_steps toy [GArrive EHealth, GArrive (EStart []), GHandle 1] (serve_init (toy_new ''tok'')) = Some st \<and>
    serve_steps toy [GArrive (EShutdown []), GHandle 2, GWake WakeShutdown] st = Some st1 \<and>
    (\<exists>bs st'. (\<forall>b \<in> set bs. serve_internal b) \<and> serve_steps toy bs st1 = Some st' \<and> length bs \<le> 8 \<and>
      sw_rpcs st' ! 2 = Answered (EShutdown []) True \<and> sw_main st' = MainDone WakeShutdown)"
proof -
  let ?as = "[GArrive EHealth, GArrive (EStart []), GHandle 1] :: (plain_ctx, HostData) serve_act list"
  have stop: "stop_succeeds toy TYPE((plain_ctx, HostData) hostClient)" by (simp add: stop_succeeds_def)
  obtain st where st: "serve_steps toy ?as (serve_init (toy_new ''tok'')) = Some st" "sw_main st = MainSelect"
    "length (sw_rpcs st) = 2" "InWatch \<notin> set (sw_rpcs st)"
    by (simp add: serve_init_def serve_step_defs running_def case_prod_beta)
  from shutdown_exits_in_flight [OF stop toy_new_def st(1,2) refl, of "[]"] st(3,4)
  obtain st1 where st1: "serve_steps toy [GArrive (EShutdown []), GHandle 2, GWake WakeShutdown] st = Some st1"
    and all: "\<And>bs st'. \<lbrakk>\<forall>b \<in> set bs. serve_internal b; serve_steps toy bs st1 = Some st'\<rbrakk> \<Longrightarrow>
      length bs \<le> 8 \<and> (quiescent (serve_step toy) serve_internal st' \<longrightarrow>
        sw_rpcs st' ! 2 = Answered (EShutdown []) True \<and> sw_main st' = MainDone WakeShutdown)" by auto
  have "serve_steps toy (?as @ [GArrive (EShutdown []), GHandle 2, GWake WakeShutdown]) (serve_init (toy_new ''tok'')) = Some st1"
    by (simp only: opt_run_append st(1) option.case st1)
  from draining.settles [OF serve_reached_run [OF this]] all st(1) st1 show ?thesis by blast
qed

text \<open>
  C17: A module does not outlive core, a stock health watch apart.  In any state that RPCs, health
  streams and the watch on core can reach before the process is woken, once \<open>Init\<close> has succeeded,
  let the connection to core be lost: the first state that is shut down or failing, as
  \<open>awaitDisconnect\<close> sees the states.  Then its signal is there, and whatever is accepted and handled
  after it, the process can wake on it as long as it has not woken on something else.  From that
  wake some run of the process's own steps comes to rest and every one is bounded; where one rests
  every unary RPC is answered, and the process is done, with exit code 0, if and only if no client
  was watching the stock health service.
\<close>
theorem core_loss_exits_in_flight:
  fixes M :: "'m Module" and s0 :: "('m, 'c, 's) moduleServer"
  assumes "s0 = newServer m sv token ap fe" and "serve_steps M as (serve_init s0) = Some st"
    and "sw_main st = MainSelect" and "DidInit True \<in> set (ms_calls (sw_server st))"
    and "\<forall>x \<in> set states. \<not> lost_state x" and "lost_state final"
    and "awaitDisconnect (map (\<lambda>x. (x, True)) states @ (final, True) # unseen) = (connects, result)"
    and "signal = (if result = OnLost then [GLost] else [])"
  shows "connects = length states \<and> serve_steps M signal st \<noteq> None \<and>
    (\<forall>later st1. serve_steps M (signal @ later) st = Some st1 \<and> sw_main st1 = MainSelect \<longrightarrow>
      (\<exists>st2. serve_step M (GWake WakeHostLost) st1 = Some st2 \<and>
        (\<exists>bs st'. (\<forall>b \<in> set bs. serve_internal b) \<and> serve_steps M bs st2 = Some st' \<and>
          quiescent (serve_step M) serve_internal st') \<and>
        (\<forall>bs st'. (\<forall>b \<in> set bs. serve_internal b) \<and> serve_steps M bs st2 = Some st' \<longrightarrow>
          length bs \<le> 2 * length (sw_rpcs st1) + 2 \<and>
          (quiescent (serve_step M) serve_internal st' \<longrightarrow>
            (\<forall>r \<in> set (sw_rpcs st'). over r \<or> r = InWatch) \<and>
            (sw_main st' = MainDone WakeHostLost \<longleftrightarrow> InWatch \<notin> set (sw_rpcs st1))) \<and>
          (sw_main st' = MainDone WakeHostLost \<longrightarrow> (\<exists>es es' out. run_module M addr f es WakeHostLost es' s0 = Some out \<and>
            so_server out = Some (sw_server st') \<and> Serve_exit (so_error out) = 0)))))"
proof -
  from awaitDisconnect_lost [OF assms(5,6)] assms(7,8)
  have sig: "signal = [GLost]" and connects: "connects = length states" by simp_all
  from lost_serve [OF assms(1-4)] obtain stL where stL: "serve_step M GLost st = Some stL" "lost_seen stL" by blast
  then have signalled: "serve_steps M signal st = Some stL" by (simp add: sig del: serve_step.simps)
  show ?thesis
  proof (intro conjI allI impI)
    fix later st1 assume run: "serve_steps M (signal @ later) st = Some st1 \<and> sw_main st1 = MainSelect"
    let ?st2 = "st1\<lparr>sw_main := MainDrain WakeHostLost\<rparr>"
    from run signalled have "serve_steps M later stL = Some st1" by (simp add: opt_run_append)
    from lost_wakes [OF lost_seen_run [OF this stL(2)] conjunct2 [OF run]]
    have wake: "serve_step M (GWake WakeHostLost) st1 = Some ?st2" .
    have "serve_steps M (as @ signal @ later) (serve_init s0) = Some st1"
      by (subst opt_run_append) (simp only: assms(2) option.case run)
    then have "serve_steps M ((as @ signal @ later) @ [GWake WakeHostLost]) (serve_init s0) = Some ?st2"
      by (subst opt_run_append) (simp only: option.case opt_run.simps wake)
    from drain_exits [OF this, where w = WakeHostLost, simplified] wake
    show "\<exists>st2. serve_step M (GWake WakeHostLost) st1 = Some st2 \<and>
        (\<exists>bs st'. (\<forall>b \<in> set bs. serve_internal b) \<and> serve_steps M bs st2 = Some st' \<and>
          quiescent (serve_step M) serve_internal st') \<and>
        (\<forall>bs st'. (\<forall>b \<in> set bs. serve_internal b) \<and> serve_steps M bs st2 = Some st' \<longrightarrow>
          length bs \<le> 2 * length (sw_rpcs st1) + 2 \<and>
          (quiescent (serve_step M) serve_internal st' \<longrightarrow>
            (\<forall>r \<in> set (sw_rpcs st'). over r \<or> r = InWatch) \<and>
            (sw_main st' = MainDone WakeHostLost \<longleftrightarrow> InWatch \<notin> set (sw_rpcs st1))) \<and>
          (sw_main st' = MainDone WakeHostLost \<longrightarrow> (\<exists>es es' out. run_module M addr f es WakeHostLost es' s0 = Some out \<and>
            so_server out = Some (sw_server st') \<and> Serve_exit (so_error out) = 0)))"
      by (intro exI [of _ ?st2] conjI) (simp_all add: releases_def)
  qed (simp_all add: connects signalled)
qed

theorem core_loss_exits_in_flight_witness:
  "\<exists>st1 st2 out es es'. serve_steps toy [GArrive (EInit [] toy_request (Inr toy_rpc)), GHandle 0, GArrive EHealth, GLost]
      (serve_init (toy_new ''tok'')) = Some st1 \<and>
    serve_step toy (GWake WakeHostLost) st1 = Some st2 \<and>
    (\<exists>bs st'. (\<forall>b \<in> set bs. serve_internal b) \<and> serve_steps toy bs st2 = Some st' \<and> length bs \<le> 6 \<and>
      sw_main st' = MainDone WakeHostLost \<and>
      run_module toy ''/w/toy.sock'' plain_fs es WakeHostLost es' (toy_new ''tok'') = Some out \<and>
      so_server out = Some (sw_server st') \<and> Serve_exit (so_error out) = 0)"
proof -
  let ?as = "[GArrive (EInit [] toy_request (Inr toy_rpc)), GHandle 0, GArrive EHealth] :: (plain_ctx, HostData) serve_act list"
  have "handle toy (EInit [] toy_request (Inr toy_rpc)) (toy_new ''tok'') = (True, toy_inited)"
    using toy_Init_ok by (simp add: toy_server_def toy_new_def)
  then have "\<exists>st. serve_steps toy ?as (serve_init (toy_new ''tok'')) = Some st \<and> sw_main st = MainSelect \<and>
      sw_server st = toy_inited \<and> sw_rpcs st = [InHandled (EInit [] toy_request (Inr toy_rpc)) True, InUnary EHealth]"
    by (simp add: serve_init_def serve_step_defs running_def del: handle.simps)
  then obtain st where st: "serve_steps toy ?as (serve_init (toy_new ''tok'')) = Some st" "sw_main st = MainSelect"
    "sw_server st = toy_inited" "sw_rpcs st = [InHandled (EInit [] toy_request (Inr toy_rpc)) True, InUnary EHealth]"
    by blast
  have did: "DidInit True \<in> set (ms_calls (sw_server st))" by (simp add: st(3) toy_inited_def)
  have aw: "awaitDisconnect (map (\<lambda>x. (x, True)) [ConnIdle, Ready] @ (TransientFailure, True) # []) = (2, OnLost)"
    by (simp add: lost_state_def)
  note loss = core_loss_exits_in_flight [OF toy_new_def st(1,2) did _ _ aw refl, of "''/w/toy.sock''" plain_fs]
  from loss obtain st1 where lost: "serve_steps toy [GLost] st = Some st1" by (auto simp: lost_state_def)
  then have main: "sw_main st1 = MainSelect" "sw_rpcs st1 = sw_rpcs st" using st(2) by (auto split: if_splits)
  have sig: "serve_steps toy ((if OnLost = OnLost then [GLost] else []) @ []) st = Some st1 \<and> sw_main st1 = MainSelect"
    using lost main(1) by simp
  have "\<forall>x \<in> set [ConnIdle, Ready]. \<not> lost_state x" "lost_state TransientFailure" by (simp_all add: lost_state_def)
  from loss [OF this, THEN conjunct2, THEN conjunct2, rule_format, OF sig] obtain st2 where
    st2: "serve_step toy (GWake WakeHostLost) st1 = Some st2"
    and settles: "\<exists>bs st'. (\<forall>b \<in> set bs. serve_internal b) \<and> serve_steps toy bs st2 = Some st' \<and>
          quiescent (serve_step toy) serve_internal st'"
    and all: "\<forall>bs st'. (\<forall>b \<in> set bs. serve_internal b) \<and> serve_steps toy bs st2 = Some st' \<longrightarrow>
          length bs \<le> 2 * length (sw_rpcs st1) + 2 \<and>
          (quiescent (serve_step toy) serve_internal st' \<longrightarrow>
            (\<forall>r \<in> set (sw_rpcs st'). over r \<or> r = InWatch) \<and>
            (sw_main st' = MainDone WakeHostLost \<longleftrightarrow> InWatch \<notin> set (sw_rpcs st1))) \<and>
          (sw_main st' = MainDone WakeHostLost \<longrightarrow> (\<exists>es es' out. run_module toy ''/w/toy.sock'' plain_fs es WakeHostLost es' (toy_new ''tok'') = Some out \<and>
            so_server out = Some (sw_server st') \<and> Serve_exit (so_error out) = 0))" by blast
  from settles obtain bs st' where bs: "(\<forall>b \<in> set bs. serve_internal b) \<and> serve_steps toy bs st2 = Some st'"
    "quiescent (serve_step toy) serve_internal st'" by blast
  from all [rule_format, OF bs(1)] bs(2) have len: "length bs \<le> 6" and main': "sw_main st' = MainDone WakeHostLost"
    by (simp_all add: main(2) st(4))
  with all [rule_format, OF bs(1)] obtain es es' out where
    "run_module toy ''/w/toy.sock'' plain_fs es WakeHostLost es' (toy_new ''tok'') = Some out"
    "so_server out = Some (sw_server st')" "Serve_exit (so_error out) = 0" by blast
  moreover have "serve_steps toy (?as @ [GLost]) (serve_init (toy_new ''tok'')) = Some st1"
    by (subst opt_run_append) (simp only: st(1) option.case lost)
  ultimately show ?thesis using st2 bs(1) len main' unfolding append.simps by blast
qed

end
