(* ===== verification/LogSync.thy ===== *)
theory LogSync
  imports LogHandler Quiesce
begin

text \<open>
  Logging from several goroutines (\<open>modulesdk/loghandler.go\<close>): \<open>send\<close> holds the handler's mutex
  over opening the stream and over \<open>Send\<close>, and the fallback is written without it.  One action of
  \<open>ls_step\<close> is one blocking operation, or a lock section without one.  Every \<open>Handle\<close> call is an
  entry of its own, whichever goroutine makes it, so any number may be under way at once.
\<close>

section \<open>State and steps\<close>

datatype log_pc = LpLock | LpOpen | LpSend nat | LpFallback | LpDone

record handle_call =
  lc_handler :: nat
  lc_rec :: slog_record
  lc_pc :: log_pc

record log_sync =
  ls_world :: log_world
  ls_locked :: "nat set"
  ls_calls :: "handle_call list"

datatype log_act =
    LCall nat slog_record
  | LLock nat
  | LOpen nat bool
  | LSent nat bool
  | LFell nat
  | LDerive nat fallback_op

abbreviation ls_handler :: "log_sync \<Rightarrow> nat \<Rightarrow> streamHandler" where
  "ls_handler st i \<equiv> lw_handlers (ls_world st) ! i"

definition set_handler :: "nat \<Rightarrow> streamHandler \<Rightarrow> log_sync \<Rightarrow> log_sync" where
  "set_handler i h st =
     st\<lparr>ls_world := (ls_world st)\<lparr>lw_handlers := (lw_handlers (ls_world st))[i := h]\<rparr>\<rparr>"

definition take_stream :: "log_sync \<Rightarrow> log_sync" where
  "take_stream st = st\<lparr>ls_world := (ls_world st)\<lparr>lw_nextStream := Suc (lw_nextStream (ls_world st))\<rparr>\<rparr>"

definition put_out :: "delivery \<Rightarrow> log_sync \<Rightarrow> log_sync" where
  "put_out d st = st\<lparr>ls_world := (ls_world st)\<lparr>lw_out := lw_out (ls_world st) @ [d]\<rparr>\<rparr>"

definition mu_lock :: "nat \<Rightarrow> log_sync \<Rightarrow> log_sync" where
  "mu_lock i st = st\<lparr>ls_locked := insert i (ls_locked st)\<rparr>"

definition mu_unlock :: "nat \<Rightarrow> log_sync \<Rightarrow> log_sync" where
  "mu_unlock i st = st\<lparr>ls_locked := ls_locked st - {i}\<rparr>"

definition go_on :: "nat \<Rightarrow> log_pc \<Rightarrow> log_sync \<Rightarrow> log_sync" where
  "go_on t p st = st\<lparr>ls_calls := (ls_calls st)[t := (ls_calls st ! t)\<lparr>lc_pc := p\<rparr>]\<rparr>"

text \<open>The mutex is taken; a handler that is broken or has no client gives it back at once.\<close>

definition send_lock :: "nat \<Rightarrow> handle_call \<Rightarrow> streamHandler \<Rightarrow> log_sync \<Rightarrow> log_sync option" where
  "send_lock t c h st =
     (if lc_pc c = LpLock \<and> lc_handler c \<notin> ls_locked st
      then Some (if sh_broken h \<or> \<not> sh_client h then go_on t LpFallback st
                 else case sh_stream h of
                   Some s \<Rightarrow> go_on t (LpSend s) (mu_lock (lc_handler c) st)
                 | None \<Rightarrow> go_on t LpOpen (mu_lock (lc_handler c) st))
      else None)"

definition send_open :: "bool \<Rightarrow> nat \<Rightarrow> handle_call \<Rightarrow> streamHandler \<Rightarrow> log_sync \<Rightarrow> log_sync option" where
  "send_open ok t c h st =
     (if lc_pc c = LpOpen
      then let s = lw_nextStream (ls_world st) in
        Some (if ok then go_on t (LpSend s)
                (take_stream (set_handler (lc_handler c) (h\<lparr>sh_stream := Some s\<rparr>) st))
              else go_on t LpFallback
                (mu_unlock (lc_handler c) (set_handler (lc_handler c) (h\<lparr>sh_broken := True\<rparr>) st)))
      else None)"

definition send_end :: "bool \<Rightarrow> nat \<Rightarrow> handle_call \<Rightarrow> streamHandler \<Rightarrow> log_sync \<Rightarrow> log_sync option" where
  "send_end ok t c h st =
     (case lc_pc c of
        LpSend s \<Rightarrow>
          Some (if ok then go_on t LpDone
                  (mu_unlock (lc_handler c) (put_out (ToStream s (log_record h (lc_rec c))) st))
                else go_on t LpFallback
                  (mu_unlock (lc_handler c)
                    (set_handler (lc_handler c) (h\<lparr>sh_broken := True, sh_stream := None\<rparr>) st)))
      | _ \<Rightarrow> None)"

definition fall_back :: "nat \<Rightarrow> handle_call \<Rightarrow> streamHandler \<Rightarrow> log_sync \<Rightarrow> log_sync option" where
  "fall_back t c h st =
     (if lc_pc c = LpFallback
      then Some (go_on t LpDone (put_out (ToFallback (sh_fallback h) (lc_rec c)) st))
      else None)"

fun derived :: "fallback_op \<Rightarrow> streamHandler \<Rightarrow> streamHandler" where
  "derived (FbAttrs attrs) h = WithAttrs attrs h"
| "derived (FbGroup name) h = WithGroup name h"

definition derive_handler :: "nat \<Rightarrow> fallback_op \<Rightarrow> log_sync \<Rightarrow> log_sync option" where
  "derive_handler i d st =
     (if i < length (lw_handlers (ls_world st)) \<and> i \<notin> ls_locked st
      then Some (st\<lparr>ls_world := (ls_world st)\<lparr>lw_handlers :=
             lw_handlers (ls_world st) @ [derived d (ls_handler st i)]\<rparr>\<rparr>)
      else None)"

definition at_call ::
  "nat \<Rightarrow> (nat \<Rightarrow> handle_call \<Rightarrow> streamHandler \<Rightarrow> log_sync \<Rightarrow> log_sync option) \<Rightarrow> log_sync \<Rightarrow> log_sync option" where
  "at_call t f st =
     (if t < length (ls_calls st)
      then f t (ls_calls st ! t) (ls_handler st (lc_handler (ls_calls st ! t))) st else None)"

fun ls_step :: "log_act \<Rightarrow> log_sync \<Rightarrow> log_sync option" where
  "ls_step (LCall i r) st =
     (if i < length (lw_handlers (ls_world st))
      then Some (st\<lparr>ls_calls := ls_calls st @ [\<lparr>lc_handler = i, lc_rec = r, lc_pc = LpLock\<rparr>]\<rparr>) else None)"
| "ls_step (LLock t) st = at_call t send_lock st"
| "ls_step (LOpen t ok) st = at_call t (send_open ok) st"
| "ls_step (LSent t ok) st = at_call t (send_end ok) st"
| "ls_step (LFell t) st = at_call t fall_back st"
| "ls_step (LDerive i d) st = derive_handler i d st"

abbreviation ls_run :: "log_act list \<Rightarrow> log_sync \<Rightarrow> log_sync option" where
  "ls_run \<equiv> opt_run ls_step"

definition ls_init :: "fallback_op list \<Rightarrow> bool \<Rightarrow> log_sync" where
  "ls_init fallback client = \<lparr>ls_world = log_init fallback client, ls_locked = {}, ls_calls = []\<rparr>"

lemmas ls_simps = set_handler_def take_stream_def put_out_def mu_lock_def mu_unlock_def go_on_def

lemma at_call_eq_Some:
  "at_call t f st = Some st' \<longleftrightarrow>
     t < length (ls_calls st) \<and> f t (ls_calls st ! t) (ls_handler st (lc_handler (ls_calls st ! t))) st = Some st'"
  by (simp add: at_call_def)

section \<open>The mutex\<close>

text \<open>
  A call between its lock and its unlock is \<open>critical\<close>.  A mutex is held exactly while one call
  of its handler is critical, and what that call found out about the handler stays true.
\<close>

definition critical :: "handle_call \<Rightarrow> bool" where
  "critical c \<longleftrightarrow> lc_pc c = LpOpen \<or> (\<exists>s. lc_pc c = LpSend s)"

definition call_ok :: "streamHandler list \<Rightarrow> nat set \<Rightarrow> handle_call \<Rightarrow> bool" where
  "call_ok hs locked c \<longleftrightarrow>
     lc_handler c < length hs \<and>
     (critical c \<longrightarrow> lc_handler c \<in> locked \<and> \<not> sh_broken (hs ! lc_handler c) \<and> sh_client (hs ! lc_handler c)) \<and>
     (lc_pc c = LpOpen \<longrightarrow> sh_stream (hs ! lc_handler c) = None) \<and>
     (\<forall>s. lc_pc c = LpSend s \<longrightarrow> sh_stream (hs ! lc_handler c) = Some s)"

definition ls_ok :: "log_sync \<Rightarrow> bool" where
  "ls_ok st \<longleftrightarrow>
     handlers_ok (ls_world st) \<and>
     (\<forall>t < length (ls_calls st). call_ok (lw_handlers (ls_world st)) (ls_locked st) (ls_calls st ! t)) \<and>
     (\<forall>t < length (ls_calls st). \<forall>u < length (ls_calls st).
        critical (ls_calls st ! t) \<and> critical (ls_calls st ! u) \<and>
        lc_handler (ls_calls st ! t) = lc_handler (ls_calls st ! u) \<longrightarrow> t = u) \<and>
     (\<forall>i \<in> ls_locked st. \<exists>t < length (ls_calls st). critical (ls_calls st ! t) \<and> lc_handler (ls_calls st ! t) = i)"

lemma ls_okD:
  assumes "ls_ok st"
  shows "handlers_ok (ls_world st)"
    "t < length (ls_calls st) \<Longrightarrow> call_ok (lw_handlers (ls_world st)) (ls_locked st) (ls_calls st ! t)"
    "\<lbrakk>t < length (ls_calls st); u < length (ls_calls st); critical (ls_calls st ! t); critical (ls_calls st ! u);
      lc_handler (ls_calls st ! t) = lc_handler (ls_calls st ! u)\<rbrakk> \<Longrightarrow> t = u"
    "i \<in> ls_locked st \<Longrightarrow> \<exists>t < length (ls_calls st). critical (ls_calls st ! t) \<and> lc_handler (ls_calls st ! t) = i"
  using assms unfolding ls_ok_def by blast+

text \<open>A call that is critical keeps the others out; one at its lock finds none inside.\<close>

lemma ls_ok_apart:
  assumes "ls_ok st" "t < length (ls_calls st)" "u < length (ls_calls st)" "u \<noteq> t" "critical (ls_calls st ! u)"
    and "critical (ls_calls st ! t) \<or> lc_handler (ls_calls st ! t) \<notin> ls_locked st"
  shows "lc_handler (ls_calls st ! u) \<noteq> lc_handler (ls_calls st ! t)"
  using ls_okD(3) [OF assms(1,3,2,5)] ls_okD(2) [OF assms(1,3)] assms(4-6) by (auto simp: call_ok_def)

text \<open>
  One turn of the call \<open>t\<close>: it moves to \<open>p\<close>, and changes its handler to \<open>h'\<close> only if it holds the
  mutex.
\<close>

definition log_turn :: "log_sync \<Rightarrow> nat \<Rightarrow> log_pc \<Rightarrow> streamHandler \<Rightarrow> log_sync \<Rightarrow> bool" where
  "log_turn st t p h' st' \<longleftrightarrow>
     (let c = ls_calls st ! t; c' = c\<lparr>lc_pc := p\<rparr>; i = lc_handler c in
      t < length (ls_calls st) \<and>
      (critical c \<or> i \<notin> ls_locked st \<or> h' = ls_handler st i \<and> \<not> critical c') \<and>
      ls_calls st' = (ls_calls st)[t := c'] \<and>
      lw_handlers (ls_world st') = (lw_handlers (ls_world st))[i := h'] \<and>
      ls_locked st' = (if critical c' then insert i (ls_locked st)
                       else if critical c then ls_locked st - {i} else ls_locked st) \<and>
      call_ok (lw_handlers (ls_world st')) (ls_locked st') c' \<and>
      handlers_ok (ls_world st'))"

lemma log_turn_others:
  assumes "ls_ok st" "log_turn st t p h' st'" "u < length (ls_calls st)" "u \<noteq> t"
  shows "call_ok (lw_handlers (ls_world st')) (ls_locked st') (ls_calls st ! u)"
proof -
  let ?c = "ls_calls st ! t" and ?u = "ls_calls st ! u"
  have u: "call_ok (lw_handlers (ls_world st)) (ls_locked st) ?u" by (rule ls_okD(2) [OF assms(1,3)])
  note turn = assms(2) [unfolded log_turn_def Let_def]
  show ?thesis
  proof (cases "critical ?u \<and> lc_handler ?u = lc_handler ?c")
    case True
    then have "\<not> (critical ?c \<or> lc_handler ?c \<notin> ls_locked st)"
      using ls_ok_apart [OF assms(1) _ assms(3,4)] turn by blast
    with u turn show ?thesis by simp
  next
    case False
    have len: "lc_handler ?u < length (lw_handlers (ls_world st'))"
      using u turn by (simp add: call_ok_def)
    show ?thesis
    proof (cases "critical ?u")
      case True
      with False have ne: "lc_handler ?u \<noteq> lc_handler ?c" by simp
      have "ls_handler st' (lc_handler ?u) = ls_handler st (lc_handler ?u)" using turn ne by simp
      moreover have "lc_handler ?u \<in> ls_locked st'" using turn ne u True by (simp add: call_ok_def)
      ultimately show ?thesis using u len True by (simp add: call_ok_def)
    qed (use len in \<open>simp add: call_ok_def critical_def\<close>)
  qed
qed

lemma log_turn_exclusive:
  assumes "ls_ok st" "log_turn st t p h' st'" "u < length (ls_calls st)" "u \<noteq> t"
    and "critical (ls_calls st ! u)" "critical ((ls_calls st ! t)\<lparr>lc_pc := p\<rparr>)"
  shows "lc_handler (ls_calls st ! u) \<noteq> lc_handler (ls_calls st ! t)"
  using ls_ok_apart [OF assms(1) _ assms(3-5)] assms(2,6) by (auto simp: log_turn_def Let_def)

lemma log_turn_holders:
  assumes "ls_ok st" "log_turn st t p h' st'" "i \<in> ls_locked st'"
  shows "\<exists>u < length (ls_calls st'). critical (ls_calls st' ! u) \<and> lc_handler (ls_calls st' ! u) = i"
proof -
  let ?c = "ls_calls st ! t"
  note turn = assms(2) [unfolded log_turn_def Let_def]
  show ?thesis
  proof (cases "i = lc_handler ?c \<and> critical (?c\<lparr>lc_pc := p\<rparr>)")
    case True
    then show ?thesis using turn by (intro exI [of _ t]) simp
  next
    case False
    with assms(3) turn have i: "i \<in> ls_locked st" "i \<noteq> lc_handler ?c \<or> \<not> critical ?c"
      by (auto split: if_splits)
    from ls_okD(4) [OF assms(1) i(1)] obtain u where
      u: "u < length (ls_calls st)" "critical (ls_calls st ! u)" "lc_handler (ls_calls st ! u) = i" by blast
    then have "u \<noteq> t" using i(2) by auto
    with u turn show ?thesis by (intro exI [of _ u]) simp
  qed
qed

lemma log_turn_ok:
  assumes "ls_ok st" "log_turn st t p h' st'"
  shows "ls_ok st'"
  unfolding ls_ok_def
proof (intro conjI)
  note turn = assms(2) [unfolded log_turn_def Let_def]
  show "\<forall>u < length (ls_calls st'). call_ok (lw_handlers (ls_world st')) (ls_locked st') (ls_calls st' ! u)"
    using log_turn_others [OF assms] turn by (auto simp: nth_list_update)
  show "\<forall>u < length (ls_calls st'). \<forall>v < length (ls_calls st').
      critical (ls_calls st' ! u) \<and> critical (ls_calls st' ! v) \<and>
      lc_handler (ls_calls st' ! u) = lc_handler (ls_calls st' ! v) \<longrightarrow> u = v"
    using ls_okD(3) [OF assms(1)] log_turn_exclusive [OF assms] log_turn_exclusive [OF assms, THEN not_sym] turn
    by (auto simp: nth_list_update split: if_splits)
  show "\<forall>i \<in> ls_locked st'. \<exists>u < length (ls_calls st'). critical (ls_calls st' ! u) \<and> lc_handler (ls_calls st' ! u) = i"
    using log_turn_holders [OF assms] by blast
qed (use assms(2) in \<open>simp add: log_turn_def Let_def\<close>)

section \<open>The steps are turns\<close>

lemma send_lock_elim [consumes 1, case_names Fallen Joins Opening]:
  assumes "send_lock t c h st = Some st'"
  obtains "lc_pc c = LpLock" "lc_handler c \<notin> ls_locked st" "sh_broken h \<or> \<not> sh_client h"
      "st' = go_on t LpFallback st"
  | s where "lc_pc c = LpLock" "lc_handler c \<notin> ls_locked st" "\<not> sh_broken h" "sh_client h"
      "sh_stream h = Some s" "st' = go_on t (LpSend s) (mu_lock (lc_handler c) st)"
  | "lc_pc c = LpLock" "lc_handler c \<notin> ls_locked st" "\<not> sh_broken h" "sh_client h"
      "sh_stream h = None" "st' = go_on t LpOpen (mu_lock (lc_handler c) st)"
  using assms by (auto simp: send_lock_def split: if_splits option.splits)

lemma send_open_elim [consumes 1, case_names Opened OpenFailed]:
  assumes "send_open ok t c h st = Some st'"
  obtains s where "s = lw_nextStream (ls_world st)" "ok" "lc_pc c = LpOpen"
      "st' = go_on t (LpSend s) (take_stream (set_handler (lc_handler c) (h\<lparr>sh_stream := Some s\<rparr>) st))"
  | "\<not> ok" "lc_pc c = LpOpen"
      "st' = go_on t LpFallback
        (mu_unlock (lc_handler c) (set_handler (lc_handler c) (h\<lparr>sh_broken := True\<rparr>) st))"
  using assms by (auto simp: send_open_def Let_def split: if_splits)

lemma send_end_elim [consumes 1, case_names Sent SendFailed]:
  assumes "send_end ok t c h st = Some st'"
  obtains s where "ok" "lc_pc c = LpSend s"
      "st' = go_on t LpDone (mu_unlock (lc_handler c) (put_out (ToStream s (log_record h (lc_rec c))) st))"
  | s where "\<not> ok" "lc_pc c = LpSend s"
      "st' = go_on t LpFallback (mu_unlock (lc_handler c)
        (set_handler (lc_handler c) (h\<lparr>sh_broken := True, sh_stream := None\<rparr>) st))"
  using assms by (auto simp: send_end_def split: if_splits log_pc.splits)

lemma handlers_ok_update:
  assumes "handlers_ok w" "handler_ok n h" "lw_nextStream w \<le> n"
    and "lw_handlers w' = (lw_handlers w)[i := h]" "lw_nextStream w' = n"
  shows "handlers_ok w'"
proof -
  have "set (lw_handlers w') \<subseteq> insert h (set (lw_handlers w))"
    unfolding assms(4) by (rule set_update_subset_insert)
  with assms show ?thesis unfolding handlers_ok_def using handler_ok_mono by blast
qed

lemmas turn_simps = log_turn_def Let_def ls_simps critical_def handlers_ok_def

lemma ls_ok_lock:
  assumes "ls_ok st" "at_call t send_lock st = Some st'"
  shows "ls_ok st'"
proof -
  let ?c = "ls_calls st ! t" let ?h = "ls_handler st (lc_handler ?c)"
  from assms(2) have t: "t < length (ls_calls st)" and f: "send_lock t ?c ?h st = Some st'"
    by (simp_all add: at_call_eq_Some)
  note c = ls_okD(2) [OF assms(1) t] and w = ls_okD(1) [OF assms(1)]
  from f have "\<exists>p. log_turn st t p ?h st'"
  proof (cases rule: send_lock_elim)
    case Fallen
    with t c w have "log_turn st t LpFallback ?h st'" by (simp add: turn_simps call_ok_def)
    then show ?thesis ..
  next
    case (Joins s)
    with t c w have "log_turn st t (LpSend s) ?h st'" by (simp add: turn_simps call_ok_def)
    then show ?thesis ..
  next
    case Opening
    with t c w have "log_turn st t LpOpen ?h st'" by (simp add: turn_simps call_ok_def)
    then show ?thesis ..
  qed
  with log_turn_ok [OF assms(1)] show ?thesis by blast
qed

lemma ls_ok_open:
  assumes "ls_ok st" "at_call t (send_open ok) st = Some st'"
  shows "ls_ok st'"
proof -
  let ?c = "ls_calls st ! t" let ?h = "ls_handler st (lc_handler ?c)"
  from assms(2) have t: "t < length (ls_calls st)" and f: "send_open ok t ?c ?h st = Some st'"
    by (simp_all add: at_call_eq_Some)
  note c = ls_okD(2) [OF assms(1) t] and upd = handlers_ok_update [OF ls_okD(1) [OF assms(1)]]
  from f have "\<exists>p h'. log_turn st t p h' st'"
  proof (cases rule: send_open_elim)
    case (Opened s)
    have "handlers_ok (ls_world st')"
      by (rule upd [of "Suc s" "?h\<lparr>sh_stream := Some s\<rparr>" _ "lc_handler ?c"])
        (use Opened c in \<open>auto simp: ls_simps handler_ok_def call_ok_def critical_def\<close>)
    with Opened t c have "log_turn st t (LpSend s) (?h\<lparr>sh_stream := Some s\<rparr>) st'"
      by (auto simp: log_turn_def Let_def ls_simps critical_def call_ok_def)
    then show ?thesis by blast
  next
    case OpenFailed
    have "handlers_ok (ls_world st')"
      by (rule upd [of "lw_nextStream (ls_world st)" "?h\<lparr>sh_broken := True\<rparr>" _ "lc_handler ?c"])
        (use OpenFailed c in \<open>auto simp: ls_simps handler_ok_def call_ok_def critical_def\<close>)
    with OpenFailed t c have "log_turn st t LpFallback (?h\<lparr>sh_broken := True\<rparr>) st'"
      by (auto simp: log_turn_def Let_def ls_simps critical_def call_ok_def)
    then show ?thesis by blast
  qed
  with log_turn_ok [OF assms(1)] show ?thesis by blast
qed

lemma ls_ok_end:
  assumes "ls_ok st" "at_call t (send_end ok) st = Some st'"
  shows "ls_ok st'"
proof -
  let ?c = "ls_calls st ! t" let ?h = "ls_handler st (lc_handler ?c)"
  from assms(2) have t: "t < length (ls_calls st)" and f: "send_end ok t ?c ?h st = Some st'"
    by (simp_all add: at_call_eq_Some)
  note c = ls_okD(2) [OF assms(1) t] and w = ls_okD(1) [OF assms(1)]
  from f have "\<exists>p h'. log_turn st t p h' st'"
  proof (cases rule: send_end_elim)
    case (Sent s)
    with t c w have "log_turn st t LpDone ?h st'" by (simp add: turn_simps call_ok_def)
    then show ?thesis by blast
  next
    case (SendFailed s)
    let ?h' = "?h\<lparr>sh_broken := True, sh_stream := None\<rparr>"
    have "handlers_ok (ls_world st')"
      by (rule handlers_ok_update [OF w, of "lw_nextStream (ls_world st)" ?h' _ "lc_handler ?c"])
        (use SendFailed in \<open>auto simp: ls_simps handler_ok_def\<close>)
    with SendFailed t c have "log_turn st t LpFallback ?h' st'"
      by (auto simp: log_turn_def Let_def ls_simps critical_def call_ok_def)
    then show ?thesis by blast
  qed
  with log_turn_ok [OF assms(1)] show ?thesis by blast
qed

lemma ls_ok_fell:
  assumes "ls_ok st" "at_call t fall_back st = Some st'"
  shows "ls_ok st'"
proof -
  let ?c = "ls_calls st ! t" let ?h = "ls_handler st (lc_handler ?c)"
  from assms(2) have "t < length (ls_calls st)" "lc_pc ?c = LpFallback"
    "st' = go_on t LpDone (put_out (ToFallback (sh_fallback ?h) (lc_rec ?c)) st)"
    by (auto simp: at_call_eq_Some fall_back_def split: if_splits)
  with ls_okD(1,2) [OF assms(1)] have "log_turn st t LpDone ?h st'" by (simp add: turn_simps call_ok_def)
  with log_turn_ok [OF assms(1)] show ?thesis by blast
qed

lemma ls_ok_call:
  assumes "ls_ok st" "ls_step (LCall i r) st = Some st'"
  shows "ls_ok st'"
proof -
  let ?c = "\<lparr>lc_handler = i, lc_rec = r, lc_pc = LpLock\<rparr>"
  from assms(2) have i: "i < length (lw_handlers (ls_world st))"
    and st': "st' = st\<lparr>ls_calls := ls_calls st @ [?c]\<rparr>" by (auto split: if_splits)
  have nc: "\<not> critical ?c" by (simp add: critical_def)
  have new: "call_ok (lw_handlers (ls_world st)) (ls_locked st) ?c" using i by (simp add: call_ok_def nc)
  show ?thesis
    unfolding ls_ok_def st'
  proof (intro conjI ballI)
    fix j assume "j \<in> ls_locked (st\<lparr>ls_calls := ls_calls st @ [?c]\<rparr>)"
    then have "j \<in> ls_locked st" by simp
    from ls_okD(4) [OF assms(1) this] obtain u where
      "u < length (ls_calls st)" "critical (ls_calls st ! u)" "lc_handler (ls_calls st ! u) = j" by blast
    then show "\<exists>t < length (ls_calls (st\<lparr>ls_calls := ls_calls st @ [?c]\<rparr>)).
        critical (ls_calls (st\<lparr>ls_calls := ls_calls st @ [?c]\<rparr>) ! t) \<and>
        lc_handler (ls_calls (st\<lparr>ls_calls := ls_calls st @ [?c]\<rparr>) ! t) = j"
      by (intro exI [of _ u]) (simp add: nth_append)
  qed (use ls_okD(1-3) [OF assms(1)] new nc in \<open>auto simp: nth_append split: if_splits\<close>)
qed

lemma ls_ok_derive:
  assumes "ls_ok st" "ls_step (LDerive i d) st = Some st'"
  shows "ls_ok st'"
proof -
  let ?h = "derived d (ls_handler st i)"
  from assms(2) have i: "i < length (lw_handlers (ls_world st))"
    and st': "lw_handlers (ls_world st') = lw_handlers (ls_world st) @ [?h]"
      "lw_nextStream (ls_world st') = lw_nextStream (ls_world st)"
      "ls_locked st' = ls_locked st" "ls_calls st' = ls_calls st"
    by (auto simp: derive_handler_def split: if_splits)
  have "handler_ok (lw_nextStream (ls_world st)) ?h"
    using ls_okD(1) [OF assms(1)] i by (cases d) (simp_all add: handlers_ok_def handler_ok_With)
  then have "handlers_ok (ls_world st')" using ls_okD(1) [OF assms(1)] by (simp add: handlers_ok_def st')
  with ls_okD(2-4) [OF assms(1)] show ?thesis
    by (simp add: ls_ok_def st' call_ok_def nth_append less_SucI)
qed

lemma ls_ok_step: "\<lbrakk>ls_ok st; ls_step a st = Some st'\<rbrakk> \<Longrightarrow> ls_ok st'"
  by (cases a) (auto intro: ls_ok_lock ls_ok_open ls_ok_end ls_ok_fell ls_ok_call ls_ok_derive
      simp del: ls_step.simps(1,6))

lemma ls_ok_run: "\<lbrakk>ls_ok st; ls_run as st = Some st'\<rbrakk> \<Longrightarrow> ls_ok st'"
  by (induction as arbitrary: st) (auto split: option.splits dest: ls_ok_step)

lemma ls_ok_init: "ls_ok (ls_init fallback client)"
  by (simp add: ls_ok_def ls_init_def handlers_ok_init)

section \<open>One sender at a time\<close>

text \<open>No handler is derived from one whose stream is open by then.\<close>

fun derives_fresh :: "log_act list \<Rightarrow> log_sync \<Rightarrow> bool" where
  "derives_fresh [] st = True"
| "derives_fresh (a # as) st =
     ((case a of LDerive i d \<Rightarrow> sh_stream (ls_handler st i) = None | _ \<Rightarrow> True) \<and>
      (case ls_step a st of None \<Rightarrow> True | Some st' \<Rightarrow> derives_fresh as st'))"

definition own_streams :: "streamHandler list \<Rightarrow> bool" where
  "own_streams hs \<longleftrightarrow>
     (\<forall>i < length hs. \<forall>j < length hs. \<forall>s. sh_stream (hs ! i) = Some s \<and> sh_stream (hs ! j) = Some s \<longrightarrow> i = j)"

lemma own_streams_update:
  assumes "own_streams hs" "i < length hs"
    and "sh_stream h = sh_stream (hs ! i) \<or> (\<forall>s. sh_stream h = Some s \<longrightarrow> (\<forall>g \<in> set hs. sh_stream g \<noteq> Some s))"
  shows "own_streams (hs[i := h])"
  unfolding own_streams_def
proof (intro allI impI)
  fix j k s
  assume "j < length (hs[i := h])" "k < length (hs[i := h])"
    and s: "sh_stream (hs[i := h] ! j) = Some s \<and> sh_stream (hs[i := h] ! k) = Some s"
  then have len: "j < length hs" "k < length hs" by simp_all
  have other: "x = i" if "x < length hs" "sh_stream (hs ! x) = Some s" "sh_stream h = Some s" for x
  proof -
    have "sh_stream (hs ! i) = Some s" using assms(3) that nth_mem [of x hs] by auto
    with assms(1,2) that show ?thesis unfolding own_streams_def by blast
  qed
  show "j = k"
  proof (cases "j = i \<or> k = i")
    case True
    with s len other [of j] other [of k] assms(2) show ?thesis by (auto simp: nth_list_update split: if_splits)
  next
    case False
    with s len assms(1) show ?thesis by (simp add: own_streams_def)
  qed
qed

lemma own_streams_append:
  "own_streams hs \<Longrightarrow> sh_stream h = None \<Longrightarrow> own_streams (hs @ [h])"
  by (auto simp: own_streams_def nth_append)

lemma fresh_stream: "handlers_ok w \<Longrightarrow> \<forall>g \<in> set (lw_handlers w). sh_stream g \<noteq> Some (lw_nextStream w)"
  by (auto simp: handlers_ok_def handler_ok_def)

lemma own_streams_step:
  assumes "ls_ok st" "ls_step a st = Some st'" "own_streams (lw_handlers (ls_world st))"
    and "case a of LDerive i d \<Rightarrow> sh_stream (ls_handler st i) = None | _ \<Rightarrow> True"
  shows "own_streams (lw_handlers (ls_world st'))"
proof (cases a)
  case (LLock t)
  with assms(2,3) show ?thesis
    by (auto simp: at_call_eq_Some ls_simps elim!: send_lock_elim)
next
  case (LOpen t ok)
  with ls_okD(2) [OF assms(1), of t] assms(2,3) fresh_stream [OF ls_okD(1) [OF assms(1)]] show ?thesis
    by (auto simp: at_call_eq_Some ls_simps call_ok_def elim!: send_open_elim intro!: own_streams_update)
next
  case (LSent t ok)
  with ls_okD(2) [OF assms(1), of t] assms(2,3) show ?thesis
    by (auto simp: at_call_eq_Some ls_simps call_ok_def elim!: send_end_elim intro!: own_streams_update)
next
  case (LDerive i d)
  with assms(2-4) show ?thesis
    by (cases d) (auto simp: derive_handler_def WithAttrs_def WithGroup_def split: if_splits intro!: own_streams_append)
qed (use assms in \<open>auto simp: at_call_eq_Some fall_back_def ls_simps split: if_splits\<close>)

lemma own_streams_run:
  "\<lbrakk>ls_ok st; ls_run as st = Some st'; own_streams (lw_handlers (ls_world st)); derives_fresh as st\<rbrakk> \<Longrightarrow>
   own_streams (lw_handlers (ls_world st'))"
proof (induction as arbitrary: st)
  case (Cons a as)
  then obtain st1 where st1: "ls_step a st = Some st1" "ls_run as st1 = Some st'" by (auto split: option.splits)
  with Cons.prems own_streams_step [OF Cons.prems(1) st1(1)] ls_ok_step [OF Cons.prems(1) st1(1)]
  show ?case by (intro Cons.IH [of st1]) simp_all
qed simp

lemma own_streams_init: "own_streams (lw_handlers (ls_world (ls_init fallback client)))"
  by (simp add: own_streams_def ls_init_def log_init_def)

text \<open>The calls inside \<open>Send\<close> on the stream \<open>s\<close>.\<close>

definition sending :: "nat \<Rightarrow> log_sync \<Rightarrow> nat set" where
  "sending s st = {t. t < length (ls_calls st) \<and> lc_pc (ls_calls st ! t) = LpSend s}"

lemma sending_apart:
  assumes "ls_ok st" "t \<in> sending s st" "u \<in> sending s st"
    and "lc_handler (ls_calls st ! t) = lc_handler (ls_calls st ! u)"
  shows "t = u"
  using assms ls_okD(3) [OF assms(1), of t u] by (auto simp: sending_def critical_def)

lemma sending_one:
  assumes "ls_ok st" "own_streams (lw_handlers (ls_world st))" "t \<in> sending s st" "u \<in> sending s st"
  shows "t = u"
proof (rule sending_apart [OF assms(1,3,4)])
  let ?i = "lc_handler (ls_calls st ! t)" and ?j = "lc_handler (ls_calls st ! u)"
  have "?i < length (lw_handlers (ls_world st)) \<and> sh_stream (ls_handler st ?i) = Some s"
    "?j < length (lw_handlers (ls_world st)) \<and> sh_stream (ls_handler st ?j) = Some s"
    using ls_okD(2) [OF assms(1)] assms(3,4) by (auto simp: sending_def call_ok_def)
  with assms(2) show "?i = ?j" unfolding own_streams_def by blast
qed

section \<open>Derived handlers\<close>

text \<open>
  In every reachable state with a handler on an open stream and its mutex free, one derived
  handler is enough for two goroutines to be inside \<open>Send\<close> on that stream at once: each holds a
  mutex, but not the same.
\<close>

lemma derived_sends_overlap:
  assumes "ls_run as (ls_init fallback client) = Some st" "i < length (lw_handlers (ls_world st))"
    and "sh_stream (ls_handler st i) = Some s" "i \<notin> ls_locked st"
    and "n = length (lw_handlers (ls_world st))" "t = length (ls_calls st)"
  shows "\<exists>st'. ls_run [LDerive i d, LCall i r1, LCall n r2, LLock t, LLock (Suc t)] st = Some st' \<and>
    {t, Suc t} \<subseteq> sending s st'"
proof -
  have ok: "ls_ok st" by (rule ls_ok_run [OF ls_ok_init assms(1)])
  have "handler_ok (lw_nextStream (ls_world st)) (ls_handler st i)"
    using ls_okD(1) [OF ok] assms(2) by (simp add: handlers_ok_def)
  then have h: "\<not> sh_broken (ls_handler st i)" "sh_client (ls_handler st i)"
    using assms(3) by (simp_all add: handler_ok_def)
  have d: "\<not> sh_broken (derived d (ls_handler st i))" "sh_client (derived d (ls_handler st i))"
    "sh_stream (derived d (ls_handler st i)) = Some s"
    using h assms(3) by (cases d; simp add: WithAttrs_def WithGroup_def)+
  have n: "n \<notin> ls_locked st"
  proof
    assume "n \<in> ls_locked st"
    from ls_okD(4) [OF ok this] obtain u where
      "u < length (ls_calls st)" "lc_handler (ls_calls st ! u) = n" by blast
    with ls_okD(2) [OF ok, of u] show False by (simp add: call_ok_def assms(5))
  qed
  show ?thesis
    using assms(2-6) h d n
    by (simp add: derive_handler_def at_call_def send_lock_def ls_simps nth_append sending_def nth_list_update)
qed

section \<open>Properties\<close>

text \<open>
  C11: concurrent log calls keep gRPC's rule of one sender per stream: whatever the goroutines
  and the wire do, as long as no handler is derived from one whose stream is already open, at
  most one call is inside \<open>Send\<close> on any stream; and calls of one handler exclude each other in
  any case.
\<close>
theorem log_sends_exclusive:
  assumes "ls_run as (ls_init fallback client) = Some st" and "t \<in> sending s st" and "u \<in> sending s st"
    and "derives_fresh as (ls_init fallback client) \<or>
      lc_handler (ls_calls st ! t) = lc_handler (ls_calls st ! u)"
  shows "t = u"
proof -
  have ok: "ls_ok st" by (rule ls_ok_run [OF ls_ok_init assms(1)])
  from assms(4) show ?thesis
  proof
    assume "derives_fresh as (ls_init fallback client)"
    from sending_one [OF ok own_streams_run [OF ls_ok_init assms(1) own_streams_init this] assms(2,3)]
    show ?thesis .
  qed (rule sending_apart [OF ok assms(2,3)])
qed

abbreviation plain_record :: slog_record where
  "plain_record \<equiv> \<lparr>r_Level = 0, r_Message = ''a'', r_TimeMs = 1, r_Attrs = []\<rparr>"

theorem log_sends_exclusive_witness:
  "\<exists>st. ls_run [LDerive 0 (FbGroup ''g''), LCall 0 plain_record, LCall 0 plain_record, LCall 1 plain_record,
      LLock 1, LOpen 1 True, LLock 2, LOpen 2 True] (ls_init [] True) = Some st \<and>
    1 \<in> sending 0 st \<and> 2 \<in> sending 1 st \<and> sending 0 st \<subseteq> {1}"
proof -
  let ?as = "[LDerive 0 (FbGroup ''g''), LCall 0 plain_record, LCall 0 plain_record, LCall 1 plain_record,
      LLock 1, LOpen 1 True, LLock 2, LOpen 2 True]"
  note defs = ls_init_def log_init_def newStreamHandler_def WithGroup_def derive_handler_def at_call_def
    send_lock_def send_open_def Let_def ls_simps
  obtain st where st: "ls_run ?as (ls_init [] True) = Some st" and in1: "1 \<in> sending 0 st" "2 \<in> sending 1 st"
    by (simp add: defs sending_def)
  have "derives_fresh ?as (ls_init [] True)" by (simp add: defs)
  with log_sends_exclusive [OF st _ in1(1)] have "\<forall>t. t \<in> sending 0 st \<longrightarrow> t = 1" by blast
  with st in1 show ?thesis by blast
qed

end
