(* ===== verification/LogSerial.thy ===== *)
theory LogSerial
  imports LogSync
begin

text \<open>
  What concurrent log calls come to (\<open>modulesdk/loghandler.go\<close>): every run of \<open>LogSync\<close> is a run of
  the atomic \<open>Handle\<close>, \<open>WithAttrs\<close> and \<open>WithGroup\<close> of \<open>LogHandler\<close>, and the calls return.
\<close>

section \<open>The calls one at a time\<close>

text \<open>
  The operations a run comes to, in the order the calls give back the mutex, each with the number
  a stream it opens takes.  How a wire operation went that an operation does not get to is not
  read, so \<open>False\<close> stands for it.
\<close>

fun serial_op :: "log_act \<Rightarrow> log_sync \<Rightarrow> (log_op \<times> nat) list" where
  "serial_op (LLock t) st =
     (let c = ls_calls st ! t; h = ls_handler st (lc_handler c) in
      if sh_broken h \<or> \<not> sh_client h then [(OpHandle (lc_handler c) (lc_rec c) False False, 0)] else [])"
| "serial_op (LOpen t ok) st =
     (let c = ls_calls st ! t in if ok then [] else [(OpHandle (lc_handler c) (lc_rec c) False False, 0)])"
| "serial_op (LSent t ok) st =
     (let c = ls_calls st ! t in
      case lc_pc c of LpSend s \<Rightarrow> [(OpHandle (lc_handler c) (lc_rec c) True ok, s)] | _ \<Rightarrow> [])"
| "serial_op (LDerive i (FbAttrs attrs)) st = [(OpWithAttrs i attrs, 0)]"
| "serial_op (LDerive i (FbGroup name)) st = [(OpWithGroup i name, 0)]"
| "serial_op a st = []"

fun serial :: "log_act list \<Rightarrow> log_sync \<Rightarrow> (log_op \<times> nat) list" where
  "serial [] st = []"
| "serial (a # as) st =
     serial_op a st @ (case ls_step a st of None \<Rightarrow> [] | Some st' \<Rightarrow> serial as st')"

fun serial_step :: "log_op \<times> nat \<Rightarrow> log_world \<Rightarrow> log_world" where
  "serial_step (op, n) w = log_step op (w\<lparr>lw_nextStream := n\<rparr>)"

definition serial_run :: "(log_op \<times> nat) list \<Rightarrow> log_world \<Rightarrow> log_world" where
  "serial_run ops w = fold serial_step ops w"

fun op_call :: "log_op \<times> nat \<Rightarrow> (nat \<times> slog_record) list" where
  "op_call (OpHandle i r open_ok send_ok, n) = [(i, r)]"
| "op_call (_, n) = []"

fun on_stream :: "delivery \<Rightarrow> bool" where
  "on_stream (ToStream s r) = True"
| "on_stream (ToFallback f r) = False"

text \<open>What the calls still owe to the fallback, and the calls that have given back the mutex.\<close>

definition owed :: "fallback_op list list \<Rightarrow> handle_call \<Rightarrow> delivery multiset" where
  "owed fbs c = (if lc_pc c = LpFallback then {#ToFallback (fbs ! lc_handler c) (lc_rec c)#} else {#})"

definition passed :: "handle_call \<Rightarrow> (nat \<times> slog_record) multiset" where
  "passed c = (if lc_pc c = LpFallback \<or> lc_pc c = LpDone then {#(lc_handler c, lc_rec c)#} else {#})"

abbreviation fallbacks :: "log_sync \<Rightarrow> fallback_op list list" where
  "fallbacks st \<equiv> map sh_fallback (lw_handlers (ls_world st))"

definition serial_view :: "log_sync \<Rightarrow> log_world \<Rightarrow> bool" where
  "serial_view st w \<longleftrightarrow>
     length (lw_handlers w) = length (lw_handlers (ls_world st)) \<and>
     (\<forall>i < length (lw_handlers w). lw_handlers w ! i = ls_handler st i \<or>
        i \<in> ls_locked st \<and> lw_handlers w ! i = (ls_handler st i)\<lparr>sh_stream := None\<rparr>) \<and>
     filter on_stream (lw_out w) = filter on_stream (lw_out (ls_world st)) \<and>
     mset (lw_out w) = mset (lw_out (ls_world st)) + sum_list (map (owed (fallbacks st)) (ls_calls st))"

lemma map_update_same: "f x = f (xs ! i) \<Longrightarrow> map f (xs[i := x]) = map f xs"
  by (cases "i < length xs") (simp_all add: map_update list_update_beyond list_update_same_conv)

lemma sum_go_on:
  fixes f :: "handle_call \<Rightarrow> 'a multiset"
  assumes "t < length cs"
  shows "sum_list (map f (cs[t := (cs ! t)\<lparr>lc_pc := p\<rparr>])) + f (cs ! t) =
    sum_list (map f cs) + f ((cs ! t)\<lparr>lc_pc := p\<rparr>)"
  using sum_list_update_add [of t "map f cs" "f ((cs ! t)\<lparr>lc_pc := p\<rparr>)"] assms by (simp add: map_update)

text \<open>
  A turn leaves the view when the serial run does what it did to the handler, and to the output
  and what is owed.
\<close>

lemma serial_view_turn:
  assumes "serial_view st w" "t < length (ls_calls st)" "i = lc_handler (ls_calls st ! t)"
    and calls: "ls_calls st' = (ls_calls st)[t := (ls_calls st ! t)\<lparr>lc_pc := p\<rparr>]"
    and handlers: "lw_handlers (ls_world st') = (lw_handlers (ls_world st))[i := h']"
      "lw_handlers w' = (lw_handlers w)[i := g']" "sh_fallback h' = sh_fallback (ls_handler st i)"
    and at_i: "g' = h' \<or> i \<in> ls_locked st' \<and> g' = h'\<lparr>sh_stream := None\<rparr>"
    and locked: "ls_locked st - {i} \<subseteq> ls_locked st'"
    and out: "lw_out (ls_world st') = lw_out (ls_world st) @ ds" "lw_out w' = lw_out w @ es"
      "filter on_stream ds = filter on_stream es"
      "mset es + owed (fallbacks st) (ls_calls st ! t) =
        mset ds + owed (fallbacks st) ((ls_calls st ! t)\<lparr>lc_pc := p\<rparr>)"
  shows "serial_view st' w'"
proof -
  have fb: "fallbacks st' = fallbacks st"
    unfolding handlers(1) by (rule map_update_same) (rule handlers(3))
  let ?S = "sum_list (map (owed (fallbacks st)) (ls_calls st))"
    and ?S' = "sum_list (map (owed (fallbacks st)) (ls_calls st'))"
    and ?a = "owed (fallbacks st) (ls_calls st ! t)"
    and ?b = "owed (fallbacks st) ((ls_calls st ! t)\<lparr>lc_pc := p\<rparr>)"
  have "?S' + ?a = ?S + ?b" unfolding calls by (rule sum_go_on [OF assms(2)])
  then have "mset es + ?S + (?S' + ?a) = mset es + ?S + (?S + ?b)" by simp
  then have "(mset es + ?a) + ?S + ?S' = mset es + ?S + ?S + ?b" by (simp add: ac_simps)
  with out(4) have "mset es + ?S = mset ds + ?S'" by (simp add: ac_simps)
  with assms(1) out have "mset (lw_out w') = mset (lw_out (ls_world st')) + ?S'"
    by (simp add: serial_view_def ac_simps)
  moreover have "\<forall>j < length (lw_handlers w'). lw_handlers w' ! j = ls_handler st' j \<or>
      j \<in> ls_locked st' \<and> lw_handlers w' ! j = (ls_handler st' j)\<lparr>sh_stream := None\<rparr>"
  proof (intro allI impI)
    fix j assume "j < length (lw_handlers w')"
    then have j: "j < length (lw_handlers w)" by (simp add: handlers)
    then have "j < length (lw_handlers (ls_world st))" using assms(1) by (simp add: serial_view_def)
    with j at_i locked assms(1) show "lw_handlers w' ! j = ls_handler st' j \<or>
        j \<in> ls_locked st' \<and> lw_handlers w' ! j = (ls_handler st' j)\<lparr>sh_stream := None\<rparr>"
      by (cases "j = i") (auto simp: serial_view_def handlers)
  qed
  ultimately show ?thesis
    using assms(1) out by (simp add: serial_view_def handlers fb [unfolded handlers(1)])
qed

lemma serial_viewD:
  assumes "serial_view st w" "i < length (lw_handlers (ls_world st))"
  shows "i < length (lw_handlers w)"
    "i \<notin> ls_locked st \<Longrightarrow> lw_handlers w ! i = ls_handler st i"
    "lw_handlers w ! i = ls_handler st i \<or> lw_handlers w ! i = (ls_handler st i)\<lparr>sh_stream := None\<rparr>"
    "sh_stream (ls_handler st i) = None \<Longrightarrow> lw_handlers w ! i = ls_handler st i"
  using assms by (auto simp: serial_view_def)

lemma serial_step_OpHandle:
  assumes "i < length (lw_handlers w)" "send open_ok send_ok n (lw_handlers w ! i) = (sent, h', n')"
  shows "lw_handlers (serial_step (OpHandle i r open_ok send_ok, n) w) = (lw_handlers w)[i := h']"
    "lw_out (serial_step (OpHandle i r open_ok send_ok, n) w) =
       lw_out w @ [case sent of Some s \<Rightarrow> ToStream s (log_record (lw_handlers w ! i) r)
                   | None \<Rightarrow> ToFallback (sh_fallback (lw_handlers w ! i)) r]"
  using assms by (simp_all add: Handle_def Let_def)

lemma serial_view_lock:
  assumes "ls_ok st" "serial_view st w" "at_call t send_lock st = Some st'"
  shows "serial_view st' (serial_run (serial_op (LLock t) st) w)"
proof -
  let ?c = "ls_calls st ! t" let ?i = "lc_handler ?c" let ?h = "ls_handler st ?i"
  from assms(3) have t: "t < length (ls_calls st)" and f: "send_lock t ?c ?h st = Some st'"
    by (simp_all add: at_call_eq_Some)
  have i: "?i < length (lw_handlers (ls_world st))" using ls_okD(2) [OF assms(1) t] by (simp add: call_ok_def)
  note v = serial_viewD [OF assms(2) i] and turn = serial_view_turn [OF assms(2) t refl, where h' = "?h" and g' = "?h"]
  have w: "lw_handlers w = (lw_handlers w)[?i := ?h]" if "?i \<notin> ls_locked st" using v(2) [OF that] by (metis list_update_id)
  from f show ?thesis
  proof (cases rule: send_lock_elim)
    case Fallen
    then have wi: "lw_handlers w ! ?i = ?h" using v(2) by simp
    with Fallen have s: "send False False 0 (lw_handlers w ! ?i) = (None, ?h, 0)" by (simp add: send_def)
    show ?thesis
      by (rule turn [where p = LpFallback and ds = "[]" and es = "[ToFallback (sh_fallback ?h) (lc_rec ?c)]"])
        (use Fallen wi i w serial_step_OpHandle [OF v(1) s] in \<open>simp_all add: serial_run_def Let_def ls_simps owed_def del: serial_step.simps\<close>)
  next
    case (Joins s)
    show ?thesis
      by (rule turn [where p = "LpSend s" and ds = "[]" and es = "[]"])
        (use Joins w in \<open>auto simp: serial_run_def Let_def ls_simps owed_def\<close>)
  next
    case Opening
    show ?thesis
      by (rule turn [where p = LpOpen and ds = "[]" and es = "[]"])
        (use Opening w in \<open>auto simp: serial_run_def Let_def ls_simps owed_def\<close>)
  qed
qed

lemma serial_view_open:
  assumes "ls_ok st" "serial_view st w" "at_call t (send_open ok) st = Some st'"
  shows "serial_view st' (serial_run (serial_op (LOpen t ok) st) w)"
proof -
  let ?c = "ls_calls st ! t" let ?i = "lc_handler ?c" let ?h = "ls_handler st ?i"
  from assms(3) have t: "t < length (ls_calls st)" and f: "send_open ok t ?c ?h st = Some st'"
    by (simp_all add: at_call_eq_Some)
  from f have open': "lc_pc ?c = LpOpen" by (auto elim: send_open_elim)
  with ls_okD(2) [OF assms(1) t]
  have i: "?i < length (lw_handlers (ls_world st))" "?i \<in> ls_locked st" "\<not> sh_broken ?h" "sh_client ?h"
    and none: "sh_stream ?h = None" by (simp_all add: call_ok_def critical_def)
  note v = serial_viewD [OF assms(2) i(1)] and turn = serial_view_turn [OF assms(2) t refl]
  have wi: "lw_handlers w ! ?i = ?h" by (rule v(4) [OF none])
  have same: "?h\<lparr>sh_stream := None\<rparr> = ?h" using none by (cases ?h) simp
  have upd: "lw_handlers w = (lw_handlers w)[?i := ?h]" using wi by (metis list_update_id)
  from f show ?thesis
  proof (cases rule: send_open_elim)
    case (Opened s)
    show ?thesis
      by (rule turn [where p = "LpSend s" and h' = "?h\<lparr>sh_stream := Some s\<rparr>" and g' = ?h and ds = "[]" and es = "[]"])
        (use Opened i wi same open' upd in \<open>auto simp: serial_run_def Let_def ls_simps owed_def\<close>)
  next
    case OpenFailed
    have s: "send False False 0 (lw_handlers w ! ?i) = (None, ?h\<lparr>sh_broken := True\<rparr>, 0)"
      using i none wi by (simp add: send_def)
    show ?thesis
      by (rule turn [where p = LpFallback and h' = "?h\<lparr>sh_broken := True\<rparr>" and g' = "?h\<lparr>sh_broken := True\<rparr>"
            and ds = "[]" and es = "[ToFallback (sh_fallback ?h) (lc_rec ?c)]"])
        (use OpenFailed wi i serial_step_OpHandle [OF v(1) s] in
          \<open>simp_all add: serial_run_def Let_def ls_simps owed_def del: serial_step.simps\<close>)
  qed
qed

lemma log_record_stream: "log_record (h\<lparr>sh_stream := x\<rparr>) r = log_record h r"
  by (simp add: log_record_def)

lemma serial_view_end:
  assumes "ls_ok st" "serial_view st w" "at_call t (send_end ok) st = Some st'"
  shows "serial_view st' (serial_run (serial_op (LSent t ok) st) w)"
proof -
  let ?c = "ls_calls st ! t" let ?i = "lc_handler ?c" let ?h = "ls_handler st ?i"
  from assms(3) have t: "t < length (ls_calls st)" and f: "send_end ok t ?c ?h st = Some st'"
    by (simp_all add: at_call_eq_Some)
  from f obtain s where pc: "lc_pc ?c = LpSend s" by (auto elim: send_end_elim)
  with ls_okD(2) [OF assms(1) t]
  have i: "?i < length (lw_handlers (ls_world st))" "?i \<in> ls_locked st" "\<not> sh_broken ?h" "sh_client ?h"
    and some: "sh_stream ?h = Some s" by (simp_all add: call_ok_def critical_def)
  note v = serial_viewD [OF assms(2) i(1)] and turn = serial_view_turn [OF assms(2) t refl]
  have same: "?h\<lparr>sh_stream := Some s\<rparr> = ?h" using some by (cases ?h) simp
  have sent: "send True ok s (lw_handlers w ! ?i) =
      (if ok then (Some s, ?h, snd (snd (send True ok s (lw_handlers w ! ?i))))
       else (None, ?h\<lparr>sh_broken := True, sh_stream := None\<rparr>, snd (snd (send True ok s (lw_handlers w ! ?i)))))"
    using v(3) i some same by (auto simp: send_def)
  have lr: "log_record (lw_handlers w ! ?i) r = log_record ?h r"
    "sh_fallback (lw_handlers w ! ?i) = sh_fallback ?h" for r
    using v(3) by (auto simp: log_record_stream)
  from f show ?thesis
  proof (cases rule: send_end_elim)
    case (Sent s')
    then have ok: "ok" and s': "s' = s" using pc by simp_all
    note op = serial_step_OpHandle [OF v(1) sent [simplified ok if_True]]
    show ?thesis
      by (rule turn [where p = LpDone and h' = ?h and g' = ?h and ds = "[ToStream s (log_record ?h (lc_rec ?c))]"
            and es = "[ToStream s (log_record ?h (lc_rec ?c))]"])
        (use Sent pc i ok s' op lr in \<open>auto simp: serial_run_def Let_def ls_simps owed_def simp del: serial_step.simps\<close>)
  next
    case (SendFailed s')
    then have ok: "ok = False" using pc by simp
    note op = serial_step_OpHandle [OF v(1) sent [simplified ok if_False]]
    let ?h' = "?h\<lparr>sh_broken := True, sh_stream := None\<rparr>"
    show ?thesis
      by (rule turn [where p = LpFallback and h' = ?h' and g' = ?h'
            and ds = "[]" and es = "[ToFallback (sh_fallback ?h) (lc_rec ?c)]"])
        (use SendFailed pc i ok op lr in \<open>auto simp: serial_run_def Let_def ls_simps owed_def simp del: serial_step.simps\<close>)
  qed
qed

lemma serial_view_fell:
  assumes "ls_ok st" "serial_view st w" "at_call t fall_back st = Some st'"
  shows "serial_view st' w"
proof -
  let ?c = "ls_calls st ! t" let ?i = "lc_handler ?c" let ?h = "ls_handler st ?i"
  from assms(3) have t: "t < length (ls_calls st)" and pc: "lc_pc ?c = LpFallback"
    and st': "st' = go_on t LpDone (put_out (ToFallback (sh_fallback ?h) (lc_rec ?c)) st)"
    by (auto simp: at_call_eq_Some fall_back_def split: if_splits)
  have i: "?i < length (lw_handlers (ls_world st))" using ls_okD(2) [OF assms(1) t] by (simp add: call_ok_def)
  note v = serial_viewD [OF assms(2) i]
  show ?thesis
    by (rule serial_view_turn [OF assms(2) t refl, where p = LpDone and h' = ?h and g' = "lw_handlers w ! ?i"
          and ds = "[ToFallback (sh_fallback ?h) (lc_rec ?c)]" and es = "[]"])
      (use st' pc i v assms(2) in \<open>auto simp: ls_simps owed_def serial_view_def\<close>)
qed

lemma serial_view_derive:
  assumes "ls_ok st" "serial_view st w" "derive_handler i d st = Some st'"
  shows "serial_view st' (serial_run (serial_op (LDerive i d) st) w)"
proof -
  let ?h = "derived d (ls_handler st i)" and ?w = "serial_run (serial_op (LDerive i d) st) w"
  from assms(3) have i: "i < length (lw_handlers (ls_world st))" and free: "i \<notin> ls_locked st"
    and st': "lw_handlers (ls_world st') = lw_handlers (ls_world st) @ [?h]"
      "lw_out (ls_world st') = lw_out (ls_world st)" "ls_locked st' = ls_locked st" "ls_calls st' = ls_calls st"
    by (auto simp: derive_handler_def split: if_splits)
  note v = serial_viewD [OF assms(2) i]
  have w: "lw_handlers ?w = lw_handlers w @ [?h]" "lw_out ?w = lw_out w"
    using v(1) v(2) [OF free] by (cases d; simp add: serial_run_def)+
  have "map (owed (fallbacks st')) (ls_calls st) = map (owed (fallbacks st)) (ls_calls st)"
    using ls_okD(2) [OF assms(1)] by (auto simp: st' owed_def call_ok_def nth_append in_set_conv_nth)
  then have "sum_list (map (owed (fallbacks st')) (ls_calls st')) = sum_list (map (owed (fallbacks st)) (ls_calls st))"
    by (simp only: st'(4))
  moreover have "\<forall>j < length (lw_handlers ?w). lw_handlers ?w ! j = ls_handler st' j \<or>
      j \<in> ls_locked st' \<and> lw_handlers ?w ! j = (ls_handler st' j)\<lparr>sh_stream := None\<rparr>"
    using assms(2) by (auto simp: serial_view_def w st' nth_append less_Suc_eq)
  ultimately show ?thesis using assms(2) by (simp add: serial_view_def w st'(1,2))
qed

lemma serial_view_call:
  assumes "serial_view st w" "ls_step (LCall i r) st = Some st'"
  shows "serial_view st' w"
  using assms by (auto simp: serial_view_def owed_def split: if_splits)

lemma serial_view_step:
  assumes "ls_ok st" "serial_view st w" "ls_step a st = Some st'"
  shows "serial_view st' (serial_run (serial_op a st) w)"
proof (cases a)
  case (LCall i r)
  with serial_view_call [OF assms(2)] assms(3) show ?thesis by (simp add: serial_run_def del: ls_step.simps)
next
  case (LFell t)
  with serial_view_fell [OF assms(1,2)] assms(3) show ?thesis by (simp add: serial_run_def)
qed (use assms serial_view_lock serial_view_open serial_view_end serial_view_derive in \<open>simp_all del: serial_op.simps\<close>)

lemma serial_run_append: "serial_run (xs @ ys) w = serial_run ys (serial_run xs w)"
  by (simp add: serial_run_def)

lemma serial_view_run:
  "\<lbrakk>ls_ok st; serial_view st w; ls_run as st = Some st'\<rbrakk> \<Longrightarrow> serial_view st' (serial_run (serial as st) w)"
proof (induction as arbitrary: st w)
  case (Cons a as)
  then obtain st1 where st1: "ls_step a st = Some st1" "ls_run as st1 = Some st'" by (auto split: option.splits)
  from Cons.IH [OF ls_ok_step [OF Cons.prems(1) st1(1)] serial_view_step [OF Cons.prems(1,2) st1(1)] st1(2)] st1(1)
  show ?case by (simp add: serial_run_append)
qed (simp add: serial_run_def)

text \<open>Every call is in the serial run once it has given back the mutex, and no other is.\<close>

lemma passed_step:
  assumes "ls_step a st = Some st'"
  shows "sum_list (map passed (ls_calls st')) =
    sum_list (map passed (ls_calls st)) + mset (concat (map op_call (serial_op a st)))"
proof (cases a)
  case (LLock t)
  with assms have t: "t < length (ls_calls st)" by (simp add: at_call_eq_Some)
  from assms LLock sum_go_on [OF t, of passed] show ?thesis
    by (auto simp: at_call_eq_Some ls_simps Let_def elim!: send_lock_elim)
       (auto simp: passed_def)
next
  case (LOpen t ok)
  with assms have t: "t < length (ls_calls st)" by (simp add: at_call_eq_Some)
  from assms LOpen sum_go_on [OF t, of passed] show ?thesis
    by (auto simp: at_call_eq_Some ls_simps Let_def elim!: send_open_elim)
       (auto simp: passed_def)
next
  case (LSent t ok)
  with assms have t: "t < length (ls_calls st)" by (simp add: at_call_eq_Some)
  from assms LSent sum_go_on [OF t, of passed] show ?thesis
    by (auto simp: at_call_eq_Some ls_simps Let_def elim!: send_end_elim)
       (auto simp: passed_def)
next
  case (LFell t)
  with assms have t: "t < length (ls_calls st)" by (simp add: at_call_eq_Some)
  from assms LFell sum_go_on [OF t, where f = passed and p = LpDone] show ?thesis
    by (auto simp: at_call_eq_Some fall_back_def ls_simps passed_def split: if_splits)
next
  case (LDerive i d)
  with assms show ?thesis by (cases d) (auto simp: derive_handler_def split: if_splits)
qed (use assms in \<open>auto simp: passed_def split: if_splits\<close>)

lemma passed_run:
  "ls_run as st = Some st' \<Longrightarrow> sum_list (map passed (ls_calls st')) =
   sum_list (map passed (ls_calls st)) + mset (concat (map op_call (serial as st)))"
proof (induction as arbitrary: st)
  case (Cons a as)
  then obtain st1 where st1: "ls_step a st = Some st1" "ls_run as st1 = Some st'" by (auto split: option.splits)
  with passed_step [OF st1(1)] Cons.IH [OF st1(2)] show ?case by (simp add: ac_simps)
qed simp

section \<open>The calls return\<close>

fun log_pc_rank :: "log_pc \<Rightarrow> nat" where
  "log_pc_rank LpLock = 4"
| "log_pc_rank LpOpen = 3"
| "log_pc_rank (LpSend s) = 2"
| "log_pc_rank LpFallback = 1"
| "log_pc_rank LpDone = 0"

definition ls_rank :: "log_sync \<Rightarrow> nat" where
  "ls_rank st = (\<Sum>c \<leftarrow> ls_calls st. log_pc_rank (lc_pc c))"

fun log_internal :: "log_act \<Rightarrow> bool" where
  "log_internal (LCall i r) = False"
| "log_internal (LDerive i d) = False"
| "log_internal a = True"

lemma rank_go_on:
  assumes "t < length (ls_calls st)" "log_pc_rank p < log_pc_rank (lc_pc (ls_calls st ! t))"
    and "ls_calls st' = (ls_calls st)[t := (ls_calls st ! t)\<lparr>lc_pc := p\<rparr>]"
  shows "ls_rank st' < ls_rank st"
  using assms sum_list_update_add [of t "map (\<lambda>c. log_pc_rank (lc_pc c)) (ls_calls st)" "log_pc_rank p"]
  by (simp add: ls_rank_def map_update)

lemma ls_rank_step:
  assumes "ls_step a st = Some st'" "log_internal a"
  shows "ls_rank st' < ls_rank st"
proof (cases a)
  case (LLock t)
  with assms show ?thesis
    by (auto simp: at_call_eq_Some elim!: send_lock_elim) (auto simp: ls_simps intro!: rank_go_on [of t])
next
  case (LOpen t ok)
  with assms show ?thesis
    by (auto simp: at_call_eq_Some elim!: send_open_elim) (auto simp: ls_simps intro!: rank_go_on [of t])
next
  case (LSent t ok)
  with assms show ?thesis
    by (auto simp: at_call_eq_Some elim!: send_end_elim) (auto simp: ls_simps intro!: rank_go_on [of t])
next
  case (LFell t)
  with assms show ?thesis
    by (auto simp: at_call_eq_Some fall_back_def split: if_splits) (auto simp: ls_simps intro!: rank_go_on [of t])
qed (use assms in simp_all)

interpretation log_calls: quiescing ls_step log_internal ls_ok ls_rank
  by unfold_locales (auto intro: ls_ok_step ls_rank_step)

text \<open>A call waits for another only at the mutex, and who holds it can go on.\<close>

lemma quiescent_log_calls:
  assumes "ls_ok st" "quiescent ls_step log_internal st" "t < length (ls_calls st)"
  shows "lc_pc (ls_calls st ! t) = LpDone"
proof -
  have stuck: "ls_step a st = None" if "log_internal a" for a using quiescentD [OF assms(2) that] .
  have idle: "\<not> critical (ls_calls st ! u)" if "u < length (ls_calls st)" for u
    using stuck [of "LOpen u True"] stuck [of "LSent u True"] that
    by (auto simp: critical_def at_call_def send_open_def send_end_def Let_def)
  have free: "lc_handler (ls_calls st ! t) \<notin> ls_locked st" using ls_okD(4) [OF assms(1)] idle by blast
  show ?thesis
    using stuck [of "LLock t"] stuck [of "LFell t"] idle [OF assms(3)] assms(3) free
    by (cases "lc_pc (ls_calls st ! t)")
      (auto simp: critical_def at_call_def send_lock_def fall_back_def)
qed

lemma all_done_unlocked:
  assumes "ls_ok st" "\<forall>c \<in> set (ls_calls st). lc_pc c = LpDone"
  shows "ls_locked st = {}"
  using ls_okD(4) [OF assms(1)] assms(2) nth_mem by (fastforce simp: critical_def)

section \<open>Properties\<close>

text \<open>
  C12: concurrent log calls amount to the same calls one at a time: once the calls of a run have
  returned, whatever the interleaving, the handlers are those of a run of atomic \<open>Handle\<close>,
  \<open>WithAttrs\<close> and \<open>WithGroup\<close> steps with exactly these calls, what went out on streams is the same
  in the same order, and what went to the fallback is the same up to its order.
\<close>
theorem log_calls_refine_atomic:
  assumes "ls_run as (ls_init fallback client) = Some st" and "\<forall>c \<in> set (ls_calls st). lc_pc c = LpDone"
    and "ops = serial as (ls_init fallback client)" and "w = serial_run ops (log_init fallback client)"
  shows "lw_handlers (ls_world st) = lw_handlers w \<and>
    filter on_stream (lw_out (ls_world st)) = filter on_stream (lw_out w) \<and>
    mset (lw_out (ls_world st)) = mset (lw_out w) \<and>
    mset (concat (map op_call ops)) = mset (map (\<lambda>c. (lc_handler c, lc_rec c)) (ls_calls st))"
proof -
  have ok: "ls_ok st" by (rule ls_ok_run [OF ls_ok_init assms(1)])
  have "serial_view (ls_init fallback client) (log_init fallback client)"
    by (simp add: serial_view_def ls_init_def)
  from serial_view_run [OF ls_ok_init this assms(1)] have v: "serial_view st w" by (simp add: assms(3,4))
  have sum: "sum_list (map (owed (fallbacks st)) cs) = {#}" "sum_list (map passed cs) = mset (map (\<lambda>c. (lc_handler c, lc_rec c)) cs)"
    if "\<forall>c \<in> set cs. lc_pc c = LpDone" for cs
    using that by (induction cs) (auto simp: owed_def passed_def)
  have "lw_handlers w = lw_handlers (ls_world st)"
    using v all_done_unlocked [OF ok assms(2)] by (intro nth_equalityI) (auto simp: serial_view_def)
  moreover have "mset (concat (map op_call ops)) = mset (map (\<lambda>c. (lc_handler c, lc_rec c)) (ls_calls st))"
    using passed_run [OF assms(1)] sum(2) [OF assms(2)] assms(3) by (simp add: ls_init_def)
  ultimately show ?thesis using v sum(1) [OF assms(2)] by (simp add: serial_view_def)
qed

theorem log_calls_refine_atomic_witness:
  "\<exists>st. ls_run [LDerive 0 (FbGroup ''g''), LCall 0 plain_record, LCall 1 plain_record, LLock 0, LOpen 0 True,
      LLock 1, LOpen 1 False, LSent 0 True, LFell 1] (ls_init [] True) = Some st \<and>
    lw_handlers (ls_world st) = lw_handlers (serial_run [(OpWithGroup 0 ''g'', 0),
      (OpHandle 1 plain_record False False, 0), (OpHandle 0 plain_record True True, 0)] (log_init [] True))"
proof -
  let ?as = "[LDerive 0 (FbGroup ''g''), LCall 0 plain_record, LCall 1 plain_record, LLock 0, LOpen 0 True,
      LLock 1, LOpen 1 False, LSent 0 True, LFell 1]"
  note defs = ls_init_def log_init_def newStreamHandler_def WithGroup_def derive_handler_def at_call_def
    send_lock_def send_open_def send_end_def fall_back_def Let_def ls_simps
  obtain st where st: "ls_run ?as (ls_init [] True) = Some st" "\<forall>c \<in> set (ls_calls st). lc_pc c = LpDone"
    by (simp add: defs)
  have "serial ?as (ls_init [] True) = [(OpWithGroup 0 ''g'', 0),
      (OpHandle 1 plain_record False False, 0), (OpHandle 0 plain_record True True, 0)]"
    by (simp add: defs)
  with log_calls_refine_atomic [OF st refl refl] st show ?thesis by simp
qed

text \<open>
  C35: no log call blocks another for good: from every reachable state, and whatever the wire
  answers, the calls under way take at most four steps each, and where they have none left every
  one has returned and no mutex is held.
\<close>
theorem log_calls_return:
  assumes "ls_run as (ls_init fallback client) = Some st"
  shows "(\<forall>bs st'. (\<forall>b \<in> set bs. log_internal b) \<and> ls_run bs st = Some st' \<longrightarrow>
      length bs \<le> ls_rank st \<and>
      (quiescent ls_step log_internal st' \<longrightarrow> ls_locked st' = {} \<and> (\<forall>c \<in> set (ls_calls st'). lc_pc c = LpDone))) \<and>
    (\<exists>bs st'. (\<forall>b \<in> set bs. log_internal b) \<and> ls_run bs st = Some st' \<and> quiescent ls_step log_internal st') \<and>
    ls_rank st \<le> 4 * length (ls_calls st)"
proof (intro conjI)
  have ok: "ls_ok st" by (rule ls_ok_run [OF ls_ok_init assms])
  show "\<exists>bs st'. (\<forall>b \<in> set bs. log_internal b) \<and> ls_run bs st = Some st' \<and> quiescent ls_step log_internal st'"
    by (rule log_calls.settles [OF ok])
  show "\<forall>bs st'. (\<forall>b \<in> set bs. log_internal b) \<and> ls_run bs st = Some st' \<longrightarrow>
      length bs \<le> ls_rank st \<and>
      (quiescent ls_step log_internal st' \<longrightarrow> ls_locked st' = {} \<and> (\<forall>c \<in> set (ls_calls st'). lc_pc c = LpDone))"
  proof (intro allI impI)
    fix bs st' assume bs: "(\<forall>b \<in> set bs. log_internal b) \<and> ls_run bs st = Some st'"
    with log_calls.run_bounded [OF ok] have ok': "ls_ok st'" and len: "length bs \<le> ls_rank st" by fastforce+
    moreover have "ls_locked st' = {} \<and> (\<forall>c \<in> set (ls_calls st'). lc_pc c = LpDone)"
      if "quiescent ls_step log_internal st'"
    proof -
      have "\<forall>c \<in> set (ls_calls st'). lc_pc c = LpDone"
        using quiescent_log_calls [OF ok' that] by (auto simp: in_set_conv_nth)
      with all_done_unlocked [OF ok'] show ?thesis by blast
    qed
    ultimately show "length bs \<le> ls_rank st \<and>
      (quiescent ls_step log_internal st' \<longrightarrow> ls_locked st' = {} \<and> (\<forall>c \<in> set (ls_calls st'). lc_pc c = LpDone))"
      by blast
  qed
  have "(\<Sum>c \<leftarrow> cs. log_pc_rank (lc_pc c)) \<le> 4 * length cs" for cs :: "handle_call list"
  proof (induction cs)
    case (Cons c cs)
    have "log_pc_rank (lc_pc c) \<le> 4" by (cases "lc_pc c") simp_all
    with Cons show ?case by simp
  qed simp
  then show "ls_rank st \<le> 4 * length (ls_calls st)" by (simp add: ls_rank_def)
qed

theorem log_calls_return_witness:
  "\<exists>st. ls_run [LCall 0 plain_record, LCall 0 plain_record, LLock 0] (ls_init [] True) = Some st \<and>
    (\<exists>bs st'. (\<forall>b \<in> set bs. log_internal b) \<and> ls_run bs st = Some st' \<and> length bs \<le> 7 \<and>
      ls_locked st' = {} \<and> (\<forall>c \<in> set (ls_calls st'). lc_pc c = LpDone))"
proof -
  obtain st where st: "ls_run [LCall 0 plain_record, LCall 0 plain_record, LLock 0] (ls_init [] True) = Some st"
    and "ls_rank st = 7"
    by (simp add: ls_init_def log_init_def newStreamHandler_def at_call_def send_lock_def ls_simps ls_rank_def)
  with log_calls_return [OF st] show ?thesis by fastforce
qed

end
