(* ===== verification/StubCore.thy ===== *)
theory StubCore
  imports Serve HostServer
begin

text \<open>
  The test harness's core side (\<open>modulesdk/testkit/stubcore.go\<close>): launching a module process,
  the handshake with it, and the end of it.  Every outcome of the operating system is an input;
  the result carries the actions taken on the resources, oldest first, so that what each path
  releases can be read off.  \<open>module_process\<close> is the other end: what the pipe of a process that
  runs \<open>Serve\<close> hands to \<open>Launch\<close>.
\<close>

section \<open>State\<close>

record StubCore =
  sc_Window :: Window
  sc_ModuleID :: string
  sc_Config :: bytes
  sc_Capabilities :: "string list"
  sc_Data :: "HostData option"
  sc_LaunchTimeout :: duration

datatype launch_event =
    LineRead string
  | ScanEnded nat
  | TimedOut
  | CtxDone go_error

record launch_in =
  li_rand :: "go_error + 8 word list"
  li_mkdtemp :: "go_error + string"
  li_fs :: fs
  li_environ :: environ
  li_stdout_pipe :: "go_error option"
  li_stderr_pipe :: "go_error option"
  li_start :: "go_error option"
  li_client :: "string \<Rightarrow> string \<Rightarrow> go_error option"
  li_event :: "duration \<Rightarrow> launch_event"

datatype launch_error =
    OtherError go_error
  | HostListenFailed listen_error
  | StartFailed go_error
  | ExitedBeforeHandshake nat
  | ErrProtocolRefused
  | LaunchTimeout
  | LaunchCancelled go_error
  | BadLine handshake_error
  | ClaimedOutside u32 Window

datatype launch_act =
    MkSockDir string | HostServe string string | HostStop | HostGracefulStop
  | ProcStart environ | ProcKill | ProcWait | ConnClose

record ModuleProc =
  mp_Line :: Line
  mp_Data :: HostData

section \<open>Launch\<close>

definition core_window :: "StubCore \<Rightarrow> Window" where
  "core_window c = (if sc_Window c = \<lparr>Min = 0, Max = 0\<rparr> then \<lparr>Min = 1, Max = 1\<rparr> else sc_Window c)"

definition core_data :: "StubCore \<Rightarrow> HostData" where
  "core_data c = (case sc_Data c of None \<Rightarrow> NewHostData | Some d \<Rightarrow> d)"

definition core_timeout :: "StubCore \<Rightarrow> duration" where
  "core_timeout c = (if sc_LaunchTimeout c = 0 then 10000000000 else sc_LaunchTimeout c)"

definition cmd_env :: "StubCore \<Rightarrow> environ \<Rightarrow> string \<Rightarrow> string \<Rightarrow> string \<Rightarrow> environ" where
  "cmd_env c env token hostAddr sockDir =
     env ++ launch_env (dec_of_nat (unat (Min (core_window c)))) (dec_of_nat (unat (Max (core_window c))))
       token hostAddr sockDir"

text \<open>From the handshake line on.\<close>

definition accept_line ::
  "StubCore \<Rightarrow> launch_in \<Rightarrow> string \<Rightarrow> (launch_error + ModuleProc) \<times> launch_act list" where
  "accept_line c li rawLine =
     (case Parse rawLine of
        Inl e \<Rightarrow> (Inl (BadLine e), [ProcKill, HostStop])
      | Inr line \<Rightarrow>
          if \<not> Contains (core_window c) (Protocol line)
          then (Inl (ClaimedOutside (Protocol line) (core_window c)), [ProcKill, HostStop])
          else case li_client li (Network line) (Addr line) of
            Some e \<Rightarrow> (Inl (OtherError e), [ProcKill, HostStop])
          | None \<Rightarrow> (Inr \<lparr>mp_Line = line, mp_Data = core_data c\<rparr>, []))"

definition await_line ::
  "StubCore \<Rightarrow> launch_in \<Rightarrow> (launch_error + ModuleProc) \<times> launch_act list" where
  "await_line c li =
     (case li_event li (core_timeout c) of
        LineRead rawLine \<Rightarrow> accept_line c li rawLine
      | ScanEnded code \<Rightarrow>
          (Inl (if code = ExitProtocolUnsupported then ErrProtocolRefused else ExitedBeforeHandshake code),
           [ProcWait, HostStop])
      | TimedOut \<Rightarrow> (Inl LaunchTimeout, [ProcKill, HostStop])
      | CtxDone e \<Rightarrow> (Inl (LaunchCancelled e), [ProcKill, HostStop]))"

definition spawn ::
  "StubCore \<Rightarrow> launch_in \<Rightarrow> environ \<Rightarrow> (launch_error + ModuleProc) \<times> launch_act list" where
  "spawn c li env =
     (case li_stdout_pipe li of
        Some e \<Rightarrow> (Inl (OtherError e), [HostStop])
      | None \<Rightarrow>
          (case li_stderr_pipe li of
             Some e \<Rightarrow> (Inl (OtherError e), [HostStop])
           | None \<Rightarrow>
               (case li_start li of
                  Some e \<Rightarrow> (Inl (StartFailed e), [HostStop])
                | None \<Rightarrow> (case await_line c li of (r, acts) \<Rightarrow> (r, ProcStart env # acts)))))"

definition stubhost_prefix :: string where
  "stubhost_prefix = [CHR 0x5C, CHR 0x5C] @ ''.'' @ [CHR 0x5C] @ ''pipe'' @ [CHR 0x5C] @ ''weave-stubhost-''"

definition stub_hostAddr :: "string \<Rightarrow> string \<Rightarrow> string \<Rightarrow> string" where
  "stub_hostAddr goos sockDir token =
     (if goos = ''windows'' then stubhost_prefix @ token else join_path [sockDir, ''host.sock''])"

definition Launch_on :: "seam \<Rightarrow> StubCore \<Rightarrow> launch_in \<Rightarrow> (launch_error + ModuleProc) \<times> launch_act list" where
  "Launch_on sm c li =
     (case li_rand li of
        Inl e \<Rightarrow> (Inl (OtherError e), [])
      | Inr nonce \<Rightarrow>
          let token = hex_encode nonce in
          (case li_mkdtemp li of
             Inl e \<Rightarrow> (Inl (OtherError e), [])
           | Inr sockDir \<Rightarrow>
               let hostAddr = stub_hostAddr (sm_goos sm) sockDir token in
               (case fst (sm_Listen sm hostAddr (li_fs li)) of
                  Inl e \<Rightarrow> (Inl (HostListenFailed e), [MkSockDir sockDir])
                | Inr _ \<Rightarrow>
                    (case spawn c li (cmd_env c (li_environ li) token hostAddr sockDir) of
                       (r, acts) \<Rightarrow> (r, MkSockDir sockDir # HostServe hostAddr token # acts)))))"

text \<open>The Unix build.\<close>

definition Launch :: "StubCore \<Rightarrow> launch_in \<Rightarrow> (launch_error + ModuleProc) \<times> launch_act list" where
  "Launch = Launch_on (unix_seam ''linux'')"

lemma stub_hostAddr_linux: "stub_hostAddr ''linux'' sockDir token = join_path [sockDir, ''host.sock'']"
  by (simp add: stub_hostAddr_def)

lemma Launch_unfold:
  "Launch c li =
     (case li_rand li of
        Inl e \<Rightarrow> (Inl (OtherError e), [])
      | Inr nonce \<Rightarrow>
          let token = hex_encode nonce in
          (case li_mkdtemp li of
             Inl e \<Rightarrow> (Inl (OtherError e), [])
           | Inr sockDir \<Rightarrow>
               let hostAddr = join_path [sockDir, ''host.sock''] in
               (case fst (listen_unix hostAddr (li_fs li)) of
                  Inl e \<Rightarrow> (Inl (HostListenFailed e), [MkSockDir sockDir])
                | Inr _ \<Rightarrow>
                    (case spawn c li (cmd_env c (li_environ li) token hostAddr sockDir) of
                       (r, acts) \<Rightarrow> (r, MkSockDir sockDir # HostServe hostAddr token # acts)))))"
  by (simp only: Launch_def Launch_on_def stub_hostAddr_linux unix_seam_simps)

section \<open>Driving the module\<close>

definition core_Init :: "StubCore \<Rightarrow> ModuleProc \<Rightarrow> InitRequest" where
  "core_Init c p =
     \<lparr>req_ModuleId = sc_ModuleID c, req_Protocol = Protocol (mp_Line p), req_Config = sc_Config c,
      req_WatchdogIntervalSeconds = 0\<rparr>"

datatype wait_event = ProcDone "go_error option" | WaitCtxDone go_error

definition WaitExit :: "wait_event \<Rightarrow> go_error option \<times> launch_act list" where
  "WaitExit ev =
     (case ev of
        ProcDone err \<Rightarrow> (err, [ProcWait, ConnClose, HostGracefulStop])
      | WaitCtxDone e \<Rightarrow> (Some e, [ProcKill, ProcWait, ConnClose, HostGracefulStop]))"

definition proc_Shutdown :: "go_error option \<Rightarrow> wait_event \<Rightarrow> go_error option \<times> launch_act list" where
  "proc_Shutdown rpc_err ev =
     (case rpc_err of Some e \<Rightarrow> (Some e, []) | None \<Rightarrow> WaitExit ev)"

definition Kill :: "launch_act list" where
  "Kill = [ProcKill, ProcWait, ConnClose, HostStop]"

section \<open>The process at the other end\<close>

definition module_process :: "'srv serve_out \<Rightarrow> launch_event" where
  "module_process out =
     (case scan_lines (concat (map (\<lambda>l. l @ [CHR 0x0A]) (so_stdout out))) of
        rawLine # _ \<Rightarrow> LineRead rawLine
      | [] \<Rightarrow> ScanEnded (Serve_exit (so_error out)))"

section \<open>Lemmas\<close>

definition host_down :: "launch_act list \<Rightarrow> bool" where
  "host_down acts \<longleftrightarrow> HostStop \<in> set acts \<or> HostGracefulStop \<in> set acts"

definition proc_ended :: "launch_act list \<Rightarrow> bool" where
  "proc_ended acts \<longleftrightarrow> ProcKill \<in> set acts \<or> ProcWait \<in> set acts"

lemma await_line_cleans:
  "await_line c li = (r, acts) \<Longrightarrow>
   (isl r \<longrightarrow> host_down acts \<and> proc_ended acts) \<and> (\<not> isl r \<longrightarrow> acts = [])"
  by (auto simp: await_line_def accept_line_def host_down_def proc_ended_def
      split: launch_event.splits sum.splits option.splits if_splits)

lemma spawn_cleans:
  "spawn c li env = (r, acts) \<Longrightarrow>
   (isl r \<longrightarrow> host_down acts \<and> (\<forall>e. ProcStart e \<in> set acts \<longrightarrow> proc_ended acts)) \<and>
   (\<not> isl r \<longrightarrow> acts = [ProcStart env])"
  using await_line_cleans [of c li]
  by (auto simp: spawn_def host_down_def proc_ended_def split: option.splits prod.splits)

lemma dec_no_LF: "CHR 0x0A \<notin> set (dec_of_nat n)"
proof
  assume "CHR 0x0A \<in> set (dec_of_nat n)"
  then obtain d where "d < 10" "CHR 0x0A = digit_char d" using dec_of_nat_digits by blast
  then have "digit_val (CHR 0x0A) = Some d" by simp
  then show False by (simp add: digit_val_def)
qed

lemma dec_1: "dec_of_nat (Suc 0) = ''1''"
proof -
  have "char_of (of_char (CHR ''1'') :: nat) = CHR ''1''" by (rule char_of_char)
  moreover have "(of_char (CHR ''1'') :: nat) = 49" by simp
  ultimately have "digit_char (Suc 0) = CHR ''1''" unfolding digit_char_def by simp
  then show ?thesis by (simp add: dec_of_nat.simps [of "Suc 0"])
qed

lemma scan_answer:
  assumes "CHR 0x0A \<notin> set addr" "length addr < 1024" "addr = xs @ ''.sock''"
  shows "scan_lines (Format \<lparr>Protocol = 1, Network = NetworkUnix, Addr = addr\<rparr> @ [CHR 0x0A]) =
    [Format \<lparr>Protocol = 1, Network = NetworkUnix, Addr = addr\<rparr>]"
proof -
  let ?l = "Format \<lparr>Protocol = 1, Network = NetworkUnix, Addr = addr\<rparr>"
  have "CHR 0x0A \<notin> set ?l" using assms(1) by (simp add: Format_def dec_no_LF NetworkUnix_def)
  moreover have "length ?l < max_token"
    using assms(2) by (simp add: Format_def LineVersion_def dec_1 NetworkUnix_def max_token_def)
  moreover have "last ?l = CHR ''k''" using assms(3) by (simp add: Format_def)
  ultimately have "scan_lines (?l @ CHR 0x0A # []) = ?l # scan_lines []"
    by (intro scan_lines_single) simp_all
  then show ?thesis by (simp add: scan_lines_def)
qed

lemma hex_encode_Nil [simp]: "hex_encode bs = [] \<longleftrightarrow> bs = []"
  by (cases bs) simp_all

lemma cmd_env_get [simp]:
  "os_Getenv (cmd_env c env token hostAddr sockDir) EnvProtocolMin = dec_of_nat (unat (Min (core_window c)))"
  "os_Getenv (cmd_env c env token hostAddr sockDir) EnvProtocolMax = dec_of_nat (unat (Max (core_window c)))"
  "os_Getenv (cmd_env c env token hostAddr sockDir) EnvToken = token"
  "os_Getenv (cmd_env c env token hostAddr sockDir) EnvHostAddr = hostAddr"
  "os_Getenv (cmd_env c env token hostAddr sockDir) EnvSocketDir = sockDir"
  by (simp_all add: cmd_env_def launch_env_def os_Getenv_def env_name_defs)

lemma Launch_elim [consumes 1, case_names Early Spawned]:
  assumes "Launch_on sm c li = (r, acts)"
  obtains (Early) "isl r" "\<forall>a t. HostServe a t \<notin> set acts" "\<forall>e. ProcStart e \<notin> set acts"
  | (Spawned) d a t env acts' where "spawn c li env = (r, acts')" "acts = MkSockDir d # HostServe a t # acts'"
  using assms by (auto simp: Launch_on_def Let_def split: sum.splits prod.splits)

lemma Launch_spawn:
  assumes "li_rand li = Inr nonce" "li_mkdtemp li = Inr dir"
    and "fst (listen_unix (join_path [dir, ''host.sock'']) (li_fs li)) = Inr a"
    and "li_stdout_pipe li = None" "li_stderr_pipe li = None" "li_start li = None"
  shows "fst (Launch c li) = fst (await_line c li)"
  using assms by (simp add: Launch_unfold spawn_def case_prod_beta Let_def)

lemma accept_line_answer:
  assumes "Contains (core_window c) ModuleProtocol" "li_client li = (\<lambda>_ _. None)"
    and "wf_line line" "Protocol line = ModuleProtocol"
  shows "fst (accept_line c li (Format line)) = Inr \<lparr>mp_Line = line, mp_Data = core_data c\<rparr>"
  using assms by (simp add: accept_line_def Parse_Format_wf)

lemma module_process_refused:
  "so_stdout out = [] \<Longrightarrow> module_process out = ScanEnded (Serve_exit (so_error out))"
  by (simp add: module_process_def scan_lines_def)

text \<open>
  Once the reader goroutine has handed over a line it only drains the pipe: on a line \<open>Launch\<close>
  then refuses, the process is killed and nobody waits for it.
\<close>

lemma refused_line_unreaped:
  assumes "li_event li (core_timeout c) = LineRead rawLine" and "Parse rawLine = Inl e"
  shows "await_line c li = (Inl (BadLine e), [ProcKill, HostStop])"
  using assms by (simp add: await_line_def accept_line_def)

section \<open>The integration test's run\<close>

definition toy_core :: StubCore where
  "toy_core =
     \<lparr>sc_Window = \<lparr>Min = 0, Max = 0\<rparr>, sc_ModuleID = ''toy'', sc_Config = ''{'' @ [CHR 0x22] @ ''speed'' @ [CHR 0x22] @ '':'' @ [CHR 0x22] @ ''fast'' @ [CHR 0x22] @ ''}'',
      sc_Capabilities = [''test.cap''], sc_Data = None, sc_LaunchTimeout = 0\<rparr>"

definition stub_rpc :: "string \<Rightarrow> nat \<Rightarrow> int \<Rightarrow> (plain_ctx, HostData) rpc_clients" where
  "stub_rpc token seed now = registerHostServices plain_get token ''toy'' seed now idle_lives"

definition dialed :: "string \<Rightarrow> nat \<Rightarrow> int \<Rightarrow> (plain_ctx, HostData) hostClient" where
  "dialed token seed now =
     \<lparr>hc_token = token, hc_append = plain_append, hc_from_error = plain_from_error,
      hc_rpc = stub_rpc token seed now, hc_closed = False, hc_surfaces = [], hc_jobs = [],
      hc_watchdogInterval = 0, hc_jobCancel = None, hc_jobCtx = None, hc_jobWG = [], hc_started = False,
      hc_nextCtx = 0, hc_cancelled = []\<rparr>"

lemma dialed_served:
  "stub_served plain_get ''toy'' seed now (dialed token seed now\<lparr>hc_surfaces := ss\<rparr>) []"
  by (auto simp: stub_served_def dialed_def stub_rpc_def withToken_def plain_get_def plain_append_def)

lemma toy_Init_step:
  assumes "req_ModuleId req = ''toy''" "req_Protocol req = 1" "req_WatchdogIntervalSeconds req = 0"
  shows "Init toy [] req (Inr (stub_rpc token seed now)) (toy_new token) =
    (Inr \<lparr>resp_Requires = [''test.cap''], resp_Surfaces = [toy_card], resp_HealthIntervalSeconds = 0\<rparr>,
     (toy_new token)\<lparr>ms_services := toy_data, ms_host := Some (dialed token seed now\<lparr>hc_surfaces := [toy_card]\<rparr>),
       ms_watching := 1, ms_state := stateInited, ms_calls := [DidInit True, DidRequires]\<rparr>)"
proof -
  have host: "connectHost (toy_new token) (Inr (stub_rpc token seed now)) = Inr (dialed token seed now)"
    by (simp add: connectHost_def dialHost_def toy_new_def newServer_def dialed_def)
  have run: "run_prog (toy_Init u) [] (dialed token seed now) NewHostData =
      ((None, ()), dialed token seed now\<lparr>hc_surfaces := [toy_card]\<rparr>, toy_data)" for u
    using toy_Init_run [OF dialed_served [where ss = "[]" and token = token and seed = seed and now = now]] by (simp add: dialed_def toy_data_def)
  show ?thesis
    unfolding Init_def receive_config_def toy_sel option.case prod.case host sum.case
    by (simp add: run assms ModuleProtocol_def finish_init_def collect_jobs_def toy_new_def newServer_def)
qed

definition started_data :: "int \<Rightarrow> HostData" where
  "started_data now =
     RecordSend \<lparr>sm_Peer = 1, sm_Kind = ''heartbeat'', sm_Data = ''beat'', sm_QueueOffline = False\<rparr>
       (Publish now ''toy.started'' ''hello'' toy_data)"

lemma started_data_facts:
  "StoreGet (started_data now) ''init-key'' = (''init-value'', True)"
  "map ev_Topic (Events (started_data now)) = [''toy.started'']"
  "map sm_Kind (Sends (started_data now)) = [''heartbeat'']"
  by (simp_all add: started_data_def RecordSend_def Publish_def toy_data_def StorePut_def NewHostData_def
      StoreGet_def Events_def Sends_def)

lemma toy_Start_step:
  assumes "ms_state s = stateInited" "ms_services s = toy_data"
    and "ms_host s = Some (dialed token seed now\<lparr>hc_surfaces := [toy_card]\<rparr>)"
  shows "\<exists>h. Start toy [] s = (Inr (), s\<lparr>ms_module := (), ms_services := started_data now, ms_host := Some h,
      ms_calls := ms_calls s @ [DidStart True], ms_state := stateStarted\<rparr>)"
proof -
  let ?h = "dialed token seed now\<lparr>hc_surfaces := [toy_card]\<rparr>"
  have run: "run_prog (toy_Start u) [] ?h toy_data = ((None, ()), ?h, started_data now)" for u
    using toy_Start_run [OF dialed_served] by (simp add: started_data_def)
  show ?thesis by (rule exI [of _ "startJobs ?h"]) (simp add: Start_def assms run)
qed

lemma toy_Health_step:
  "snd (HealthRpc toy s) = s\<lparr>ms_module := ms_module s, ms_calls := ms_calls s @ [DidHealth]\<rparr>"
  by (simp add: HealthRpc_def m_Health_toy)

lemma toy_Stop_step:
  assumes "ms_state s = stateStarted" "ms_host s = Some h"
  shows "\<exists>h'. Stop toy ctx secs s = (Inr (), s\<lparr>ms_module := ms_module s, ms_services := ms_services s,
      ms_host := Some h', ms_calls := ms_calls s @ [DidStop True], ms_state := stateStopped\<rparr>)"
  by (rule exI [of _ "stopJobs h"]) (simp add: Stop_def stopLocked_def assms Let_def)

lemma Shutdown_stopped:
  "ms_state s = stateStopped \<Longrightarrow>
   Shutdown M ctx s = (Inr (), s\<lparr>ms_state := stateStopped, ms_shutdown := offer 1 () (ms_shutdown s)\<rparr>)"
  by (simp add: Shutdown_def stopLocked_def)

lemma toy_run_to_shutdown:
  assumes "req_ModuleId req = ''toy''" "req_Protocol req = 1" "req_WatchdogIntervalSeconds req = 0"
    and "s = run_events toy [EInit [] req (Inr (stub_rpc token seed now)), EStart [], EHealth, EStop [] 5, EShutdown []]
      (toy_new token)"
  shows "ms_services s = started_data now \<and> ms_state s = stateStopped \<and> ms_shutdown s = [()] \<and>
    ms_calls s = [DidInit True, DidRequires, DidStart True, DidHealth, DidStop True]"
proof -
  let ?e1 = "EInit [] req (Inr (stub_rpc token seed now))"
  define s1 where "s1 = snd (handle toy ?e1 (toy_new token))"
  have s1: "ms_state s1 = stateInited" "ms_services s1 = toy_data" "ms_shutdown s1 = []"
    "ms_host s1 = Some (dialed token seed now\<lparr>hc_surfaces := [toy_card]\<rparr>)"
    "ms_calls s1 = [DidInit True, DidRequires]"
    by (simp_all add: s1_def toy_Init_step [OF assms(1-3)]) (simp add: toy_new_def newServer_def)
  define s2 where "s2 = snd (handle toy (EStart []) s1)"
  obtain h where "Start toy [] s1 = (Inr (), s1\<lparr>ms_module := (), ms_services := started_data now, ms_host := Some h,
      ms_calls := ms_calls s1 @ [DidStart True], ms_state := stateStarted\<rparr>)"
    using toy_Start_step [OF s1(1,2,4)] by blast
  then have s2: "ms_state s2 = stateStarted" "ms_services s2 = started_data now" "ms_shutdown s2 = []"
    "ms_host s2 = Some h" "ms_calls s2 = [DidInit True, DidRequires, DidStart True]"
    by (simp_all add: s2_def s1)
  define s3 where "s3 = snd (handle toy EHealth s2)"
  have s3: "ms_state s3 = stateStarted" "ms_services s3 = started_data now" "ms_shutdown s3 = []"
    "ms_host s3 = Some h" "ms_calls s3 = [DidInit True, DidRequires, DidStart True, DidHealth]"
    by (simp_all add: s3_def toy_Health_step s2)
  define s4 where "s4 = snd (handle toy (EStop [] 5) s3)"
  obtain h' where "Stop toy [] 5 s3 = (Inr (), s3\<lparr>ms_module := ms_module s3, ms_services := ms_services s3,
      ms_host := Some h', ms_calls := ms_calls s3 @ [DidStop True], ms_state := stateStopped\<rparr>)"
    using toy_Stop_step [OF s3(1,4)] by blast
  then have s4: "ms_state s4 = stateStopped" "ms_services s4 = started_data now" "ms_shutdown s4 = []"
    "ms_calls s4 = [DidInit True, DidRequires, DidStart True, DidHealth, DidStop True]"
    by (simp_all add: s4_def s3)
  have "s = snd (handle toy (EShutdown []) s4)"
    unfolding assms(4) s4_def s3_def s2_def s1_def by (simp only: run_events.simps)
  then show ?thesis by (simp add: Shutdown_stopped [OF s4(1)] s4 offer_def)
qed

section \<open>A launched process that runs Serve\<close>

lemma host_sock_nonempty: "dir \<noteq> [] \<Longrightarrow> join_path [dir, ''host.sock''] \<noteq> []"
  using join_path_name [of dir "''host.sock''"] by (simp add: plain_name_def)

lemma cmd_env_window:
  "wf_window (core_window c) \<Longrightarrow>
   ParseWindow (os_Getenv (cmd_env c env token hostAddr dir) EnvProtocolMin)
     (os_Getenv (cmd_env c env token hostAddr dir) EnvProtocolMax) = Inr (core_window c)"
  by (simp add: ParseWindow_dec wf_window_def not_less)

text \<open>In the window: the line is printed, read as it is and accepted.\<close>

lemma await_served:
  fixes c :: StubCore and nonce :: "8 word list" and env0 :: environ and dir :: string and M :: "'m Module"
  defines "env \<equiv> cmd_env c env0 (hex_encode nonce) (join_path [dir, ''host.sock'']) dir"
    and "addr \<equiv> join_path [dir, m_ID M @ ''.sock'']"
  assumes "wf_window (core_window c)" "Contains (core_window c) ModuleProtocol" "nonce \<noteq> []" "dir \<noteq> []"
    and "serve M ns env f es w es' = Some out"
    and "li_event li = (\<lambda>_. module_process out)" "li_client li = (\<lambda>_ _. None)"
    and sock: "fst (listen_unix addr f) = Inr addr" "fs_sun_path f \<le> 108"
      "CHR ''/'' \<notin> set (m_ID M)" "CHR ''|'' \<notin> set addr" "CHR 0x0A \<notin> set addr"
  shows "fst (await_line c li) =
    Inr \<lparr>mp_Line = \<lparr>Protocol = ModuleProtocol, Network = NetworkUnix, Addr = addr\<rparr>, mp_Data = core_data c\<rparr>"
proof -
  let ?line = "\<lparr>Protocol = ModuleProtocol, Network = NetworkUnix, Addr = addr\<rparr>"
  obtain f' where lis: "listen_unix addr f = (Inr addr, f')"
    using sock(1) by (cases "listen_unix addr f") simp
  have "handshake_env env = Inr (hex_encode nonce, join_path [dir, ''host.sock''])"
    using assms(5) host_sock_nonempty [OF assms(6)] by (simp add: handshake_env_def env_def)
  moreover have "moduleAddr ''linux'' env (Inr []) (m_ID M) = Inr addr"
    using assms(6) by (simp add: moduleAddr_def env_def addr_def)
  ultimately have "run_module M addr f' es w es' (ns (hex_encode nonce)) = Some out"
    using assms(4,7) cmd_env_window [OF assms(3)] by (simp add: serve_unfold negotiate_def env_def lis)
  then have stdout: "so_stdout out = [Format ?line]"
    by (auto simp: run_module_unfold Let_def split: wake.splits if_splits)
  have "plain_name (m_ID M @ ''.sock'')" using sock(3) by (auto simp: plain_name_def)
  from join_path_name [OF assms(6) this] obtain xs where xs: "addr = xs @ ''.sock''"
    unfolding addr_def by (metis append_Cons append_assoc)
  then have wf: "wf_line ?line"
    using sock(4) by (simp add: wf_line_def ModuleProtocol_def suffix_sock_no_space)
  have "length addr < 1024" using lis sock(2) unfolding listen_unix_Inr by linarith
  from scan_answer [OF sock(5) this xs] have "module_process out = LineRead (Format ?line)"
    by (simp add: module_process_def stdout ModuleProtocol_def)
  then have "await_line c li = accept_line c li (Format ?line)" by (simp add: await_line_def assms(8))
  with accept_line_answer [OF assms(4,9) wf] show ?thesis by simp
qed

text \<open>Outside it: the process exits with 78 and has printed nothing.\<close>

lemma await_refused:
  assumes "wf_window (core_window c)" "\<not> Contains (core_window c) ModuleProtocol"
    and "serve M ns (cmd_env c env0 token hostAddr dir) f es w es' = Some out"
    and "li_event li = (\<lambda>_. module_process out)"
  shows "fst (await_line c li) = Inl ErrProtocolRefused"
proof -
  have "out = serve_fails (ProtocolOutOfWindow (m_ID M) ModuleProtocol (core_window c)) f"
    using assms(2,3) cmd_env_window [OF assms(1)] by (simp add: serve_unfold negotiate_def)
  then have "module_process out = ScanEnded ExitProtocolUnsupported"
    by (simp add: module_process_refused serve_fails_def Serve_exit_def)
  then show ?thesis by (simp add: await_line_def assms(4))
qed

definition toy_refused_line :: launch_in where
  "toy_refused_line =
     \<lparr>li_rand = Inr [1, 2, 3, 4, 5, 6, 7, 8], li_mkdtemp = Inr ''/w'', li_fs = plain_fs, li_environ = Map.empty,
      li_stdout_pipe = None, li_stderr_pipe = None, li_start = None, li_client = (\<lambda>_ _. None),
      li_event = (\<lambda>_. TimedOut)\<rparr>"

section \<open>Properties\<close>

text \<open>
  C30: \<open>Launch\<close> cleans up after itself, on every platform: on every error the host server it started is stopped and
  the process it started has been killed or has exited, and on success neither was touched.
\<close>
theorem Launch_cleans_up:
  assumes "Launch_on sm c li = (r, acts)"
  shows "(isl r \<longrightarrow> (\<forall>a t. HostServe a t \<in> set acts \<longrightarrow> host_down acts) \<and>
      (\<forall>e. ProcStart e \<in> set acts \<longrightarrow> proc_ended acts)) \<and>
    (\<not> isl r \<longrightarrow> \<not> host_down acts \<and> \<not> proc_ended acts \<and> (\<exists>e. ProcStart e \<in> set acts))"
  using assms
proof (cases rule: Launch_elim)
  case (Spawned d a t env acts')
  from spawn_cleans [OF Spawned(1)] show ?thesis
    unfolding Spawned(2) by (cases "isl r") (auto simp: host_down_def proc_ended_def)
qed simp

text \<open>
  C3: the handshake end to end: when a process that runs \<open>Serve\<close> is launched under any sane
  window, over a socket directory both sides can use, \<open>Launch\<close> ends with the module's line
  (protocol 1 on the module's own socket) if the window contains protocol 1, and with
  \<open>ErrProtocolRefused\<close> if it does not: never with a timeout, a bad line or a crash.
\<close>
theorem launch_handshake:
  fixes c :: StubCore and li :: launch_in and nonce :: "8 word list" and dir :: string and M :: "'m Module"
  defines "env \<equiv> cmd_env c (li_environ li) (hex_encode nonce) (join_path [dir, ''host.sock'']) dir"
    and "addr \<equiv> join_path [dir, m_ID M @ ''.sock'']"
  assumes os: "li_rand li = Inr nonce" "nonce \<noteq> []" "li_mkdtemp li = Inr dir" "dir \<noteq> []"
    "fst (listen_unix (join_path [dir, ''host.sock'']) (li_fs li)) = Inr a"
    "li_stdout_pipe li = None" "li_stderr_pipe li = None" "li_start li = None" "li_client li = (\<lambda>_ _. None)"
    and window: "wf_window (core_window c)"
    and proc: "serve M ns env f es w es' = Some out" "li_event li = (\<lambda>_. module_process out)"
    and sock: "fst (listen_unix addr f) = Inr addr" "fs_sun_path f \<le> 108"
      "CHR ''/'' \<notin> set (m_ID M)" "CHR ''|'' \<notin> set addr" "CHR 0x0A \<notin> set addr"
  shows "fst (Launch c li) =
    (if Contains (core_window c) ModuleProtocol
     then Inr \<lparr>mp_Line = \<lparr>Protocol = ModuleProtocol, Network = NetworkUnix, Addr = addr\<rparr>, mp_Data = core_data c\<rparr>
     else Inl ErrProtocolRefused)"
proof (cases "Contains (core_window c) ModuleProtocol")
  case True
  from await_served [OF window True os(2,4) proc(1) [unfolded env_def] proc(2) os(9) sock [unfolded addr_def]] True
  show ?thesis by (simp add: Launch_spawn [OF os(1,3,5-8)] addr_def)
next
  case False
  from await_refused [OF window False proc(1) [unfolded env_def] proc(2)] False
  show ?thesis by (simp add: Launch_spawn [OF os(1,3,5-8)])
qed

definition toy_launch :: launch_in where
  "toy_launch =
     \<lparr>li_rand = Inr [1, 2, 3, 4, 5, 6, 7, 8], li_mkdtemp = Inr ''/w'', li_fs = plain_fs, li_environ = Map.empty,
      li_stdout_pipe = None, li_stderr_pipe = None, li_start = None, li_client = (\<lambda>_ _. None),
      li_event = (\<lambda>_. module_process
        (serve_fails (ProtocolOutOfWindow ''toy'' 1 \<lparr>Min = 2, Max = 3\<rparr>) plain_fs
           :: (unit, plain_ctx, HostData) moduleServer serve_out))\<rparr>"

lemma host_addr: "join_path [''/w'', ''host.sock''] = ''/w/host.sock''"
  by (simp add: join_path_def clean_path_def)

lemma host_listen: "fst (listen_unix ''/w/host.sock'' plain_fs) = Inr ''/w/host.sock''"
  unfolding listen_unix_ok by (simp add: plain_fs_def)

theorem Launch_cleans_up_witness: "host_down (snd (Launch toy_core toy_refused_line))"
proof -
  have "isl (fst (Launch toy_core toy_refused_line))"
    by (simp add: toy_refused_line_def Launch_unfold spawn_def await_line_def case_prod_beta Let_def split: sum.split)
  moreover have "HostServe ''/w/host.sock'' (hex_encode [1, 2, 3, 4, 5, 6, 7, 8])
      \<in> set (snd (Launch toy_core toy_refused_line))"
    by (simp add: toy_refused_line_def Launch_unfold host_addr host_listen case_prod_beta Let_def del: hex_encode.simps)
  ultimately show ?thesis
    unfolding Launch_def using Launch_cleans_up [of "unix_seam ''linux''" toy_core toy_refused_line "fst (Launch_on (unix_seam ''linux'') toy_core toy_refused_line)"
        "snd (Launch_on (unix_seam ''linux'') toy_core toy_refused_line)"] by auto
qed

theorem launch_handshake_witness:
  "fst (Launch (toy_core\<lparr>sc_Window := \<lparr>Min = 2, Max = 3\<rparr>\<rparr>) toy_launch) = Inl ErrProtocolRefused"
proof -
  let ?c = "toy_core\<lparr>sc_Window := \<lparr>Min = 2, Max = 3\<rparr>\<rparr>"
  let ?out = "serve_fails (ProtocolOutOfWindow ''toy'' 1 \<lparr>Min = 2, Max = 3\<rparr>) plain_fs
      :: (unit, plain_ctx, HostData) moduleServer serve_out"
  have c: "core_window ?c = \<lparr>Min = 2, Max = 3\<rparr>" by (simp add: core_window_def)
  have sv: "serve toy toy_new (cmd_env ?c (li_environ toy_launch) (hex_encode [1, 2, 3, 4, 5, 6, 7, 8])
      (join_path [''/w'', ''host.sock'']) ''/w'') plain_fs [] WakeSignal [] = Some ?out"
  proof -
    have "negotiate (cmd_env ?c (li_environ toy_launch) (hex_encode [1, 2, 3, 4, 5, 6, 7, 8])
        (join_path [''/w'', ''host.sock'']) ''/w'') ''toy'' = Inl (ProtocolOutOfWindow ''toy'' 1 \<lparr>Min = 2, Max = 3\<rparr>)"
      unfolding negotiate_def cmd_env_get c ParseWindow_dec
      by (simp add: Contains_def ModuleProtocol_def word_le_nat_alt word_less_nat_alt)
    then show ?thesis by (simp add: serve_unfold del: hex_encode.simps)
  qed
  have tl: "li_rand toy_launch = Inr [1, 2, 3, 4, 5, 6, 7, 8]" "li_mkdtemp toy_launch = Inr ''/w''"
    "fst (listen_unix (join_path [''/w'', ''host.sock'']) (li_fs toy_launch)) = Inr ''/w/host.sock''"
    "li_stdout_pipe toy_launch = None" "li_stderr_pipe toy_launch = None" "li_start toy_launch = None"
    "li_client toy_launch = (\<lambda>_ _. None)" "li_event toy_launch = (\<lambda>_. module_process ?out)"
    using host_listen by (simp_all add: toy_launch_def host_addr)
  have sock: "fst (listen_unix (join_path [''/w'', m_ID toy @ ''.sock'']) plain_fs) = Inr (join_path [''/w'', m_ID toy @ ''.sock''])"
    "CHR ''|'' \<notin> set (join_path [''/w'', m_ID toy @ ''.sock''])"
    "CHR 0x0A \<notin> set (join_path [''/w'', m_ID toy @ ''.sock''])"
    by (simp_all add: toy_addr toy_listen)
  have "wf_window (core_window ?c)" by (simp add: c wf_window_def word_le_nat_alt)
  from launch_handshake [OF tl(1) _ tl(2) _ tl(3-7) this sv tl(8) sock(1) _ _ sock(2,3)]
  show ?thesis by (simp add: c Contains_def ModuleProtocol_def word_le_nat_alt plain_fs_def)
qed

text \<open>
  The SDK's integration test in the model: the toy module, launched, initialised, started,
  asked for its health, stopped and shut down by the stub core, is called once at each stage,
  has written its key, published \<open>toy.started\<close> and sent its heartbeat through the host, and
  its process exits with 0.
\<close>
lemma toy_integration:
  assumes "Protocol (mp_Line p) = 1"
    and "es = [EInit [] (core_Init toy_core p) (Inr (stub_rpc token seed now)), EStart [], EHealth, EStop [] 5,
      EShutdown []]"
    and "run_module toy addr f es WakeShutdown [] (toy_new token) = r"
  shows "\<exists>out s. r = Some out \<and> Serve_exit (so_error out) = 0 \<and> so_server out = Some s \<and>
    ms_calls s = [DidInit True, DidRequires, DidStart True, DidHealth, DidStop True] \<and>
    StoreGet (ms_services s) ''init-key'' = (''init-value'', True) \<and>
    map ev_Topic (Events (ms_services s)) = [''toy.started''] \<and>
    map sm_Kind (Sends (ms_services s)) = [''heartbeat'']"
proof -
  define s where "s = run_events toy es (toy_new token)"
  have "req_ModuleId (core_Init toy_core p) = ''toy''" "req_Protocol (core_Init toy_core p) = 1"
    "req_WatchdogIntervalSeconds (core_Init toy_core p) = 0"
    by (simp_all add: core_Init_def toy_core_def assms(1))
  from toy_run_to_shutdown [OF this s_def [unfolded assms(2)]]
  have s: "ms_services s = started_data now" "ms_shutdown s = [()]"
    "ms_calls s = [DidInit True, DidRequires, DidStart True, DidHealth, DidStop True]" by simp_all
  have keep: "ms_calls (release_host s) = ms_calls s" "ms_services (release_host s) = ms_services s"
    by (simp_all add: release_host_def split: option.split)
  have "r = Some \<lparr>so_error = None, so_fs = close_listener addr f,
      so_stdout = [Format \<lparr>Protocol = ModuleProtocol, Network = NetworkUnix, Addr = addr\<rparr>],
      so_server = Some (release_host s)\<rparr>"
    unfolding assms(3) [symmetric] run_module_unfold Let_def s_def [symmetric] using s(2) by simp
  then show ?thesis by (simp add: Serve_exit_def keep s started_data_facts)
qed

lemma toy_integration_witness:
  "\<exists>out s. run_module toy ''/w/toy.sock'' plain_fs
      [EInit [] (core_Init toy_core \<lparr>mp_Line = \<lparr>Protocol = 1, Network = NetworkUnix, Addr = ''/w/toy.sock''\<rparr>,
          mp_Data = NewHostData\<rparr>) (Inr (stub_rpc ''tok'' 0 0)), EStart [], EHealth, EStop [] 5, EShutdown []]
      WakeShutdown [] (toy_new ''tok'') = Some out \<and> so_server out = Some s \<and>
    StoreGet (ms_services s) ''init-key'' = (''init-value'', True)"
  using toy_integration [OF _ refl refl, of "\<lparr>mp_Line = \<lparr>Protocol = 1, Network = NetworkUnix, Addr = ''/w/toy.sock''\<rparr>,
      mp_Data = NewHostData\<rparr>" "''/w/toy.sock''" plain_fs "''tok''" 0 0]
  by (simp del: run_events.simps) blast

end
