(* ===== verification/ChildPipes.thy ===== *)
theory ChildPipes
  imports StubCore Quiesce
begin

text \<open>
  The output of a launched module (\<open>modulesdk/testkit/stubcore.go\<close>): its stdout and stderr are
  pipes of bounded capacity, and a write waits while its pipe is full.  One goroutine of \<open>Launch\<close>
  reads stdout, the handshake line first and then the rest into nothing; stderr gets a scanner that
  nothing ever scans.  The module's side is the bytes one of its goroutines writes, in order.
\<close>

section \<open>State and steps\<close>

datatype child_byte = ToStdout char | ToStderr char

text \<open>
  The reader scans for a line, has sent it on and drains, or has given up on a line that is too
  long and waits for the process.
\<close>

datatype reader_pc = Scanning string | Draining | AwaitExit

record child_io =
  ch_prog :: "child_byte list"
  ch_out :: string
  ch_err :: string
  ch_reader :: reader_pc
  ch_line :: "string option"

datatype child_act = CWrite | CRead

definition child_write :: "nat \<Rightarrow> child_io \<Rightarrow> child_io option" where
  "child_write cap st =
     (case ch_prog st of
        [] \<Rightarrow> None
      | ToStdout b # p \<Rightarrow>
          if length (ch_out st) < cap then Some (st\<lparr>ch_prog := p, ch_out := ch_out st @ [b]\<rparr>) else None
      | ToStderr b # p \<Rightarrow>
          if length (ch_err st) < cap then Some (st\<lparr>ch_prog := p, ch_err := ch_err st @ [b]\<rparr>) else None)"

definition scan_byte :: "string \<Rightarrow> char \<Rightarrow> child_io \<Rightarrow> child_io" where
  "scan_byte buf b st =
     (if b = CHR 0x0A then st\<lparr>ch_line := Some (drop_cr buf), ch_reader := Draining\<rparr>
      else if Suc (length buf) < max_token then st\<lparr>ch_reader := Scanning (buf @ [b])\<rparr>
      else st\<lparr>ch_reader := AwaitExit\<rparr>)"

definition reader_step :: "child_io \<Rightarrow> child_io option" where
  "reader_step st =
     (case ch_out st of
        [] \<Rightarrow> None
      | b # q \<Rightarrow>
          (case ch_reader st of
             Scanning buf \<Rightarrow> Some (scan_byte buf b (st\<lparr>ch_out := q\<rparr>))
           | Draining \<Rightarrow> Some (st\<lparr>ch_out := q\<rparr>)
           | AwaitExit \<Rightarrow> None))"

fun child_step :: "nat \<Rightarrow> child_act \<Rightarrow> child_io \<Rightarrow> child_io option" where
  "child_step cap CWrite st = child_write cap st"
| "child_step cap CRead st = reader_step st"

abbreviation child_steps :: "nat \<Rightarrow> child_act list \<Rightarrow> child_io \<Rightarrow> child_io option" where
  "child_steps cap \<equiv> opt_run (child_step cap)"

definition child_init :: "child_byte list \<Rightarrow> child_io" where
  "child_init p = \<lparr>ch_prog = p, ch_out = [], ch_err = [], ch_reader = Scanning [], ch_line = None\<rparr>"

fun on_stdout :: "child_byte list \<Rightarrow> string" where
  "on_stdout [] = []"
| "on_stdout (ToStdout b # p) = b # on_stdout p"
| "on_stdout (ToStderr b # p) = on_stdout p"

fun on_stderr :: "child_byte list \<Rightarrow> string" where
  "on_stderr [] = []"
| "on_stderr (ToStdout b # p) = on_stderr p"
| "on_stderr (ToStderr b # p) = b # on_stderr p"

section \<open>The invariant\<close>

text \<open>
  What was read, what is in the pipe and what is still to be written make up the module's output;
  where the reader is says what it has read.
\<close>

definition first_line :: "string \<Rightarrow> string" where
  "first_line s = takeWhile (\<lambda>c. c \<noteq> CHR 0x0A) s"

definition reader_ok :: "reader_pc \<Rightarrow> string \<Rightarrow> string option \<Rightarrow> bool" where
  "reader_ok rd seen line \<longleftrightarrow>
     (case rd of
        Scanning buf \<Rightarrow> seen = buf \<and> CHR 0x0A \<notin> set buf \<and> length buf < max_token \<and> line = None
      | Draining \<Rightarrow> CHR 0x0A \<in> set seen \<and> line = Some (drop_cr (first_line seen))
      | AwaitExit \<Rightarrow> CHR 0x0A \<notin> set seen \<and> length seen = max_token)"

definition child_ok :: "nat \<Rightarrow> child_byte list \<Rightarrow> child_io \<Rightarrow> bool" where
  "child_ok cap p st \<longleftrightarrow>
     (\<exists>seen. on_stdout p = seen @ ch_out st @ on_stdout (ch_prog st) \<and>
        reader_ok (ch_reader st) seen (ch_line st)) \<and>
     on_stderr p = ch_err st @ on_stderr (ch_prog st) \<and> length (ch_err st) \<le> cap"

lemma first_line_append: "CHR 0x0A \<in> set s \<Longrightarrow> first_line (s @ t) = first_line s"
  by (auto simp: first_line_def)

lemma first_line_whole: "CHR 0x0A \<notin> set s \<Longrightarrow> first_line (s @ t) = s @ first_line t"
  unfolding first_line_def by (subst takeWhile_append2) auto

lemma first_line_LF: "CHR 0x0A \<notin> set s \<Longrightarrow> first_line (s @ [CHR 0x0A]) = s"
  by (simp add: first_line_whole) (simp add: first_line_def)

lemma child_ok_init: "child_ok cap p (child_init p)"
  by (simp add: child_ok_def child_init_def reader_ok_def max_token_def)

lemma child_ok_write: "\<lbrakk>child_ok cap p st; child_write cap st = Some st'\<rbrakk> \<Longrightarrow> child_ok cap p st'"
  by (auto simp: child_ok_def child_write_def split: list.splits child_byte.splits if_splits)

lemma reader_ok_scan:
  assumes "reader_ok (Scanning buf) seen line"
  shows "reader_ok (ch_reader (scan_byte buf b st)) (seen @ [b])
    (if b = CHR 0x0A then Some (drop_cr buf) else line)"
  using assms by (auto simp: reader_ok_def scan_byte_def first_line_LF)

lemma child_ok_read:
  assumes "child_ok cap p st" "reader_step st = Some st'"
  shows "child_ok cap p st'"
proof -
  from assms(1) obtain seen where out: "on_stdout p = seen @ ch_out st @ on_stdout (ch_prog st)"
    and rd: "reader_ok (ch_reader st) seen (ch_line st)" by (auto simp: child_ok_def)
  from assms(2) obtain b q where q: "ch_out st = b # q"
    by (auto simp: reader_step_def split: list.splits)
  show ?thesis
  proof (cases "ch_reader st")
    case (Scanning buf)
    with assms(2) q have st': "st' = scan_byte buf b (st\<lparr>ch_out := q\<rparr>)" by (simp add: reader_step_def)
    then have fields: "ch_out st' = q" "ch_prog st' = ch_prog st" "ch_err st' = ch_err st"
      "ch_line st' = (if b = CHR 0x0A then Some (drop_cr buf) else ch_line st)"
      by (simp_all add: scan_byte_def)
    have "reader_ok (ch_reader st') (seen @ [b]) (ch_line st')"
      using reader_ok_scan [of buf seen "ch_line st" b "st\<lparr>ch_out := q\<rparr>"] rd
      by (simp add: Scanning st' fields(4) [unfolded st'])
    moreover have "on_stdout p = (seen @ [b]) @ ch_out st' @ on_stdout (ch_prog st')"
      using out by (simp add: q fields)
    ultimately show ?thesis using assms(1) unfolding child_ok_def fields(3) by (auto simp: fields(2))
  next
    case Draining
    with assms(2) q have st': "st' = st\<lparr>ch_out := q\<rparr>" by (simp add: reader_step_def)
    have "reader_ok (ch_reader st') (seen @ [b]) (ch_line st')"
      using rd Draining by (simp add: st' reader_ok_def first_line_append)
    moreover have "on_stdout p = (seen @ [b]) @ ch_out st' @ on_stdout (ch_prog st')"
      using out by (simp add: q st')
    ultimately show ?thesis using assms(1) unfolding child_ok_def by (auto simp: st')
  next
    case AwaitExit
    with assms(2) q show ?thesis by (simp add: reader_step_def)
  qed
qed

lemma child_ok_step: "\<lbrakk>child_ok cap p st; child_step cap a st = Some st'\<rbrakk> \<Longrightarrow> child_ok cap p st'"
  by (cases a) (auto intro: child_ok_write child_ok_read)

section \<open>Flowing\<close>

definition child_rank :: "child_io \<Rightarrow> nat" where
  "child_rank st = 2 * length (ch_prog st) + length (ch_out st)"

lemma child_rank_step: "child_step cap a st = Some st' \<Longrightarrow> child_rank st' < child_rank st"
  by (cases a) (auto simp: child_write_def reader_step_def scan_byte_def child_rank_def
      split: list.splits child_byte.splits reader_pc.splits if_splits)

interpretation child_flow: quiescing "child_step cap" "\<lambda>a. True" "child_ok cap p" child_rank for cap p
  by unfold_locales (auto intro: child_ok_step child_rank_step)

text \<open>A reader whose line fits never gives up, so at rest the pipe of stdout is empty.\<close>

lemma fitting_line_read:
  assumes "child_ok cap p st" "length (first_line (on_stdout p)) < max_token"
  shows "ch_reader st \<noteq> AwaitExit"
proof
  assume rd: "ch_reader st = AwaitExit"
  with assms(1) obtain seen where "on_stdout p = seen @ ch_out st @ on_stdout (ch_prog st)"
    "CHR 0x0A \<notin> set seen" "length seen = max_token"
    by (auto simp: child_ok_def reader_ok_def)
  with assms(2) show False by (simp add: first_line_whole)
qed

lemma rest_child:
  assumes "child_ok cap p st" "quiescent (child_step cap) (\<lambda>a. True) st" "0 < cap"
    and "length (first_line (on_stdout p)) < max_token"
  shows "ch_out st = []"
    "ch_prog st = [] \<or> (\<exists>b q. ch_prog st = ToStderr b # q) \<and> length (ch_err st) = cap"
proof -
  have "child_step cap CRead st = None" "child_step cap CWrite st = None"
    using quiescentD [OF assms(2)] by blast+
  then show out: "ch_out st = []"
    using fitting_line_read [OF assms(1,4)]
    by (auto simp: reader_step_def split: list.splits reader_pc.splits)
  from \<open>child_step cap CWrite st = None\<close> out assms(1,3)
  show "ch_prog st = [] \<or> (\<exists>b q. ch_prog st = ToStderr b # q) \<and> length (ch_err st) = cap"
    by (auto simp: child_write_def child_ok_def split: list.splits child_byte.splits if_splits)
qed

lemma rest_child_line:
  assumes "child_ok cap p st" "ch_out st = []" "ch_prog st = []"
    and "CHR 0x0A \<in> set (on_stdout p)" "length (first_line (on_stdout p)) < max_token"
  shows "ch_line st = Some (drop_cr (first_line (on_stdout p)))"
  using assms fitting_line_read [OF assms(1,5)]
  by (auto simp: child_ok_def reader_ok_def split: reader_pc.splits)

text \<open>The reader's line is the scanner's first token, which is what \<open>module_process\<close> hands to \<open>Launch\<close>.\<close>

lemma scan_lines_first:
  assumes "CHR 0x0A \<in> set s" "length (first_line s) < max_token"
  shows "\<exists>ls. scan_lines s = drop_cr (first_line s) # ls"
proof -
  from assms(1) obtain l t where s: "s = l @ CHR 0x0A # t" "CHR 0x0A \<notin> set l" by (meson split_list_first)
  then have l: "first_line s = l" by (simp add: first_line_whole) (simp add: first_line_def)
  have "split_on (CHR 0x0A) s = l # split_on (CHR 0x0A) t" using s by (simp add: split_on_append_sep)
  moreover have "split_on (CHR 0x0A) t \<noteq> []" by simp
  ultimately show ?thesis using assms(2) by (auto simp: scan_lines_def Let_def l)
qed

lemma module_process_first:
  assumes "on_stdout p = concat (map (\<lambda>l. l @ [CHR 0x0A]) (so_stdout out))"
    and "CHR 0x0A \<in> set (on_stdout p)" "length (first_line (on_stdout p)) < max_token"
  shows "module_process out = LineRead (hd (scan_lines (on_stdout p)))"
  using scan_lines_first [OF assms(2,3)] by (auto simp: module_process_def assms(1))

section \<open>Properties\<close>

text \<open>
  C19: a launched module's output flows exactly as long as its stderr fits the pipe: whatever it
  writes and however the reader is scheduled, if its first line of stdout fits the scanner, it gets
  past all its writes if and only if no more than the pipe's capacity of them goes to stderr; the
  line core then has is the scanner's first token of that output; and otherwise the module stays in a write to stderr for
  good, since nothing reads it.
\<close>
theorem child_output_flows_iff:
  assumes "0 < cap" and "length (first_line (on_stdout p)) < max_token"
  shows "(\<exists>as st. child_steps cap as (child_init p) = Some st \<and> quiescent (child_step cap) (\<lambda>a. True) st) \<and>
    (\<forall>as st. child_steps cap as (child_init p) = Some st \<longrightarrow>
      length as \<le> 2 * length p \<and>
      (quiescent (child_step cap) (\<lambda>a. True) st \<longrightarrow>
        (ch_prog st = [] \<longleftrightarrow> length (on_stderr p) \<le> cap) \<and>
        (ch_prog st \<noteq> [] \<longrightarrow> (\<exists>b q. ch_prog st = ToStderr b # q)) \<and>
        (ch_prog st = [] \<and> CHR 0x0A \<in> set (on_stdout p) \<longrightarrow>
          ch_line st = Some (hd (scan_lines (on_stdout p))))))"
proof (intro conjI allI impI)
  show "\<exists>as st. child_steps cap as (child_init p) = Some st \<and> quiescent (child_step cap) (\<lambda>a. True) st"
    using child_flow.settles [OF child_ok_init] by blast
  fix as st assume run: "child_steps cap as (child_init p) = Some st"
  with child_flow.run_bounded [OF child_ok_init, of as] have ok: "child_ok cap p st"
    and len: "length as \<le> child_rank (child_init p)" by fastforce+
  from len show "length as \<le> 2 * length p" by (simp add: child_rank_def child_init_def)
  assume rest: "quiescent (child_step cap) (\<lambda>a. True) st"
  note r = rest_child [OF ok rest assms]
  from ok have err: "on_stderr p = ch_err st @ on_stderr (ch_prog st)" "length (ch_err st) \<le> cap"
    by (simp_all add: child_ok_def)
  with r(2) show "ch_prog st = [] \<longleftrightarrow> length (on_stderr p) \<le> cap" by auto
  from r(2) show "\<exists>b q. ch_prog st = ToStderr b # q" if "ch_prog st \<noteq> []" using that by blast
  show "ch_line st = Some (hd (scan_lines (on_stdout p)))"
    if "ch_prog st = [] \<and> CHR 0x0A \<in> set (on_stdout p)"
    using rest_child_line [OF ok r(1) _ _ assms(2)] scan_lines_first [OF _ assms(2)] that by fastforce
qed

theorem child_output_flows_iff_witness:
  "\<exists>as st. child_steps 2 as (child_init (map ToStdout ''ok'' @ [ToStdout (CHR 0x0A)] @ map ToStderr ''log'')) = Some st \<and>
    length as \<le> 12 \<and> (\<exists>b q. ch_prog st = ToStderr b # q)"
proof -
  let ?p = "map ToStdout ''ok'' @ [ToStdout (CHR 0x0A)] @ map ToStderr ''log''"
  have "length (first_line (on_stdout ?p)) < max_token" by (simp add: first_line_def max_token_def)
  note flows = child_output_flows_iff [OF _ this, of 2]
  then obtain as st where st: "child_steps 2 as (child_init ?p) = Some st"
    "quiescent (child_step 2) (\<lambda>a. True) st" by auto
  with flows have "length as \<le> 2 * length ?p" "ch_prog st \<noteq> []"
    "ch_prog st \<noteq> [] \<longrightarrow> (\<exists>b q. ch_prog st = ToStderr b # q)" by auto
  with st(1) show ?thesis by auto
qed

end
