(* ===== verification/EndToEnd.thy ===== *)
theory EndToEnd
  imports StubCore
begin

text \<open>
  Both ends of a launch put together (\<open>modulesdk/serve.go\<close>, \<open>modulesdk/testkit/stubcore.go\<close>,
  \<open>hostserver.go\<close>): the token \<open>Launch\<close> draws is the one the module dials back with and the
  stub's interceptor asks for; and the Windows build's pipe names and handshake answer.
\<close>

section \<open>Hexadecimal names\<close>

definition hex_chars :: string where
  "hex_chars = ''0123456789abcdef''"

lemma hex_digit_nth: "hex_digit a = hex_chars ! a"
  by (simp only: hex_digit_def hex_chars_def)

lemma hex_chars_facts: "distinct hex_chars" "length hex_chars = 16"
  by (simp_all add: hex_chars_def)

lemma hex_digit_inj: "\<lbrakk>a < 16; b < 16\<rbrakk> \<Longrightarrow> hex_digit a = hex_digit b \<longleftrightarrow> a = b"
  by (simp add: hex_digit_nth nth_eq_iff_index_eq hex_chars_facts)

lemma hex_digit_mem: "a < 16 \<Longrightarrow> hex_digit a \<in> set hex_chars"
  by (simp add: hex_digit_nth hex_chars_facts)

lemma byte_split: "(unat (b :: 8 word) div 16 = unat c div 16 \<and> unat b mod 16 = unat c mod 16) \<longleftrightarrow> b = c"
  by (metis div_mult_mod_eq word_unat_eq_iff)

lemma byte_bounds: "unat (b :: 8 word) div 16 < 16" "unat (b :: 8 word) mod 16 < 16"
proof -
  have "unat b < 256" using unsigned_less [of b, where 'a = nat] by simp
  then show "unat b div 16 < 16" "unat b mod 16 < 16" by simp_all
qed

lemma hex_encode_inj: "hex_encode bs = hex_encode cs \<longleftrightarrow> bs = cs"
proof (induction bs arbitrary: cs)
  case (Cons b bs)
  then show ?case
    by (cases cs) (auto simp: hex_digit_inj byte_bounds byte_split [symmetric])
qed (simp add: eq_commute [of "[]"])

lemma length_hex_encode: "length (hex_encode bs) = 2 * length bs"
  by (induction bs) simp_all

lemma set_hex_encode: "set (hex_encode bs) \<subseteq> set hex_chars"
  by (induction bs) (simp_all add: hex_digit_mem byte_bounds)

section \<open>The Windows build\<close>

lemma windows_addr:
  "moduleAddr ''windows'' env nonce ident = Inr addr \<longleftrightarrow>
     (\<exists>bs. nonce = Inr bs \<and> addr = pipe_prefix @ ident @ ''-'' @ hex_encode bs)"
  by (auto simp: moduleAddr_def split: sum.splits)

lemma pipe_no_space: "\<not> ends_in_space (xs @ ''-'' @ hex_encode bs)"
proof
  assume "ends_in_space (xs @ ''-'' @ hex_encode bs)"
  then obtain p where p: "p \<in> set space_runes" and sfx: "suffix p (xs @ ''-'' @ hex_encode bs)"
    by (auto simp: ends_in_space_def)
  have "p \<noteq> []" using p space_runes_nonempty by auto
  with sfx have "last p = last (''-'' @ hex_encode bs)" by (auto simp: suffix_def dest: arg_cong [where f = last])
  also have "\<dots> \<in> set (''-'' @ hex_encode bs)" by (rule last_in_set) simp
  finally have "last p = CHR ''-'' \<or> last p \<in> set hex_chars" using set_hex_encode [of bs] by auto
  with p show False by (auto simp: space_runes_def hex_chars_def)
qed

lemma pipe_no_bar: "CHR ''|'' \<notin> set (pipe_prefix @ ident @ ''-'' @ hex_encode bs) \<longleftrightarrow> CHR ''|'' \<notin> set ident"
proof -
  have "CHR ''|'' \<notin> set (hex_encode bs)" using set_hex_encode [of bs] by (auto simp: hex_chars_def)
  then show ?thesis by (simp add: pipe_prefix_def)
qed

section \<open>The test of sequence and identity\<close>

text \<open>
  \<open>TestInitEnforcesSequenceAndIdentity\<close> for any module: a core that believes it launched
  another one is refused at \<open>Init\<close>, and its \<open>Start\<close> after that is refused too, with the module never called and
  the host untouched.
\<close>

lemma impostor_refused:
  assumes "sc_ModuleID c \<noteq> m_ID M" and "s = newServer m d token ap fe"
  shows "Init M ctx (core_Init c p) grpc s = (Inl (IdentityMismatch (sc_ModuleID c) (m_ID M)), s) \<and>
    Start M ctx s = (Inl (StartInState stateCreated), s)"
  using assms by (simp add: Init_def core_Init_def Start_def newServer_def)

section \<open>Properties\<close>

text \<open>
  C37: the Windows build's handshake answer: a module that gets to serving there prints exactly
  one line, naming a pipe made of its id and 16 hexadecimal digits of nonce that it listens on
  with the restricted descriptor; core reads the line back unchanged exactly when the id has no
  \<open>|\<close>; and two modules or two launches have the same pipe name only for the same id and nonce.
\<close>
theorem windows_handshake_answer:
  assumes "serve_on (windows_seam lp dp cl) nonce M ns env f es w es' = Some out" and "so_server out \<noteq> None"
    and "nonce = Inr bs" and "length bs = 8"
  defines "addr \<equiv> pipe_prefix @ m_ID M @ ''-'' @ hex_encode bs"
  defines "line \<equiv> \<lparr>Protocol = ModuleProtocol, Network = NetworkPipe, Addr = addr\<rparr>"
  shows "so_stdout out = [Format line] \<and> \<not> isl (fst (lp addr pipeSDDL f)) \<and>
    (Parse (Format line) = Inr line \<longleftrightarrow> CHR ''|'' \<notin> set (m_ID M)) \<and>
    (length cs = 8 \<and> moduleAddr ''windows'' env (Inr cs) ident = Inr addr \<longleftrightarrow> ident = m_ID M \<and> cs = bs)"
proof -
  have "moduleAddr ''windows'' env nonce (m_ID M) = Inr addr"
    by (simp add: windows_addr assms(3) addr_def)
  with assms(1,2) obtain a f' s0 where lis: "lp addr pipeSDDL f = (Inr a, f')"
    and run: "run_module_on (windows_seam lp dp cl) M addr f' es w es' s0 = Some out"
    by (auto simp: serve_on_def serve_fails_def listen_windows_def split: sum.splits prod.splits)
  have "so_stdout out = [Format line]"
    using run by (auto simp: run_module_on_def Let_def line_def split: wake.splits if_splits)
  moreover have "addr \<noteq> []" "\<not> ends_in_space addr"
    using pipe_no_space [of "pipe_prefix @ m_ID M" bs] by (simp_all add: addr_def pipe_prefix_def)
  then have "wf_line line \<longleftrightarrow> CHR ''|'' \<notin> set (m_ID M)"
    using pipe_no_bar [of "m_ID M" bs] by (simp add: wf_line_def line_def ModuleProtocol_def addr_def)
  then have "Parse (Format line) = Inr line \<longleftrightarrow> CHR ''|'' \<notin> set (m_ID M)"
    using Parse_Format_wf Parse_wf by blast
  moreover have "ident @ ''-'' @ hex_encode cs = m_ID M @ ''-'' @ hex_encode bs \<longleftrightarrow> ident = m_ID M \<and> cs = bs"
    if "length cs = 8"
  proof -
    have "length (hex_encode cs) = length (hex_encode bs)" using that assms(4) by (simp add: length_hex_encode)
    then show ?thesis by (simp add: hex_encode_inj append_eq_append_conv)
  qed
  then have "length cs = 8 \<and> moduleAddr ''windows'' env (Inr cs) ident = Inr addr \<longleftrightarrow> ident = m_ID M \<and> cs = bs"
    using assms(4) by (auto simp: windows_addr addr_def)
  ultimately show ?thesis using lis by simp
qed

text \<open>A pipe library that always makes the pipe.\<close>

definition plain_windows :: seam where
  "plain_windows = windows_seam (\<lambda>addr sddl f. (Inr addr, f)) (\<lambda>f addr. Inr addr) (\<lambda>addr f. f)"

theorem windows_handshake_answer_witness:
  "\<exists>out. serve_on plain_windows (Inr [0, 1, 2, 3, 4, 5, 6, 255]) toy toy_new
      (launch_env ''1'' ''1'' ''tok'' ''h'' [])
      plain_fs [] WakeSignal [] = Some out \<and>
     so_stdout out = [Format \<lparr>Protocol = 1, Network = NetworkPipe,
       Addr = pipe_prefix @ ''toy-00010203040506ff''\<rparr>]"
proof -
  let ?n = "[0, 1, 2, 3, 4, 5, 6, 255] :: 8 word list"
  have hex: "hex_encode ?n = ''00010203040506ff''" by (simp add: hex_digit_def)
  obtain out where out: "serve_on plain_windows (Inr ?n) toy toy_new
      (launch_env ''1'' ''1'' ''tok'' ''h'' [])
      plain_fs [] WakeSignal [] = Some out" "so_server out \<noteq> None"
    by (simp add: plain_windows_def serve_on_def negotiate_def window_1 Contains_def ModuleProtocol_def handshake_env_def
        moduleAddr_def listen_windows_def run_module_on_def Let_def del: hex_encode.simps)
  from windows_handshake_answer [OF out(1) [unfolded plain_windows_def] out(2) refl, of "[]" "[]"] out(1)
  show ?thesis by (simp add: hex ModuleProtocol_def del: hex_encode.simps)
qed

text \<open>
  C22: the token holds end to end: whenever \<open>Launch\<close> serves the host and starts a process, the
  token and address in that process's environment are those of the host server it started, the
  token is 16 hexadecimal digits that no other nonce gives, and the client a module there dials
  with is one the stub serves.
\<close>
theorem launch_token_end_to_end:
  assumes "Launch c li = (r, acts)" and "HostServe a t \<in> set acts" and "ProcStart env \<in> set acts"
    and "li_rand li = Inr nonce" and "length nonce = 8" and "li_mkdtemp li = Inr dir" and "dir \<noteq> []"
    and metadata: "\<And>ctx k v. md_get (ap ctx k v) k = md_get ctx k @ [v]" "md_get ctx TokenMetadataKey = []"
  shows "handshake_env env = Inr (t, a) \<and> length t = 16 \<and> (hex_encode other = t \<longleftrightarrow> other = nonce) \<and>
    (\<exists>h. connectHost (newServer m d t ap fe) (Inr (registerHostServices md_get t (sc_ModuleID c) seed now lives)) = Inr h \<and>
       stub_served md_get (sc_ModuleID c) seed now h ctx)"
proof -
  let ?a = "join_path [dir, ''host.sock'']" and ?t = "hex_encode nonce"
  let ?env = "cmd_env c (li_environ li) ?t ?a dir"
  have "a = ?a \<and> t = ?t \<and> env = ?env"
    using assms(1-4,6) by (auto simp: Launch_unfold Let_def spawn_def await_line_def accept_line_def
        split: sum.splits prod.splits option.splits launch_event.splits if_splits)
  moreover have "?a \<noteq> []"
    using join_path_name [OF assms(7), of "''host.sock''"] by (simp add: plain_name_def)
  moreover have "?t \<noteq> []" using assms(5) by auto
  moreover have "\<exists>h. connectHost (newServer m d ?t ap fe) (Inr (registerHostServices md_get ?t (sc_ModuleID c) seed now lives)) = Inr h \<and>
      stub_served md_get (sc_ModuleID c) seed now h ctx"
    by (simp add: connectHost_def dialHost_def newServer_def stub_served_def withToken_def metadata) blast
  ultimately show ?thesis
    using assms(5) by (simp add: handshake_env_def length_hex_encode hex_encode_inj)
qed

theorem launch_token_end_to_end_witness:
  "\<exists>t a env h. HostServe a t \<in> set (snd (Launch toy_core toy_refused_line)) \<and>
     ProcStart env \<in> set (snd (Launch toy_core toy_refused_line)) \<and> handshake_env env = Inr (t, a) \<and>
     stub_served plain_get ''toy'' 0 0 (h :: (plain_ctx, HostData) hostClient) []"
proof -
  let ?n = "[1, 2, 3, 4, 5, 6, 7, 8] :: 8 word list"
  have li: "li_rand toy_refused_line = Inr ?n" "li_mkdtemp toy_refused_line = Inr ''/w''"
    by (simp_all add: toy_refused_line_def)
  obtain a t env where acts: "HostServe a t \<in> set (snd (Launch toy_core toy_refused_line))"
      "ProcStart env \<in> set (snd (Launch toy_core toy_refused_line))"
    by (simp add: toy_refused_line_def Launch_unfold host_addr host_listen spawn_def await_line_def case_prod_beta Let_def
        del: hex_encode.simps)
  have md: "plain_get (plain_append ctx k v) k = plain_get ctx k @ [v]" "plain_get [] TokenMetadataKey = []" for ctx k v
    by (simp_all add: plain_get_def plain_append_def)
  have "length ?n = 8" "''/w'' \<noteq> []" by simp_all
  from launch_token_end_to_end [OF surjective_pairing acts li(1) this(1) li(2) this(2), of plain_get plain_append "[]"] md acts
  show ?thesis by (fastforce simp: toy_core_def)
qed

end
