(* ===== verification/IntegrationTests.thy ===== *)
theory IntegrationTests
  imports EndToEnd
begin

text \<open>
  The repository's integration tests (\<open>modulesdk/testkit/stubcore_test.go\<close>) replayed on the model:
  the toy module is launched under the test's window, over one fixed directory and nonce, and then
  driven as the test drives it.  Every assertion of the tests is an equation here; the building of
  the binary is not.
\<close>

section \<open>The launches\<close>

definition test_nonce :: "8 word list" where
  "test_nonce = [1, 2, 3, 4, 5, 6, 7, 8]"

definition test_out :: "StubCore \<Rightarrow> (unit, plain_ctx, HostData) moduleServer serve_out" where
  "test_out c = the (serve toy toy_new
     (cmd_env c Map.empty (hex_encode test_nonce) (join_path [''/w'', ''host.sock'']) ''/w'')
     plain_fs [] WakeSignal [])"

definition test_launch :: "StubCore \<Rightarrow> launch_in" where
  "test_launch c =
     \<lparr>li_rand = Inr test_nonce, li_mkdtemp = Inr ''/w'', li_fs = plain_fs, li_environ = Map.empty,
      li_stdout_pipe = None, li_stderr_pipe = None, li_start = None, li_client = (\<lambda>_ _. None),
      li_event = (\<lambda>_. module_process (test_out c))\<rparr>"

definition test_core :: "string \<Rightarrow> Window \<Rightarrow> StubCore" where
  "test_core moduleID window =
     \<lparr>sc_Window = window, sc_ModuleID = moduleID, sc_Config = [], sc_Capabilities = [], sc_Data = None,
      sc_LaunchTimeout = 0\<rparr>"

definition toy_line :: Line where
  "toy_line = \<lparr>Protocol = 1, Network = NetworkUnix, Addr = ''/w/toy.sock''\<rparr>"

lemma test_serve:
  assumes "wf_window (core_window c)"
  shows "serve toy toy_new
     (cmd_env c Map.empty (hex_encode test_nonce) (join_path [''/w'', ''host.sock'']) ''/w'') plain_fs [] WakeSignal [] =
   Some (test_out c)"
proof -
  have "test_nonce \<noteq> []" by (simp add: test_nonce_def)
  then show ?thesis
    using cmd_env_window [OF assms]
    by (simp add: test_out_def serve_unfold negotiate_def handshake_env_def moduleAddr_def toy_addr toy_listen
        host_addr run_module_unfold Let_def)
qed

lemma test_launch_await:
  "fst (Launch c (test_launch c)) = fst (await_line c (test_launch c))"
  by (rule Launch_spawn [where nonce = test_nonce and dir = "''/w''" and a = "''/w/host.sock''"])
    (simp_all add: test_launch_def host_addr host_listen)

lemma test_launched:
  assumes "wf_window (core_window c)" "Contains (core_window c) ModuleProtocol"
  shows "fst (Launch c (test_launch c)) = Inr \<lparr>mp_Line = toy_line, mp_Data = core_data c\<rparr>"
proof -
  have "li_event (test_launch c) = (\<lambda>_. module_process (test_out c))" "li_client (test_launch c) = (\<lambda>_ _. None)"
    "test_nonce \<noteq> []" "''/w'' \<noteq> []"
    by (simp_all add: test_launch_def test_nonce_def)
  from await_served [OF assms this(3,4) test_serve [OF assms(1)] this(1,2)]
  show ?thesis
    by (simp add: test_launch_await toy_addr toy_listen toy_line_def ModuleProtocol_def plain_fs_def [THEN arg_cong [where f = fs_sun_path]])
qed

lemma test_refused:
  assumes "wf_window (core_window c)" "\<not> Contains (core_window c) ModuleProtocol"
  shows "fst (Launch c (test_launch c)) = Inl ErrProtocolRefused"
proof -
  have "li_event (test_launch c) = (\<lambda>_. module_process (test_out c))" by (simp add: test_launch_def)
  from await_refused [OF assms test_serve [OF assms(1)] this] show ?thesis by (simp add: test_launch_await)
qed

lemmas window_simps = core_window_def test_core_def toy_core_def wf_window_def Contains_def ModuleProtocol_def
  word_le_nat_alt

section \<open>The tests\<close>

lemma TestProtocolRefusedCleanly:
  "let core = test_core ''toy'' \<lparr>Min = 2, Max = 3\<rparr> in
   fst (Launch core (test_launch core)) = Inl ErrProtocolRefused"
  unfolding Let_def by (rule test_refused) (simp_all add: window_simps)

lemma TestProtocolAcceptedAtWindowEdge:
  "let core = test_core ''toy'' \<lparr>Min = 1, Max = 2\<rparr>; p = \<lparr>mp_Line = toy_line, mp_Data = NewHostData\<rparr> in
   fst (Launch core (test_launch core)) = Inr p \<and>
   \<not> isl (fst (Init toy [] (core_Init core p) (Inr (stub_rpc token seed now)) (toy_new token)))"
proof -
  let ?c = "test_core ''toy'' \<lparr>Min = 1, Max = 2\<rparr>" and ?p = "\<lparr>mp_Line = toy_line, mp_Data = NewHostData\<rparr>"
  have "fst (Launch ?c (test_launch ?c)) = Inr \<lparr>mp_Line = toy_line, mp_Data = core_data ?c\<rparr>"
    by (rule test_launched) (simp_all add: window_simps)
  moreover have "core_data ?c = NewHostData" by (simp add: core_data_def test_core_def)
  moreover have "req_ModuleId (core_Init ?c ?p) = ''toy''" "req_Protocol (core_Init ?c ?p) = 1"
    "req_WatchdogIntervalSeconds (core_Init ?c ?p) = 0"
    by (simp_all add: core_Init_def test_core_def toy_line_def)
  note init = toy_Init_step [OF this]
  ultimately show ?thesis by (simp add: Let_def init)
qed

lemma TestInitEnforcesSequenceAndIdentity:
  "let core = test_core ''impostor'' \<lparr>Min = 0, Max = 0\<rparr>; p = \<lparr>mp_Line = toy_line, mp_Data = NewHostData\<rparr>;
       (init, s1) = Init toy [] (core_Init core p) (Inr (stub_rpc token seed now)) (toy_new token);
       (start, s2) = Start toy [] s1 in
   fst (Launch core (test_launch core)) = Inr p \<and> isl init \<and> isl start \<and> ms_calls s2 = []"
proof -
  let ?c = "test_core ''impostor'' \<lparr>Min = 0, Max = 0\<rparr>" and ?p = "\<lparr>mp_Line = toy_line, mp_Data = NewHostData\<rparr>"
  have "fst (Launch ?c (test_launch ?c)) = Inr \<lparr>mp_Line = toy_line, mp_Data = core_data ?c\<rparr>"
    by (rule test_launched) (simp_all add: window_simps)
  moreover have "core_data ?c = NewHostData" by (simp add: core_data_def test_core_def)
  moreover have "sc_ModuleID ?c \<noteq> m_ID toy" by (simp add: test_core_def)
  note imp = impostor_refused [OF this toy_new_def, where p = ?p and token = token]
  ultimately show ?thesis
    using imp [of "[]" "Inr (stub_rpc token seed now)"] by (simp add: Let_def) (simp add: toy_new_def newServer_def)
qed

lemma TestHandshakeAndLifecycle:
  "let p = \<lparr>mp_Line = toy_line, mp_Data = NewHostData\<rparr>;
       (init, s1) = Init toy [] (core_Init toy_core p) (Inr (stub_rpc token seed now)) (toy_new token);
       s = run_events toy [EInit [] (core_Init toy_core p) (Inr (stub_rpc token seed now)), EStart [], EHealth,
         EStop [] 5, EShutdown []] (toy_new token) in
   fst (Launch toy_core (test_launch toy_core)) = Inr p \<and> Protocol (mp_Line p) = 1 \<and>
   (\<exists>resp. init = Inr resp \<and> resp_Requires resp = [''test.cap''] \<and> map srf_ID (resp_Surfaces resp) = [''toy-card'']) \<and>
   StoreGet (ms_services s1) ''init-key'' = (''init-value'', True) \<and>
   map ev_Topic (Events (ms_services s)) = [''toy.started''] \<and>
   map sm_Kind (Sends (ms_services s)) = [''heartbeat''] \<and>
   h_Status (fst (m_Health toy ())) = HealthHealthy \<and>
   ms_calls s = [DidInit True, DidRequires, DidStart True, DidHealth, DidStop True] \<and> ms_shutdown s = [()]"
proof -
  let ?p = "\<lparr>mp_Line = toy_line, mp_Data = NewHostData\<rparr>"
  have "fst (Launch toy_core (test_launch toy_core)) = Inr \<lparr>mp_Line = toy_line, mp_Data = core_data toy_core\<rparr>"
    by (rule test_launched) (simp_all add: window_simps)
  moreover have "core_data toy_core = NewHostData" by (simp add: core_data_def toy_core_def)
  moreover have req: "req_ModuleId (core_Init toy_core ?p) = ''toy''" "req_Protocol (core_Init toy_core ?p) = 1"
    "req_WatchdogIntervalSeconds (core_Init toy_core ?p) = 0"
    by (simp_all add: core_Init_def toy_core_def toy_line_def)
  note init = toy_Init_step [OF req] and run = toy_run_to_shutdown [OF req refl]
  moreover have "Protocol toy_line = 1" by (simp add: toy_line_def)
  moreover have "StoreGet toy_data ''init-key'' = (''init-value'', True)"
    by (simp add: toy_data_def StoreGet_def StorePut_def NewHostData_def)
  ultimately show ?thesis
    by (simp add: Let_def init run started_data_facts toy_card_def m_Health_toy del: run_events.simps)
qed

end
