(* ===== verification/WinPath.thy ===== *)
theory WinPath
  imports Platform
begin

text \<open>
  The filesystem contract on Windows (\<open>platform/platform_windows.go\<close>, \<open>Paths\<close>), over Go's
  \<open>filepath.Join\<close> and \<open>filepath.Clean\<close> for that system: volume names, both slashes as separators,
  and the output buffer that is only allocated once it differs from the input.
\<close>

section \<open>Volume names\<close>

definition win_sep :: "char \<Rightarrow> bool" where
  "win_sep c \<longleftrightarrow> c = CHR 0x5C \<or> c = CHR ''/''"

definition backslashed :: "string \<Rightarrow> string" where
  "backslashed s = map (\<lambda>c. if c = CHR ''/'' then CHR 0x5C else c) s"

definition prefix_fold :: "string \<Rightarrow> string \<Rightarrow> bool" where
  "prefix_fold p s \<longleftrightarrow>
     list_all2 (\<lambda>a b. if win_sep a then win_sep b else ascii_lower a = ascii_lower b) p (take (length p) s) \<and>
     (drop (length p) s = [] \<or> win_sep (hd (drop (length p) s)))"

text \<open>From \<open>i\<close> on, where the second separator is, or the end.\<close>

fun second_sep :: "nat \<Rightarrow> nat \<Rightarrow> string \<Rightarrow> nat" where
  "second_sep seen i [] = i"
| "second_sep seen i (c # s) =
     (if win_sep c then (if seen = 1 then i else second_sep (Suc seen) (Suc i) s) else second_sep seen (Suc i) s)"

definition unc_len :: "string \<Rightarrow> nat \<Rightarrow> nat" where
  "unc_len path n = (if length path \<le> n then length path else second_sep 0 n (drop n path))"

definition sl :: string where "sl = [CHR 0x5C]"

definition volume_len :: "string \<Rightarrow> nat" where
  "volume_len path =
     (if length path \<ge> 2 \<and> path ! 1 = CHR '':'' then 2
      else if path = [] \<or> \<not> win_sep (path ! 0) then 0
      else if prefix_fold (sl @ sl @ ''.'' @ sl @ ''UNC'') path then unc_len path 8
      else if prefix_fold (sl @ sl @ ''.'') path \<or> prefix_fold (sl @ sl @ ''?'') path \<or> prefix_fold (sl @ ''??'') path then
        (if length path = 3 then 3
         else let rest = dropWhile (\<lambda>c. \<not> win_sep c) (drop 4 path) in
           if rest = [] then length path else length path - length (tl rest) - 1)
      else if length path \<ge> 2 \<and> win_sep (path ! 1) then unc_len path 2
      else 0)"

section \<open>Clean\<close>

text \<open>
  The lazy buffer over \<open>path\<close>, the input without its volume: the write position, and the bytes
  once they are its own.
\<close>

record lazybuf =
  lb_w :: nat
  lb_buf :: "string option"

definition lb_append :: "string \<Rightarrow> char \<Rightarrow> lazybuf \<Rightarrow> lazybuf" where
  "lb_append path c b =
     (let w = lb_w b in
      case lb_buf b of
        Some bytes \<Rightarrow> \<lparr>lb_w = Suc w, lb_buf = Some (bytes[w := c])\<rparr>
      | None \<Rightarrow>
          if w < length path \<and> path ! w = c then b\<lparr>lb_w := Suc w\<rparr>
          else \<lparr>lb_w = Suc w, lb_buf = Some ((take w path @ replicate (length path - w) (CHR 0x00))[w := c])\<rparr>)"

definition lb_appends :: "string \<Rightarrow> string \<Rightarrow> lazybuf \<Rightarrow> lazybuf" where
  "lb_appends path s b = fold (lb_append path) s b"

definition lb_string :: "string \<Rightarrow> lazybuf \<Rightarrow> string" where
  "lb_string path b = take (lb_w b) (case lb_buf b of None \<Rightarrow> path | Some bytes \<Rightarrow> bytes)"

fun back_to :: "string \<Rightarrow> nat \<Rightarrow> nat \<Rightarrow> nat" where
  "back_to bytes dotdot 0 = 0"
| "back_to bytes dotdot (Suc w) =
     (if Suc w > dotdot \<and> \<not> win_sep (bytes ! Suc w) then back_to bytes dotdot w else Suc w)"

definition lb_back :: "string \<Rightarrow> nat \<Rightarrow> lazybuf \<Rightarrow> lazybuf" where
  "lb_back path dotdot b =
     b\<lparr>lb_w := back_to (case lb_buf b of None \<Rightarrow> path | Some bytes \<Rightarrow> bytes) dotdot (lb_w b - 1)\<rparr>"

function clean_loop :: "string \<Rightarrow> bool \<Rightarrow> nat \<Rightarrow> lazybuf \<Rightarrow> string \<Rightarrow> lazybuf" where
  "clean_loop path rooted dotdot b [] = b"
| "clean_loop path rooted dotdot b (c # xs) =
     (if win_sep c then clean_loop path rooted dotdot b xs
      else if c = CHR ''.'' \<and> (xs = [] \<or> win_sep (hd xs)) then clean_loop path rooted dotdot b xs
      else if c = CHR ''.'' \<and> hd xs = CHR ''.'' \<and> (tl xs = [] \<or> win_sep (hd (tl xs))) then
        (if lb_w b > dotdot then clean_loop path rooted dotdot (lb_back path dotdot b) (tl xs)
         else if \<not> rooted then
           (let b' = lb_appends path (if lb_w b > 0 then sl @ ''..'' else ''..'') b
            in clean_loop path rooted (lb_w b') b' (tl xs))
         else clean_loop path rooted dotdot b (tl xs))
      else
        clean_loop path rooted dotdot
          (lb_appends path (takeWhile (\<lambda>c. \<not> win_sep c) (c # xs))
            (if rooted \<and> lb_w b \<noteq> 1 \<or> \<not> rooted \<and> lb_w b \<noteq> 0 then lb_append path (CHR 0x5C) b else b))
          (dropWhile (\<lambda>c. \<not> win_sep c) xs))"
  by pat_completeness auto
termination
  by (relation "measure (\<lambda>(path, rooted, dotdot, b, xs). length xs)") (auto simp: le_imp_less_Suc length_dropWhile_le)

text \<open>\<open>postClean\<close>: a relative result must not turn into a volume or a root-local device path.\<close>

definition post_clean :: "string \<Rightarrow> lazybuf \<Rightarrow> string" where
  "post_clean path b =
     (case lb_buf b of
        None \<Rightarrow> lb_string path b
      | Some bytes \<Rightarrow>
          if CHR '':'' \<in> set (takeWhile (\<lambda>c. \<not> win_sep c) bytes) then ''.'' @ sl @ lb_string path b
          else if length bytes \<ge> 3 \<and> win_sep (bytes ! 0) \<and> bytes ! 1 = CHR ''?'' \<and> bytes ! 2 = CHR ''?''
          then sl @ ''.'' @ lb_string path b
          else lb_string path b)"

definition win_clean :: "string \<Rightarrow> string" where
  "win_clean orig =
     (let vol = volume_len orig; path = drop vol orig in
      if path = [] then (if vol > 1 \<and> win_sep (orig ! 0) \<and> win_sep (orig ! 1) then backslashed orig else orig @ ''.'')
      else
        let rooted = win_sep (hd path);
            empty = \<lparr>lb_w = 0, lb_buf = None\<rparr>;
            b = (if rooted then clean_loop path True 1 (lb_append path (CHR 0x5C) empty) (tl path)
                 else clean_loop path False 0 empty path);
            b' = (if lb_w b = 0 then lb_append path (CHR ''.'') b else b)
        in backslashed (take vol orig @ (if vol \<noteq> 0 then lb_string path b' else post_clean path b')))"

section \<open>Join and Paths\<close>

definition join_elem :: "string \<Rightarrow> string \<Rightarrow> string" where
  "join_elem b e =
     (if b = [] then e
      else if win_sep (last b) then
        (let e' = dropWhile win_sep e in
         if length b = 1 \<and> prefix ''??'' e' \<and> (length e' = 2 \<or> win_sep (e' ! 2)) then b @ ''.'' @ sl @ e' else b @ e')
      else if last b = CHR '':'' then b @ e
      else b @ sl @ e)"

definition win_join :: "string list \<Rightarrow> string" where
  "win_join es = (let b = fold (\<lambda>e b. join_elem b e) es [] in if b = [] then [] else win_clean b)"

definition Paths_windows :: "environ \<Rightarrow> PathSet" where
  "Paths_windows env =
     (let programData = (if os_Getenv env ''ProgramData'' = [] then ''C:'' @ sl @ ''ProgramData'' else os_Getenv env ''ProgramData'');
          root = win_join [programData, ''Weave'']
      in \<lparr>StateDir = root, LogDir = win_join [root, ''logs''], RunDir = win_join [root, ''run''],
          StagingDir = win_join [root, ''staging'']\<rparr>)"

section \<open>Clean paths stay as they are\<close>

definition win_name :: "string \<Rightarrow> bool" where
  "win_name p \<longleftrightarrow> p \<noteq> [] \<and> p \<noteq> ''.'' \<and> p \<noteq> ''..'' \<and> list_all (\<lambda>c. \<not> win_sep c \<and> c \<noteq> CHR '':'') p"

text \<open>A path below a drive's root: the drive letter and one name or more.\<close>

definition names :: "string list \<Rightarrow> string" where
  "names ps = concat (map (\<lambda>p. sl @ p) ps)"

definition drive_path :: "char \<Rightarrow> string list \<Rightarrow> string" where
  "drive_path d ps = d # CHR '':'' # names ps"

lemma names_simps [simp]: "names [] = []" "names (p # ps) = sl @ p @ names ps" "names (ps @ qs) = names ps @ names qs"
  by (simp_all add: names_def)

lemma sep_sl: "win_sep (CHR 0x5C)" "sl = [CHR 0x5C]"
  by (simp_all add: win_sep_def sl_def)

lemma names_hd: "ps \<noteq> [] \<Longrightarrow> \<exists>t. names ps = CHR 0x5C # t"
  by (cases ps) (simp_all add: sep_sl(2))

lemma lb_append_same:
  "path = pre @ c # post \<Longrightarrow> lb_append path c \<lparr>lb_w = length pre, lb_buf = None\<rparr> = \<lparr>lb_w = length (pre @ [c]), lb_buf = None\<rparr>"
  by (simp add: lb_append_def)

lemma lb_appends_same:
  "path = pre @ s @ post \<Longrightarrow> lb_appends path s \<lparr>lb_w = length pre, lb_buf = None\<rparr> = \<lparr>lb_w = length (pre @ s), lb_buf = None\<rparr>"
proof (induction s arbitrary: pre)
  case (Cons c s)
  then have "lb_append path c \<lparr>lb_w = length pre, lb_buf = None\<rparr> = \<lparr>lb_w = length (pre @ [c]), lb_buf = None\<rparr>"
    by (intro lb_append_same) simp
  moreover have "lb_appends path s \<lparr>lb_w = length (pre @ [c]), lb_buf = None\<rparr> = \<lparr>lb_w = length ((pre @ [c]) @ s), lb_buf = None\<rparr>"
    using Cons.prems by (intro Cons.IH) simp
  ultimately show ?case by (simp add: lb_appends_def)
qed (simp add: lb_appends_def)

lemma span_name:
  assumes "win_name p"
  shows "takeWhile (\<lambda>c. \<not> win_sep c) (p @ names ps) = p" "dropWhile (\<lambda>c. \<not> win_sep c) (p @ names ps) = names ps"
proof -
  have "takeWhile (\<lambda>c. \<not> win_sep c) (names ps) = []" "dropWhile (\<lambda>c. \<not> win_sep c) (names ps) = names ps"
    by (cases ps; simp add: sep_sl)+
  with assms show "takeWhile (\<lambda>c. \<not> win_sep c) (p @ names ps) = p" "dropWhile (\<lambda>c. \<not> win_sep c) (p @ names ps) = names ps"
    by (simp_all add: win_name_def list_all_iff)
qed

text \<open>One name: none of the special cases applies.\<close>

lemma clean_loop_name:
  assumes "win_name p"
  shows "clean_loop path True dotdot b (p @ names ps) =
    clean_loop path True dotdot (lb_appends path p (if lb_w b \<noteq> 1 then lb_append path (CHR 0x5C) b else b)) (names ps)"
proof -
  from assms obtain c q where p: "p = c # q" "\<not> win_sep c" by (cases p) (auto simp: win_name_def)
  have tail: "names ps = [] \<or> win_sep (hd (names ps))" using names_hd [of ps] sep_sl(1) by (cases ps) auto
  have q: "\<And>x. x \<in> set q \<Longrightarrow> \<not> win_sep x" using assms p by (simp add: win_name_def list_all_iff)
  have n1: "\<not> (c = CHR ''.'' \<and> (q @ names ps = [] \<or> win_sep (hd (q @ names ps))))"
    using assms p q by (cases q) (auto simp: win_name_def)
  have n2: "\<not> (c = CHR ''.'' \<and> hd (q @ names ps) = CHR ''.'' \<and> (tl (q @ names ps) = [] \<or> win_sep (hd (tl (q @ names ps)))))"
  proof (cases q)
    case Nil
    with assms p show ?thesis by (auto simp: win_name_def)
  next
    case (Cons x r)
    with assms p q show ?thesis by (cases r) (auto simp: win_name_def)
  qed
  have span: "takeWhile (\<lambda>c. \<not> win_sep c) (c # q @ names ps) = p"
    "dropWhile (\<lambda>c. \<not> win_sep c) (q @ names ps) = names ps"
    using span_name [OF assms, of ps] p by simp_all
  show ?thesis
    unfolding p(1) append_Cons clean_loop.simps(2) if_not_P [OF p(2)] if_not_P [OF n1] if_not_P [OF n2] span
    by (simp add: p(1))
qed

lemma clean_loop_names:
  "\<lbrakk>list_all win_name ps; path = pre @ names ps; length pre \<noteq> 1\<rbrakk> \<Longrightarrow>
   clean_loop path True dotdot \<lparr>lb_w = length pre, lb_buf = None\<rparr> (names ps) = \<lparr>lb_w = length path, lb_buf = None\<rparr>"
proof (induction ps arbitrary: pre)
  case (Cons p ps)
  have "clean_loop path True dotdot \<lparr>lb_w = length pre, lb_buf = None\<rparr> (names (p # ps)) =
      clean_loop path True dotdot \<lparr>lb_w = length pre, lb_buf = None\<rparr> (p @ names ps)" by (simp add: sep_sl)
  also have "\<dots> = clean_loop path True dotdot (lb_appends path p (lb_append path (CHR 0x5C) \<lparr>lb_w = length pre, lb_buf = None\<rparr>)) (names ps)"
    using Cons.prems by (simp add: clean_loop_name)
  also have "lb_append path (CHR 0x5C) \<lparr>lb_w = length pre, lb_buf = None\<rparr> = \<lparr>lb_w = length (pre @ sl), lb_buf = None\<rparr>"
    unfolding sep_sl(2) by (rule lb_append_same [of _ _ _ "p @ names ps"]) (simp add: Cons.prems(2) sep_sl(2))
  also have "lb_appends path p \<dots> = \<lparr>lb_w = length ((pre @ sl) @ p), lb_buf = None\<rparr>"
    by (rule lb_appends_same [of _ _ _ "names ps"]) (simp add: Cons.prems(2))
  also have "clean_loop path True dotdot \<dots> (names ps) = \<lparr>lb_w = length path, lb_buf = None\<rparr>"
    using Cons.prems by (intro Cons.IH) (auto simp: sep_sl(2) win_name_def)
  finally show ?case .
qed simp

lemma backslashed_id: "list_all (\<lambda>c. c \<noteq> CHR ''/'') s \<Longrightarrow> backslashed s = s"
  by (induction s) (auto simp: backslashed_def)

lemma drive_path_backslashed: "\<lbrakk>d \<noteq> CHR ''/''; list_all win_name ps\<rbrakk> \<Longrightarrow> backslashed (drive_path d ps) = drive_path d ps"
  by (rule backslashed_id) (auto simp: drive_path_def names_def list_all_iff win_name_def win_sep_def sl_def)

lemma win_clean_drive:
  assumes "d \<noteq> CHR ''/''" "list_all win_name ps" "ps \<noteq> []"
  shows "win_clean (drive_path d ps) = drive_path d ps"
proof -
  obtain p qs where ps: "ps = p # qs" using assms(3) by (cases ps) auto
  let ?path = "names ps"
  have start: "lb_append ?path (CHR 0x5C) \<lparr>lb_w = 0, lb_buf = None\<rparr> = \<lparr>lb_w = 1, lb_buf = None\<rparr>"
    using lb_append_same [of ?path "[]" "CHR 0x5C" "p @ names qs"] by (simp add: ps sep_sl(2))
  have "clean_loop ?path True 1 \<lparr>lb_w = 1, lb_buf = None\<rparr> (p @ names qs) =
      clean_loop ?path True 1 (lb_appends ?path p \<lparr>lb_w = 1, lb_buf = None\<rparr>) (names qs)"
    using assms(2) ps by (simp add: clean_loop_name)
  also have "lb_appends ?path p \<lparr>lb_w = 1, lb_buf = None\<rparr> = \<lparr>lb_w = length (sl @ p), lb_buf = None\<rparr>"
    using lb_appends_same [of ?path sl p "names qs"] by (simp add: ps sep_sl(2))
  also have "clean_loop ?path True 1 \<dots> (names qs) = \<lparr>lb_w = length ?path, lb_buf = None\<rparr>"
    using assms(2) ps by (intro clean_loop_names) (auto simp: sep_sl(2) win_name_def)
  finally have loop: "clean_loop ?path True 1 \<lparr>lb_w = 1, lb_buf = None\<rparr> (p @ names qs) = \<lparr>lb_w = length ?path, lb_buf = None\<rparr>" .
  define path where "path = ?path"
  have run: "clean_loop path True 1 (lb_append path (CHR 0x5C) \<lparr>lb_w = 0, lb_buf = None\<rparr>) (tl path) =
      \<lparr>lb_w = length path, lb_buf = None\<rparr>"
    using loop start by (simp add: path_def ps sep_sl(2))
  have vol: "volume_len (drive_path d ps) = 2" by (simp add: volume_len_def drive_path_def)
  have parts: "drop 2 (drive_path d ps) = path" "take 2 (drive_path d ps) = [d, CHR '':'']" "path \<noteq> []" "win_sep (hd path)"
    by (simp_all add: drive_path_def path_def ps sep_sl)
  have "win_clean (drive_path d ps) = backslashed ([d, CHR '':''] @ path)"
    unfolding win_clean_def vol Let_def parts(1,2) using parts(3,4) run by (simp add: lb_string_def)
  also have "\<dots> = drive_path d ps" using drive_path_backslashed [OF assms(1,2)] by (simp add: drive_path_def path_def)
  finally show ?thesis .
qed

lemma drive_path_snoc: "drive_path d (ps @ [p]) = drive_path d ps @ sl @ p"
  by (simp add: drive_path_def)

lemma win_join_drive:
  assumes "d \<noteq> CHR ''/''" "list_all win_name (ps @ [p])" "ps \<noteq> []"
  shows "win_join [drive_path d ps, p] = drive_path d (ps @ [p])"
proof -
  obtain q qs where ps: "ps = qs @ [q]" using assms(3) by (cases ps rule: rev_cases) auto
  then have q: "q \<noteq> []" "\<not> win_sep (last q)" using assms(2) by (auto simp: win_name_def list_all_iff)
  have last: "last (drive_path d ps) = last q" "drive_path d ps \<noteq> []" using q by (simp_all add: drive_path_def ps sep_sl(2))
  have "last q \<noteq> CHR '':''" using assms(2) q(1) ps by (auto simp: win_name_def list_all_iff)
  then have "fold (\<lambda>e b. join_elem b e) [drive_path d ps, p] [] = drive_path d (ps @ [p])"
    using q last by (simp add: join_elem_def drive_path_snoc)
  moreover have "drive_path d (ps @ [p]) \<noteq> []" by (simp add: drive_path_def)
  ultimately show ?thesis using win_clean_drive [OF assms(1,2)] by (simp add: win_join_def)
qed

section \<open>Properties\<close>

text \<open>
  On Windows the platform's four directories are \<open>Weave\<close> below \<open>ProgramData\<close> and its
  \<open>logs\<close>, \<open>run\<close> and \<open>staging\<close>, for any \<open>ProgramData\<close> that is a cleaned path below a drive's root,
  and below \<open>C:\ProgramData\<close> when it is not set.
\<close>
lemma Paths_windows_layout:
  assumes "os_Getenv env ''ProgramData'' = (if set_it then drive_path d ps else [])"
    and "d \<noteq> CHR ''/''" "list_all win_name ps" "ps \<noteq> []"
  shows "Paths_windows env =
    (let root = (if set_it then drive_path d ps else ''C:'' @ sl @ ''ProgramData'') @ sl @ ''Weave''
     in \<lparr>StateDir = root, LogDir = root @ sl @ ''logs'', RunDir = root @ sl @ ''run'', StagingDir = root @ sl @ ''staging''\<rparr>)"
proof -
  define d' ps' where "d' = (if set_it then d else CHR ''C'')" and "ps' = (if set_it then ps else [''ProgramData''])"
  have name: "win_name ''ProgramData''" "win_name ''Weave''" "win_name ''logs''" "win_name ''run''" "win_name ''staging''"
    by (simp_all add: win_name_def win_sep_def)
  have ok: "d' \<noteq> CHR ''/''" "list_all win_name ps'" "ps' \<noteq> []" using assms(2-4) name(1) by (simp_all add: d'_def ps'_def)
  have base: "(if os_Getenv env ''ProgramData'' = [] then ''C:'' @ sl @ ''ProgramData'' else os_Getenv env ''ProgramData'') =
      drive_path d' ps'" "(if set_it then drive_path d ps else ''C:'' @ sl @ ''ProgramData'') = drive_path d' ps'"
    by (simp_all add: assms(1) d'_def ps'_def drive_path_def)
  have root: "win_join [drive_path d' ps', ''Weave''] = drive_path d' (ps' @ [''Weave''])"
    using ok name(2) by (intro win_join_drive) simp_all
  have sub: "win_join [drive_path d' (ps' @ [''Weave'']), p] = drive_path d' ps' @ sl @ ''Weave'' @ sl @ p" if "win_name p" for p
    using win_join_drive [of d' "ps' @ [''Weave'']" p] ok name(2) that by (simp add: drive_path_def)
  show ?thesis
    unfolding Paths_windows_def Let_def base root sub [OF name(3)] sub [OF name(4)] sub [OF name(5)]
    by (simp add: drive_path_def)
qed

lemma Paths_windows_layout_witness:
  "LogDir (Paths_windows [''ProgramData'' \<mapsto> ''D:'' @ sl @ ''Data'']) = ''D:'' @ sl @ ''Data'' @ sl @ ''Weave'' @ sl @ ''logs''"
  using Paths_windows_layout [of "[''ProgramData'' \<mapsto> ''D:'' @ sl @ ''Data'']" True "CHR ''D''" "[''Data'']"]
  by (simp add: os_Getenv_def drive_path_def win_name_def win_sep_def)

end
