(* ===== verification/SdkTests.thy ===== *)
theory SdkTests
  imports Serve
begin

text \<open>
  The repository's unit tests of the handshake (\<open>handshake/handshake_test.go\<close> and the seeds of
  \<open>fuzz_test.go\<close>) evaluated on the model, which answers on every test input as the tests expect
  of the code.
\<close>

definition rejects :: "string \<Rightarrow> bool" where
  "rejects s \<longleftrightarrow> (case Parse s of Inl _ \<Rightarrow> True | Inr _ \<Rightarrow> False)"

definition pipe_dir :: string where
  "pipe_dir = [CHR 0x5C, CHR 0x5C, CHR ''.'', CHR 0x5C] @ ''pipe'' @ [CHR 0x5C]"

lemma TestLineRoundTrip:
  "Parse (Format \<lparr>Protocol = 3, Network = ''unix'', Addr = ''/var/run/weave/sysinfo.sock''\<rparr>) =
     Inr \<lparr>Protocol = 3, Network = ''unix'', Addr = ''/var/run/weave/sysinfo.sock''\<rparr>"
  by (rule Parse_stable [of "''WEAVE|1|3|unix|/var/run/weave/sysinfo.sock''"]) (simp add: parse_eval)

lemma TestParseRejects:
  "rejects []"
  "rejects ''WEAVE|1|1|unix''"
  "rejects ''NOPE|1|1|unix|/a''"
  "rejects ''WEAVE|2|1|unix|/a''"
  "rejects ''WEAVE|1|0|unix|/a''"
  "rejects ''WEAVE|1|1|tcp|127.0.0.1:1''"
  "rejects ''WEAVE|1|1|unix|''"
  by (simp_all add: rejects_def parse_eval)

lemma TestWindow:
  "ParseWindow ''2'' ''3'' = Inr \<lparr>Min = 2, Max = 3\<rparr>"
  "map (Contains \<lparr>Min = 2, Max = 3\<rparr>) [1, 2, 3, 4] = [False, True, True, False]"
  "\<exists>e. ParseWindow ''0'' ''3'' = Inl e"
  "\<exists>e. ParseWindow ''3'' ''2'' = Inl e"
  by (simp_all add: ParseWindow_def parse_uint_def digit_val_def Contains_def word_le_nat_alt)

lemma TestParseAcceptsTheLegacyPipeNetworkName:
  "Parse (''WEAVE|1|1|winpipe|'' @ pipe_dir @ ''weave-module-x'') =
     Inr \<lparr>Protocol = 1, Network = NetworkPipe, Addr = pipe_dir @ ''weave-module-x''\<rparr>"
  by (simp add: pipe_dir_def parse_eval)

lemma TestParseStillRefusesAnUnknownNetwork: "rejects ''WEAVE|1|1|tcp|127.0.0.1:9000''"
  by (simp add: rejects_def parse_eval)

lemma FuzzParse_seeds:
  "\<not> rejects ''WEAVE|1|1|unix|/tmp/m.sock''"
  "\<not> rejects (''WEAVE|1|3|npipe|'' @ pipe_dir @ ''weave-m'')"
  "rejects ''WEAVE''"
  "rejects ''WEAVE|9|1|unix|/tmp/m.sock''"
  "rejects ''WEAVE|1|0|unix|/tmp/m.sock''"
  "rejects ''WEAVE|1|1|udp|/tmp/m.sock''"
  "rejects ''NOPE|1|1|unix|/tmp/m.sock''"
  "rejects ''WEAVE|abc|1|unix|/tmp/m.sock''"
  "rejects ''WEAVE|1|abc|unix|/tmp/m.sock''"
  by (simp_all add: rejects_def pipe_dir_def parse_eval)

end
