(* ===== verification/Spec2Isabelle.thy ===== *)
theory Spec2Isabelle
  imports LifecycleProps Confined JobLoops HostIface Delivery Retry ServeReport GracefulExit LogSerial
    ChildPipes IntegrationTests WinPath SdkTests
begin

text \<open>
  The Weave platform SDK: a Go library that runs one module as a process under a supervising
  core.  Core launches the module binary with a handshake environment; the module answers with
  one line on stdout naming its socket, core drives its lifecycle over gRPC on that socket, and
  the module calls core's host services back over a second one, with a one-time token.

  \<^bold>\<open>The parts and their theories.\<close>

  \<^item> \<open>Weave_Prelude\<close>, \<open>GoStrings\<close>, \<open>GoPath\<close>: what the code uses of Go itself.  Strings are byte
    lists, a pair (value, error) is a sum, a bounded channel is a list with \<open>offer\<close>, \<open>range\<close> over a
    map takes the order as a seed; \<open>Split\<close>, \<open>TrimSpace\<close>, \<open>ParseUint\<close>, \<open>filepath.Join\<close>, the lines
    of a \<open>bufio.Scanner\<close> and the environment are executable functions with their lemmas.
  \<^item> \<open>Werror\<close>: \<open>werror/werror.go\<close> and \<open>modulesdk/errmap.go\<close>.  Errors are a datatype; \<open>errors_is\<close>
    walks the wrapping chain.
  \<^item> \<open>Handshake\<close>: \<open>handshake/handshake.go\<close>.  \<open>Format\<close>, \<open>Parse\<close>, \<open>ParseWindow\<close>, \<open>Contains\<close>: what
    is accepted exactly, and the round trips.
  \<^item> \<open>SdkTypes\<close>: the data of \<open>modulesdk/module.go\<close>; Go's \<open>int\<close> and \<open>time.Duration\<close> are 64-bit words.
  \<^item> \<open>Wire\<close>: the record of generated client stubs, a parameter of everything above it.
  \<^item> \<open>HostData\<close>, \<open>HostServer\<close>: the stub services of \<open>modulesdk/testkit/hostdata.go\<close> and
    \<open>hostserver.go\<close> behind its unary and its stream interceptor.  A stream opened there comes with
    its life given, as any its handler may have; the handlers' loops are stepped through in
    \<open>PolicyWatch\<close> and \<open>EventWatch\<close>.  The locale \<open>kv_store\<close> states what a store's client relies on; it is
    interpreted on \<open>HostData\<close>.
  \<^item> \<open>HostClient\<close>, \<open>HostApi\<close>: \<open>modulesdk/hostclient.go\<close>, and the tree of host calls (\<open>prog\<close>) that
    stands for a method of an arbitrary module: every method of the interfaces of \<open>module.go\<close> but
    \<open>Log\<close>, which is \<open>ModuleLog\<close>'s.
  \<^item> \<open>HostProps\<close>: the token, the store's namespaces and the attribution of events, over client
    and stub together.
  \<^item> \<open>Lifecycle\<close>, \<open>LifecycleOrder\<close>, \<open>LifecycleProps\<close>: \<open>modulesdk/lifecycle.go\<close>.  Handlers hold
    one mutex, so concurrent RPCs are a list of handler executions (\<open>run_events\<close>); \<open>srv_ok\<close> is the
    invariant, \<open>order_run\<close> the automaton of the calls a module may see, \<open>lc_step\<close> the abstract
    lifecycle the handlers refine.
  \<^item> \<open>HostIface\<close>: the \<open>Host\<close> interface and its parts as records, the client as one; \<open>spec_call\<close> is
    what they promise, the locale \<open>host_contract\<close> carries the promise to any module's whole method,
    and it is interpreted on the client over the stub.
  \<^item> \<open>Streams\<close>: the goroutines of \<open>hostclient.go\<close>: pumps, job loop, watchdog, \<open>awaitDisconnect\<close>,
    each a function of the outcomes of its blocking calls; \<open>Receive\<close>, \<open>Watch\<close> and \<open>Subscribe\<close>.
  \<^item> \<open>Quiesce\<close>: runs of interleaved goroutines; the locale \<open>quiescing\<close> is the contract of a system
    whose internal steps use up a rank, so that it settles after boundedly many of them.
  \<^item> \<open>PolicyWatch\<close>, \<open>PolicyLive\<close>: \<open>SetPolicy\<close> and the \<open>Watch\<close> handlers as interleaved steps; the
    invariant \<open>pw_ok\<close> gives that no update is lost, \<open>history_ok\<close> that every document sent is one
    that was set, under its own revision, and \<open>quiescing\<close> that every open watcher ends on the
    current document.
  \<^item> \<open>EventWatch\<close>, \<open>EventLive\<close>: \<open>Publish\<close> and the event \<open>Subscribe\<close> handlers likewise; \<open>ev_ok\<close>
    accounts for every matching event, and with at most 64 of them all are sent in the end.  The
    atomic \<open>SetPolicy\<close> and \<open>Publish\<close> of \<open>HostData\<close> are shown to be uninterrupted runs of these.
  \<^item> \<open>Relay\<close>, \<open>Delivery\<close>: the client's pumps behind the stub's streams.  The locale \<open>relayed\<close> adds
    them to a system that settles; interpreted on both, it takes policy documents and events to
    the module's own channels, under every schedule of the goroutines' own steps.
  \<^item> \<open>JobSync\<close>: \<open>startJobs\<close> and \<open>stopJobs\<close> with the job goroutines interleaved: the one-step
    \<open>stopJobs\<close> of \<open>HostClient\<close> is what a call comes to under every schedule, and it can return.
    \<open>JobLoops\<close> takes this to whole runs of calls, and shows each of those goroutines to be the
    sequential loop of \<open>Streams\<close>, run for run.
  \<^item> \<open>LogHandler\<close>, \<open>ModuleLog\<close>: \<open>modulesdk/loghandler.go\<close>, and around it \<open>wlog/wlog.go\<close> and
    \<open>Host.Log\<close>: which records come out, and where.
  \<^item> \<open>LogSync\<close>, \<open>LogSerial\<close>: log calls of many goroutines interleaved at the handler's mutex, the wire
    and the fallback: one sender per stream (and how a derived handler breaks that), the run as
    atomic calls one at a time, and that every call returns.
  \<^item> \<open>Confined\<close>: what any module at all can change of the stub host through its lifecycle methods,
    streams opened included.
  \<^item> \<open>Ipc\<close>: \<open>ipc/\<close>, over a small file-system model; a \<open>seam\<close> record is the build for one platform.
  \<^item> \<open>Retry\<close>: \<open>retry/retry.go\<close> with \<open>float64\<close> as rationals rounded to 53 bits (\<open>fl\<close>); the locale
    \<open>rounding\<close> states what the bounds need of it.
  \<^item> \<open>Platform\<close>, \<open>WinPath\<close>: \<open>platform/\<close> (with Go's Windows \<open>filepath\<close>), \<open>config/config.go\<close> and the level of \<open>wlog/wlog.go\<close>.
  \<^item> \<open>ToyModule\<close>: the integration-test module, the concrete instance behind the witnesses.
  \<^item> \<open>Serve\<close>: \<open>modulesdk/serve.go\<close>, from the environment to the exit code; \<open>serve_on\<close> takes the
    seam, \<open>serve\<close> is the Unix build.  Its exit is the outcome of one that completes.
  \<^item> \<open>ServeReport\<close>: the texts of its errors, its log lines and what is on stderr when it exits.
  \<^item> \<open>ProcessEnd\<close>: a shutdown by core and the loss of core both wake the process, and an exit that
    completes is then 0.
  \<^item> \<open>GracefulExit\<close>: the main goroutine of \<open>serve\<close> interleaved with the RPCs and streams in flight;
    its exits are those of \<open>run_module\<close>, and a graceful stop, after a shutdown, a loss of core or a
    signal, ends unless a health stream stays open.
  \<^item> \<open>StubCore\<close>, \<open>EndToEnd\<close>: \<open>modulesdk/testkit/stubcore.go\<close>, the core side; the handshake and the
    token end to end, and the Windows build's pipe names.
  \<^item> \<open>ChildPipes\<close>: the module's stdout and stderr as bounded pipes, and the one reader \<open>Launch\<close> starts.
  \<^item> \<open>SdkTests\<close>, \<open>IntegrationTests\<close>: the handshake's unit tests and fuzz seeds and the stub core's
    integration tests, evaluated on the model.

  \<^bold>\<open>Bounds.\<close>  There is no fuel: every loop of the model ends by structural recursion or a measure,
  and a loop that waits for its environment ends with the list of what the environment did.  The
  policy theorems assume fewer than \<open>2^64 - 1\<close> updates, since the revision is a 64-bit counter
  and \<open>Watch\<close> adds one to it.  The settling theorems bound the run by a rank (\<open>pw_rank\<close>,
  \<open>ev_rank\<close>, \<open>relay_rank\<close>, \<open>js_rank\<close>, \<open>ls_rank\<close>, \<open>serve_rank\<close>, \<open>child_rank\<close>) computed from what is
  under way; they let new calls and hang-ups rest and have every job run return, and those of
  policies and events have every send succeed, while log calls settle whatever the wire does.  A job whose timer and
  cancelled context are both ready may take either, so runs after a cancel have no bound
  (\<open>runs_after_cancel\<close>).

  \<^bold>\<open>What is not modelled.\<close>  gRPC, protobuf, go-winio and \<open>golang.org/x/sys\<close> are parameters with
  their documented behaviour as hypotheses where a theorem needs it.  JSON decoding into a caller's
  type is a parameter too.  \<open>GracefulStop\<close> is gRPC's and taken as documented: it accepts nothing
  new and returns when all RPCs and streams in flight are over.  What a blocked write does to the
  goroutines of a module beside the one that writes is not followed.  A module that panics is
  outside the model, and so is what it does with its host handle outside its lifecycle methods,
  except where a theorem is about single host calls or log calls.
\<close>

end
